(* ===== verification/Prelude.thy ===== *)
theory Prelude
  imports Complex_Main "HOL-Library.AList" "HOL-Library.Multiset"
begin

text \<open>
  Shared material of the development: Go maps as association lists with distinct keys,
  in-place adjustment of the object a map entry points to, sums over a map, integer
  conversions, and the generic notion of a reachable state with its invariant rule.

  A Go map iterates in an unspecified order. The order of the association list stands
  for one such order; every theorem quantifies over all lists, hence over all orders,
  and the components prove that permuting the list does not matter where the code
  relies on that.
\<close>

named_theorems gomap "lookup, keys and well-formedness of the map operations"
named_theorems framed "fields that an operation leaves alone"

section \<open>Go maps\<close>

type_synonym ('k, 'v) gomap = "('k \<times> 'v) list"

abbreviation mkeys :: "('k, 'v) gomap \<Rightarrow> 'k set" where
  "mkeys m \<equiv> fst ` set m"

definition wf_map :: "('k, 'v) gomap \<Rightarrow> bool" where
  "wf_map m \<longleftrightarrow> distinct (map fst m)"

definition mput :: "'k \<Rightarrow> 'v \<Rightarrow> ('k, 'v) gomap \<Rightarrow> ('k, 'v) gomap" where
  "mput k v m = AList.update k v m"

definition mdel :: "'k \<Rightarrow> ('k, 'v) gomap \<Rightarrow> ('k, 'v) gomap" where
  "mdel k m = filter (\<lambda>(k', _). k' \<noteq> k) m"

text \<open>Reading a missing key of a map to int gives the zero value.\<close>

definition mget0 :: "('k, int) gomap \<Rightarrow> 'k \<Rightarrow> int" where
  "mget0 m k = (case map_of m k of None \<Rightarrow> 0 | Some v \<Rightarrow> v)"

text \<open>
  \<open>if p := m[k]; p != nil { update *p }\<close>: the entry is a pointer, so the object is
  changed in place and the map keeps its keys.
\<close>

definition madj :: "'k \<Rightarrow> ('v \<Rightarrow> 'v) \<Rightarrow> ('k, 'v) gomap \<Rightarrow> ('k, 'v) gomap" where
  "madj k f m = map (\<lambda>(k', v). (k', if k' = k then f v else v)) m"

definition mapply :: "('a \<Rightarrow> 'v \<Rightarrow> 'v) \<Rightarrow> ('k, 'a) gomap \<Rightarrow> ('k, 'v) gomap \<Rightarrow> ('k, 'v) gomap" where
  "mapply f al m = map (\<lambda>(k, v). (k, case map_of al k of None \<Rightarrow> v | Some a \<Rightarrow> f a v)) m"

definition msum :: "('v \<Rightarrow> int) \<Rightarrow> ('k, 'v) gomap \<Rightarrow> int" where
  "msum f m = (\<Sum>(k, v)\<leftarrow>m. f v)"

subsection \<open>Lookup and keys\<close>

lemma map_of_mput [simp]: "map_of (mput k v m) = (map_of m)(k \<mapsto> v)"
  by (simp add: mput_def update_conv')

lemma map_of_mput_apply: "map_of (mput k v m) k' = (if k' = k then Some v else map_of m k')"
  by simp

lemma mkeys_mput [simp]: "mkeys (mput k v m) = insert k (mkeys m)"
  by (simp add: mput_def dom_update)

lemma wf_mput [simp]: "wf_map m \<Longrightarrow> wf_map (mput k v m)"
  by (simp add: wf_map_def mput_def distinct_update)

lemma map_of_mdel [simp]: "map_of (mdel k m) = (map_of m)(k := None)"
  by (induction m) (auto simp: mdel_def fun_eq_iff)

lemma mkeys_mdel [simp]: "mkeys (mdel k m) = mkeys m - {k}"
  by (force simp: mdel_def)

lemma wf_mdel [simp]: "wf_map m \<Longrightarrow> wf_map (mdel k m)"
  by (induction m) (auto simp: wf_map_def mdel_def)

lemma map_fst_madj [simp]: "map fst (madj k f m) = map fst m"
  by (induction m) (auto simp: madj_def)

lemma mkeys_madj [simp]: "mkeys (madj k f m) = mkeys m"
  by (metis map_fst_madj set_map)

lemma wf_madj [simp]: "wf_map (madj k f m) = wf_map m"
  by (simp add: wf_map_def)

lemma map_of_madj [gomap]:
  "map_of (madj k f m) k' = (if k' = k then map_option f (map_of m k') else map_of m k')"
  by (induction m) (auto simp: madj_def)

lemma madj_missing: "k \<notin> mkeys m \<Longrightarrow> madj k f m = m"
  by (induction m) (auto simp: madj_def)

lemma length_madj [simp]: "length (madj k f m) = length m"
  by (simp add: madj_def)

lemma map_fst_mapply [simp]: "map fst (mapply f al m) = map fst m"
  by (induction m) (auto simp: mapply_def)

lemma mkeys_mapply [simp]: "mkeys (mapply f al m) = mkeys m"
  by (metis map_fst_mapply set_map)

lemma wf_mapply [simp]: "wf_map (mapply f al m) = wf_map m"
  by (simp add: wf_map_def)

lemma length_mapply [simp]: "length (mapply f al m) = length m"
  by (simp add: mapply_def)

lemma map_of_mapply [gomap]:
  "map_of (mapply f al m) k =
     map_option (\<lambda>v. case map_of al k of None \<Rightarrow> v | Some a \<Rightarrow> f a v) (map_of m k)"
  by (induction m) (auto simp: mapply_def split: option.splits)

lemma wf_Nil [simp]: "wf_map []"
  by (simp add: wf_map_def)

lemma wf_Cons [simp]: "wf_map ((k, v) # m) \<longleftrightarrow> k \<notin> mkeys m \<and> wf_map m"
  by (simp add: wf_map_def)

lemma wf_filter: "wf_map m \<Longrightarrow> wf_map (filter P m)"
  by (simp add: wf_map_def distinct_map_filter)

lemma wf_map_of: "wf_map m \<Longrightarrow> (k, v) \<in> set m \<longleftrightarrow> map_of m k = Some v"
  by (simp add: wf_map_def)

lemma map_of_None_iff: "map_of m k = None \<longleftrightarrow> k \<notin> mkeys m"
  by (simp add: map_of_eq_None_iff)

lemma mkeys_Some: "map_of m k = Some v \<Longrightarrow> k \<in> mkeys m"
  by (metis map_of_None_iff option.distinct(1))

lemma mkeys_obtain: "k \<in> mkeys m \<Longrightarrow> \<exists>v. map_of m k = Some v"
  by (metis map_of_None_iff not_None_eq)

lemma length_mput: "length (mput k v m) = (if k \<in> mkeys m then length m else Suc (length m))"
  by (induction m) (auto simp: mput_def)

lemma length_mdel_le: "length (mdel k m) \<le> length m"
  by (simp add: mdel_def)

lemma map_of_filter_ne: "map_of (filter (\<lambda>(k', v). k' \<noteq> k) m) = (map_of m)(k := None)"
  using map_of_mdel [of k m] by (simp add: mdel_def)

text \<open>Iteration order: permuting a well-formed map changes neither lookup nor keys.\<close>

lemma map_of_mset_eq: "wf_map m \<Longrightarrow> mset m' = mset m \<Longrightarrow> map_of m' = map_of m"
  by (rule ext, metis map_of_eq_None_iff map_of_eq_Some_iff mset_eq_setD mset_map
      mset_eq_imp_distinct_iff option.exhaust set_map wf_map_def)

lemma wf_mset_eq: "mset m' = mset m \<Longrightarrow> wf_map m' = wf_map m"
  by (metis mset_eq_imp_distinct_iff mset_map wf_map_def)

lemma mkeys_mset_eq: "mset m' = mset m \<Longrightarrow> mkeys m' = mkeys m"
  by (metis mset_eq_setD)

lemma mget0_Nil [simp]: "mget0 [] k = 0"
  by (simp add: mget0_def)

lemma mget0_mput [simp]: "mget0 (mput k v m) k' = (if k' = k then v else mget0 m k')"
  by (simp add: mget0_def)

lemma mget0_mdel [simp]: "mget0 (mdel k m) k' = (if k' = k then 0 else mget0 m k')"
  by (simp add: mget0_def)

lemma mget0_Cons: "mget0 ((k, v) # m) k' = (if k' = k then v else mget0 m k')"
  by (simp add: mget0_def)

lemma mget0_missing: "k \<notin> mkeys m \<Longrightarrow> mget0 m k = 0"
  by (simp add: mget0_def map_of_None_iff [THEN iffD2])

subsection \<open>Loops over a map that adjust another map in place\<close>

lemma madj_mapply_comm:
  "k \<notin> mkeys al \<Longrightarrow> mapply f al (madj k (f a) m) = mapply f ((k, a) # al) m"
  by (induction m) (auto simp: mapply_def madj_def map_of_None_iff [THEN iffD2])

text \<open>
  The loop \<open>for k, a := range al { if p := m[k]; p != nil { *p = f a *p } }\<close> updates
  every entry once, in any order.
\<close>

lemma fold_madj_eq_mapply:
  "wf_map al \<Longrightarrow> fold (\<lambda>(k, a). madj k (f a)) al m = mapply f al m"
proof (induction al arbitrary: m)
  case Nil
  then show ?case by (induction m) (auto simp: mapply_def)
next
  case (Cons p al)
  obtain k a where p: "p = (k, a)" by force
  from Cons.prems p have "wf_map al" and k: "k \<notin> mkeys al" by auto
  with Cons.IH p show ?case by (simp add: madj_mapply_comm [OF k])
qed

lemma mapply_id: "(\<And>k a v. map_of al k = Some a \<Longrightarrow> (k, v) \<in> set m \<Longrightarrow> f a v = v) \<Longrightarrow> mapply f al m = m"
  by (force simp: mapply_def split: option.splits intro!: map_idI)

lemma mapply_mapply:
  "mapply g al (mapply f al m) = mapply (\<lambda>a v. g a (f a v)) al m"
  by (auto simp: mapply_def split: option.splits)

lemma mapply_cong:
  "(\<And>k a v. map_of al k = Some a \<Longrightarrow> (k, v) \<in> set m \<Longrightarrow> f a v = g a v) \<Longrightarrow>
   mapply f al m = mapply g al m"
  by (auto simp: mapply_def split: option.splits)

lemma mapply_Nil [simp]: "mapply f [] m = m"
  by (induction m) (auto simp: mapply_def)

lemma set_mapply:
  "(k, v') \<in> set (mapply f al m) \<longleftrightarrow>
   (\<exists>v. (k, v) \<in> set m \<and> v' = (case map_of al k of None \<Rightarrow> v | Some a \<Rightarrow> f a v))"
  by (force simp: mapply_def)

lemma set_madj:
  "(k', v') \<in> set (madj k f m) \<longleftrightarrow> (\<exists>v. (k', v) \<in> set m \<and> v' = (if k' = k then f v else v))"
  by (force simp: madj_def)

subsection \<open>Sums over a map\<close>

lemma msum_Nil [simp]: "msum f [] = 0"
  by (simp add: msum_def)

lemma msum_Cons [simp]: "msum f ((k, v) # m) = f v + msum f m"
  by (simp add: msum_def)

lemma msum_mdel:
  "wf_map m \<Longrightarrow> msum f (mdel k m) = msum f m - (case map_of m k of None \<Rightarrow> 0 | Some v \<Rightarrow> f v)"
proof (induction m)
  case Nil
  then show ?case by (simp add: mdel_def)
next
  case (Cons p m)
  obtain k' v where p: "p = (k', v)" by force
  with Cons.prems have "map_of m k' = None" and "wf_map m" by (auto simp: map_of_None_iff)
  with Cons.IH p show ?case by (auto simp: mdel_def)
qed

lemma msum_mput:
  "wf_map m \<Longrightarrow>
   msum f (mput k v m) = msum f m - (case map_of m k of None \<Rightarrow> 0 | Some v' \<Rightarrow> f v') + f v"
proof (induction m)
  case Nil
  then show ?case by (simp add: mput_def)
next
  case (Cons p m)
  obtain k' v' where p: "p = (k', v')" by force
  with Cons show ?case by (auto simp: mput_def)
qed

lemma msum_mset_eq: "mset m' = mset m \<Longrightarrow> msum f m' = msum f m"
  unfolding msum_def by (metis mset_map sum_mset_sum_list)

lemma msum_nonneg: "(\<And>k v. (k, v) \<in> set m \<Longrightarrow> 0 \<le> f v) \<Longrightarrow> 0 \<le> msum f m"
  by (induction m) force+

lemma msum_member_le:
  "(\<And>k v. (k, v) \<in> set m \<Longrightarrow> 0 \<le> f v) \<Longrightarrow> (k, v) \<in> set m \<Longrightarrow> f v \<le> msum f m"
proof (induction m)
  case Nil
  then show ?case by simp
next
  case (Cons p m)
  obtain k' v' where p: "p = (k', v')" by force
  have nonneg: "0 \<le> msum f m" "0 \<le> f v'"
    using Cons.prems(1) p by (auto intro!: msum_nonneg)
  show ?case
  proof (cases "(k, v) = (k', v')")
    case True
    with p nonneg show ?thesis by simp
  next
    case False
    with Cons.prems p have "(k, v) \<in> set m" by auto
    with Cons.IH Cons.prems(1) have "f v \<le> msum f m" by (meson list.set_intros(2))
    with p nonneg show ?thesis by simp
  qed
qed

lemma msum_cong: "(\<And>k v. (k, v) \<in> set m \<Longrightarrow> f v = g v) \<Longrightarrow> msum f m = msum g m"
  by (induction m) force+

lemma msum_mono: "(\<And>k v. (k, v) \<in> set m \<Longrightarrow> f v \<le> g v) \<Longrightarrow> msum f m \<le> msum g m"
proof (induction m)
  case Nil
  then show ?case by simp
next
  case (Cons p m)
  obtain k v where p: "p = (k, v)" by force
  have "f v \<le> g v" using Cons.prems p by auto
  moreover have "msum f m \<le> msum g m" using Cons by (meson list.set_intros(2))
  ultimately show ?case using p by simp
qed

lemma sum_mkeys:
  assumes "wf_map m"
  shows "(\<Sum>k\<in>mkeys m. f k) = (\<Sum>(k, v)\<leftarrow>m. f k)"
proof -
  have "sum f (set (map fst m)) = sum_list (map f (map fst m))"
    by (rule sum.distinct_set_conv_list) (use assms in \<open>simp add: wf_map_def\<close>)
  then show ?thesis by (simp add: comp_def case_prod_unfold)
qed

lemma msum_mapply:
  "msum f (mapply g al m) =
   (\<Sum>(k, v)\<leftarrow>m. f (case map_of al k of None \<Rightarrow> v | Some a \<Rightarrow> g a v))"
  by (induction m) (auto simp: mapply_def)

lemma find_append:
  "find P (xs @ ys) = (case find P xs of None \<Rightarrow> find P ys | Some x \<Rightarrow> Some x)"
  by (induction xs) auto

lemma find_distinct:
  "distinct (map f xs) \<Longrightarrow> x \<in> set xs \<Longrightarrow> find (\<lambda>y. f y = f x) xs = Some x"
  by (induction xs) auto

section \<open>Reachable states\<close>

text \<open>
  The states a component can be in: the initial ones, and whatever a step leads to.
\<close>

inductive reach :: "('s \<Rightarrow> bool) \<Rightarrow> ('s \<Rightarrow> 's \<Rightarrow> bool) \<Rightarrow> 's \<Rightarrow> bool"
  for init :: "'s \<Rightarrow> bool" and step :: "'s \<Rightarrow> 's \<Rightarrow> bool" where
  reach_init: "init s \<Longrightarrow> reach init step s"
| reach_step: "reach init step s \<Longrightarrow> step s t \<Longrightarrow> reach init step t"

text \<open>
  The contract of a component with an invariant: it holds initially and every step keeps
  it. A client of the component may then rely on it in every reachable state.
\<close>

locale machine =
  fixes init :: "'s \<Rightarrow> bool"
    and step :: "'s \<Rightarrow> 's \<Rightarrow> bool"
    and inv :: "'s \<Rightarrow> bool"
  assumes inv_init: "init s \<Longrightarrow> inv s"
    and inv_step: "inv s \<Longrightarrow> step s t \<Longrightarrow> inv t"
begin

lemma reach_inv: "reach init step s \<Longrightarrow> inv s"
  by (induction rule: reach.induct) (auto intro: inv_init inv_step)

lemma inv_steps: "inv s \<Longrightarrow> step\<^sup>*\<^sup>* s t \<Longrightarrow> inv t"
  by (rotate_tac, induction rule: rtranclp_induct) (auto intro: inv_step)

end

lemma reach_steps: "reach init step s \<Longrightarrow> step\<^sup>*\<^sup>* s t \<Longrightarrow> reach init step t"
  by (rotate_tac, induction rule: rtranclp_induct) (auto intro: reach.reach_step)

section \<open>Key-value stores\<close>

text \<open>
  What a caller relies on when it keeps entries under a key: an entry is read back after
  it was put, is gone after it was deleted, and other keys are not disturbed.
\<close>

locale key_value =
  fixes get :: "'m \<Rightarrow> 'k \<Rightarrow> 'v option"
    and put :: "'k \<Rightarrow> 'v \<Rightarrow> 'm \<Rightarrow> 'm"
    and del :: "'k \<Rightarrow> 'm \<Rightarrow> 'm"
    and ok :: "'m \<Rightarrow> bool"
  assumes get_put: "get (put k v m) k' = (if k' = k then Some v else get m k')"
    and get_del: "get (del k m) k' = (if k' = k then None else get m k')"
    and ok_put: "ok m \<Longrightarrow> ok (put k v m)"
    and ok_del: "ok m \<Longrightarrow> ok (del k m)"
begin

lemma get_put_put: "get (put k v (put k v' m)) = get (put k v m)"
  by (simp add: fun_eq_iff get_put)

lemma get_del_put: "get m k = None \<Longrightarrow> get (del k (put k v m)) = get m"
  by (auto simp: fun_eq_iff get_put get_del)

lemma get_put_comm: "k \<noteq> k' \<Longrightarrow> get (put k v (put k' v' m)) = get (put k' v' (put k v m))"
  by (auto simp: fun_eq_iff get_put)

lemma ok_put_del: "ok m \<Longrightarrow> ok (put k v (del k' m))"
  by (intro ok_put ok_del)

end

interpretation gm: key_value map_of mput mdel wf_map
  by unfold_locales auto

end
