(* ===== verification/Proto.thy ===== *)
theory Proto
  imports Prelude
begin

text \<open>
  The messages on the attach stream (proto/services.proto, generated into
  proto/services.pb.go): a message is a record, a oneof a datatype whose last
  constructor is the unset case, an optional message field an option (None for the nil
  pointer). A proto3 enum is open: a value off the wire need not be a declared one.
  Doubles are exact reals; int32 and int64 fields are integers, and the conversions of
  the code to those widths are written where the code makes them.
\<close>

section \<open>Enums\<close>

datatype http_method = GET | POST | PUT | DELETE | UPDATE | UnknownMethod int

datatype action = START | STOP | UnknownAction int

section \<open>Messages\<close>

record http_header =
  hh_key :: string
  hh_value :: string

record params =
  p_name :: string
  p_url :: string
  p_method :: http_method
  p_protocol :: string
  p_host :: string
  p_port :: string
  p_path :: string
  p_concurrency :: int
  p_header :: "http_header list"
  p_body :: string
  p_verbose :: bool

record register =
  r_worker_id :: string
  r_name :: string
  r_max_concurrency :: int

record metric =
  m_job :: string
  m_worker_count :: int
  m_request_count :: int
  m_error_count :: int
  m_avg :: real
  m_min :: real
  m_max :: real
  m_rps :: real
  m_elapsed_time :: real
  m_bucket :: "int list"

record sample =
  s_method :: string
  s_url :: string
  s_request_header :: "http_header list"
  s_request_body :: string
  s_status_code :: int
  s_response_header :: "http_header list"
  s_response_body :: string
  s_latency_ms :: real
  s_error :: string
  s_ts :: int

record report =
  rep_metric :: "metric option"
  rep_sample :: "sample option"

datatype worker_message =
    WMRegister register
  | WMReport report
  | WMHeartbeat int
  | WMUnset

record command =
  c_action :: action
  c_job :: string
  c_params :: "params option"

datatype ocean_message = OMCommand command | OMUnset

section \<open>Getters\<close>

text \<open>The generated getters answer for a nil message too, with the zero value.\<close>

fun GetRegister :: "worker_message \<Rightarrow> register option" where
  "GetRegister (WMRegister r) = Some r"
| "GetRegister _ = None"

fun GetReport :: "worker_message \<Rightarrow> report option" where
  "GetReport (WMReport r) = Some r"
| "GetReport _ = None"

fun GetCommand :: "ocean_message \<Rightarrow> command option" where
  "GetCommand (OMCommand c) = Some c"
| "GetCommand OMUnset = None"

definition zero_params :: params where
  "zero_params =
     \<lparr>p_name = [], p_url = [], p_method = GET, p_protocol = [], p_host = [], p_port = [],
      p_path = [], p_concurrency = 0, p_header = [], p_body = [], p_verbose = False\<rparr>"

definition GetParams :: "command \<Rightarrow> params" where
  "GetParams c = (case c_params c of None \<Rightarrow> zero_params | Some p \<Rightarrow> p)"

text \<open>
  A header list and the map it stands for: a later entry of the same key wins, as in the
  loops that fill a Go map from the list.
\<close>

definition headers_of_list :: "http_header list \<Rightarrow> (string, string) gomap" where
  "headers_of_list hs = fold (\<lambda>h. mput (hh_key h) (hh_value h)) hs []"

definition list_of_headers :: "(string, string) gomap \<Rightarrow> http_header list" where
  "list_of_headers m = map (\<lambda>(k, v). \<lparr>hh_key = k, hh_value = v\<rparr>) m"

lemma mput_new: "k \<notin> mkeys m \<Longrightarrow> mput k v m = m @ [(k, v)]"
  by (induction m) (auto simp: mput_def)

lemma fold_mput_list_of_headers:
  "wf_map (acc @ m) \<Longrightarrow>
   fold (\<lambda>h. mput (hh_key h) (hh_value h)) (list_of_headers m) acc = acc @ m"
proof (induction m arbitrary: acc)
  case Nil
  then show ?case by (simp add: list_of_headers_def)
next
  case (Cons p m)
  obtain k v where p: "p = (k, v)" by force
  from Cons.prems p have k: "k \<notin> mkeys acc" by (auto simp: wf_map_def)
  from Cons.prems p have "wf_map ((acc @ [(k, v)]) @ m)" by (simp add: wf_map_def)
  from Cons.IH [OF this] p k show ?case
    by (simp add: list_of_headers_def mput_new)
qed

lemma headers_of_list_of_headers: "wf_map m \<Longrightarrow> headers_of_list (list_of_headers m) = m"
  using fold_mput_list_of_headers [of "[]" m] by (simp add: headers_of_list_def)

lemma fold_wf: "wf_map acc \<Longrightarrow> wf_map (fold (\<lambda>h. mput (hh_key h) (hh_value h)) hs acc)"
  by (induction hs arbitrary: acc) auto

lemma wf_headers_of_list: "wf_map (headers_of_list hs)"
  by (simp add: headers_of_list_def fold_wf)

end
