(* ===== verification/GoStrings.thy ===== *)
theory GoStrings
  imports Prelude "HOL-Library.Char_ord" "HOL-Library.List_Lexorder" "HOL-Library.Word"
begin

text \<open>
  The functions of the Go standard library packages strings, strconv and sort that the
  program calls, on byte strings. A Go string is a byte sequence and a \<open>char\<close> is a byte,
  so a rune beyond ASCII is the list of its UTF-8 bytes. Strings are compared byte by
  byte, which is the lexicographic order of lists.
\<close>

definition byte :: "char \<Rightarrow> nat" where
  "byte c = of_char c"

lemma byte_less: "byte c < 256"
  unfolding byte_def by (cases c) (simp add: of_char_def horner_sum_of_bool_2_less)

lemma byte_inj: "byte c = byte d \<longleftrightarrow> c = d"
  by (simp add: byte_def)

section \<open>Prefix, search and replacement\<close>

definition starts_with :: "string \<Rightarrow> string \<Rightarrow> bool" where
  "starts_with p s \<longleftrightarrow> take (length p) s = p"

lemma starts_with_iff: "starts_with p s \<longleftrightarrow> (\<exists>t. s = p @ t)"
  unfolding starts_with_def by (metis append_eq_conv_conj append_take_drop_id)

lemma starts_with_length: "starts_with p s \<Longrightarrow> length p \<le> length s"
  by (auto simp: starts_with_iff)

lemma starts_with_drop: "starts_with p s \<Longrightarrow> s = p @ drop (length p) s"
  by (auto simp: starts_with_iff)

text \<open>strings.Index: the first position at which sub occurs; None for -1.\<close>

fun str_index :: "string \<Rightarrow> string \<Rightarrow> nat option" where
  "str_index sub [] = (if sub = [] then Some 0 else None)"
| "str_index sub (c # cs) =
     (if starts_with sub (c # cs) then Some 0 else map_option Suc (str_index sub cs))"

definition str_contains :: "string \<Rightarrow> string \<Rightarrow> bool" where
  "str_contains s sub \<longleftrightarrow> str_index sub s \<noteq> None"

lemma str_index_Some:
  "str_index sub s = Some i \<Longrightarrow> \<exists>a b. s = a @ sub @ b \<and> length a = i"
proof (induction s arbitrary: i)
  case Nil
  then show ?case by (auto split: if_splits)
next
  case (Cons c s)
  show ?case
  proof (cases "starts_with sub (c # s)")
    case True
    with Cons.prems show ?thesis by (auto simp: starts_with_iff)
  next
    case False
    with Cons.prems obtain j where "str_index sub s = Some j" "i = Suc j" by auto
    with Cons.IH obtain a b where "s = a @ sub @ b" "length a = j" by blast
    with \<open>i = Suc j\<close> have "c # s = (c # a) @ sub @ b \<and> length (c # a) = i" by simp
    then show ?thesis by blast
  qed
qed

lemma str_index_None: "str_index sub s = None \<longleftrightarrow> (\<nexists>a b. s = a @ sub @ b)"
proof (induction s)
  case Nil
  then show ?case by auto
next
  case (Cons c s)
  have "(\<exists>a b. c # s = a @ sub @ b) \<longleftrightarrow> starts_with sub (c # s) \<or> (\<exists>a b. s = a @ sub @ b)"
    unfolding starts_with_iff by (metis append_Cons append_Nil append_eq_Cons_conv)
  with Cons show ?case by auto
qed

text \<open>strings.ReplaceAll for a non-empty \<open>old\<close>: left to right, without overlaps.\<close>

function replace_all :: "string \<Rightarrow> string \<Rightarrow> string \<Rightarrow> string" where
  "replace_all old new [] = []"
| "replace_all old new (c # cs) =
     (if old \<noteq> [] \<and> starts_with old (c # cs)
      then new @ replace_all old new (drop (length old) (c # cs))
      else c # replace_all old new cs)"
  by pat_completeness auto
termination
  by (relation "measure (\<lambda>(old, new, s). length s)") (auto simp: neq_Nil_conv)

lemma replace_all_absent: "str_index old s = None \<Longrightarrow> replace_all old new s = s"
proof (induction s)
  case Nil
  then show ?case by simp
next
  case (Cons c s)
  then show ?case by (auto split: if_splits)
qed

section \<open>White space\<close>

text \<open>
  unicode.IsSpace in UTF-8. No encoding of a space occurs inside the encoding of another
  rune, so a walk over bytes finds the same spaces as a walk over runes.
\<close>

definition space_runes :: "string list" where
  "space_runes =
     [[CHR 0x20], [CHR 0x09], [CHR 0x0A], [CHR 0x0B], [CHR 0x0C], [CHR 0x0D],
      [CHR 0xC2, CHR 0x85], [CHR 0xC2, CHR 0xA0], [CHR 0xE1, CHR 0x9A, CHR 0x80],
      [CHR 0xE2, CHR 0x80, CHR 0x80], [CHR 0xE2, CHR 0x80, CHR 0x81],
      [CHR 0xE2, CHR 0x80, CHR 0x82], [CHR 0xE2, CHR 0x80, CHR 0x83],
      [CHR 0xE2, CHR 0x80, CHR 0x84], [CHR 0xE2, CHR 0x80, CHR 0x85],
      [CHR 0xE2, CHR 0x80, CHR 0x86], [CHR 0xE2, CHR 0x80, CHR 0x87],
      [CHR 0xE2, CHR 0x80, CHR 0x88], [CHR 0xE2, CHR 0x80, CHR 0x89],
      [CHR 0xE2, CHR 0x80, CHR 0x8A], [CHR 0xE2, CHR 0x80, CHR 0xA8],
      [CHR 0xE2, CHR 0x80, CHR 0xA9], [CHR 0xE2, CHR 0x80, CHR 0xAF],
      [CHR 0xE2, CHR 0x81, CHR 0x9F], [CHR 0xE3, CHR 0x80, CHR 0x80]]"

text \<open>The length in bytes of the white space rune that \<open>s\<close> starts with, or 0.\<close>

definition space_len :: "string list \<Rightarrow> string \<Rightarrow> nat" where
  "space_len runes s =
     (case find (\<lambda>r. starts_with r s) runes of None \<Rightarrow> 0 | Some r \<Rightarrow> length r)"

lemma space_len_le: "space_len runes s \<le> length s"
  by (auto simp: space_len_def find_Some_iff starts_with_length split: option.splits)

lemma space_len_shorter: "0 < space_len runes s \<Longrightarrow> length s - space_len runes s < length s"
  using space_len_le [of runes s] by linarith

function trim_left :: "string list \<Rightarrow> string \<Rightarrow> string" where
  "trim_left runes s =
     (if space_len runes s = 0 then s else trim_left runes (drop (space_len runes s) s))"
  by pat_completeness auto
termination
  by (relation "measure (\<lambda>(runes, s). length s)") (auto simp: space_len_shorter)

declare trim_left.simps [simp del]

definition TrimSpace :: "string \<Rightarrow> string" where
  "TrimSpace s = rev (trim_left (map rev space_runes) (rev (trim_left space_runes s)))"

text \<open>strings.Fields: the maximal runs of non-space, in order.\<close>

definition emit :: "string \<Rightarrow> string list" where
  "emit cur = (if cur = [] then [] else [cur])"

function fields_from :: "string \<Rightarrow> string \<Rightarrow> string list" where
  "fields_from cur [] = emit cur"
| "fields_from cur (c # cs) =
     (if space_len space_runes (c # cs) = 0 then fields_from (cur @ [c]) cs
      else emit cur @ fields_from [] (drop (space_len space_runes (c # cs)) (c # cs)))"
  by pat_completeness auto
termination
  by (relation "measure (\<lambda>(cur, s). length s)") auto

definition Fields :: "string \<Rightarrow> string list" where
  "Fields s = fields_from [] s"

section \<open>Case\<close>

definition upper_char :: "char \<Rightarrow> char" where
  "upper_char c = (if 97 \<le> byte c \<and> byte c \<le> 122 then char_of (byte c - 32) else c)"

text \<open>
  strings.ToUpper as far as comparison with an ASCII literal sees it: beside the ASCII
  letters, exactly two runes have an ASCII upper case, U+0131 (to I) and U+017F (to S);
  every other rune beyond ASCII stays beyond ASCII.
\<close>

fun ToUpper :: "string \<Rightarrow> string" where
  "ToUpper (a # b # s) =
     (if byte a = 0xC4 \<and> byte b = 0xB1 then CHR ''I'' # ToUpper s
      else if byte a = 0xC5 \<and> byte b = 0xBF then CHR ''S'' # ToUpper s
      else upper_char a # ToUpper (b # s))"
| "ToUpper [a] = [upper_char a]"
| "ToUpper [] = []"

text \<open>
  strings.EqualFold against an ASCII literal without k and s, the two letters that runes
  beyond ASCII fold to.
\<close>

definition EqualFold :: "string \<Rightarrow> string \<Rightarrow> bool" where
  "EqualFold s t \<longleftrightarrow> map upper_char s = map upper_char t"

section \<open>Splitting and joining\<close>

text \<open>strings.SplitN(s, sep, 2) for a one-byte separator.\<close>

definition split2 :: "char \<Rightarrow> string \<Rightarrow> string list" where
  "split2 sep s =
     (let a = takeWhile (\<lambda>c. c \<noteq> sep) s
      in if a = s then [s] else [a, drop (Suc (length a)) s])"

fun join :: "string \<Rightarrow> string list \<Rightarrow> string" where
  "join sep [] = []"
| "join sep [s] = s"
| "join sep (s # t # ts) = s @ sep @ join sep (t # ts)"

definition TrimSuffix :: "string \<Rightarrow> string \<Rightarrow> string" where
  "TrimSuffix s suf =
     (if starts_with (rev suf) (rev s) then take (length s - length suf) s else s)"

section \<open>Numbers\<close>

definition digit_char :: "nat \<Rightarrow> char" where
  "digit_char d = char_of (48 + d)"

fun nat_str :: "nat \<Rightarrow> string" where
  "nat_str n = (if n < 10 then [digit_char n] else nat_str (n div 10) @ [digit_char (n mod 10)])"

declare nat_str.simps [simp del]

text \<open>strconv.Itoa, strconv.FormatInt(_, 10) and the verb d of package fmt.\<close>

definition int_str :: "int \<Rightarrow> string" where
  "int_str i = (if i < 0 then CHR ''-'' # nat_str (nat (- i)) else nat_str (nat i))"

definition is_digit :: "char \<Rightarrow> bool" where
  "is_digit c \<longleftrightarrow> 48 \<le> byte c \<and> byte c \<le> 57"

definition digits_val :: "string \<Rightarrow> nat" where
  "digits_val s = foldl (\<lambda>n c. 10 * n + (byte c - 48)) 0 s"

definition int64_min :: int where "int64_min = - (2 ^ 63)"
definition int64_max :: int where "int64_max = 2 ^ 63 - 1"

text \<open>
  strconv.Atoi on a 64-bit platform: an optional sign and at least one decimal digit, in
  the range of int64; None stands for the error.
\<close>

definition Atoi :: "string \<Rightarrow> int option" where
  "Atoi s =
     (let neg = (s \<noteq> [] \<and> hd s = CHR ''-'');
          ds = (if s \<noteq> [] \<and> (hd s = CHR ''-'' \<or> hd s = CHR ''+'') then tl s else s)
      in if ds = [] \<or> \<not> list_all is_digit ds then None
         else let v = (if neg then - int (digits_val ds) else int (digits_val ds))
              in if int64_min \<le> v \<and> v \<le> int64_max then Some v else None)"

text \<open>strconv.ParseBool; None stands for the error.\<close>

definition ParseBool :: "string \<Rightarrow> bool option" where
  "ParseBool s =
     (if s \<in> set [''1'', ''t'', ''T'', ''TRUE'', ''true'', ''True''] then Some True
      else if s \<in> set [''0'', ''f'', ''F'', ''FALSE'', ''false'', ''False''] then Some False
      else None)"

lemma byte_digit_char [simp]: "d < 10 \<Longrightarrow> byte (digit_char d) = 48 + d"
  by (simp add: byte_def digit_char_def)

lemma is_digit_digit_char [simp]: "d < 10 \<Longrightarrow> is_digit (digit_char d)"
  by (simp add: is_digit_def)

lemma nat_str_nonempty: "nat_str n \<noteq> []"
  by (subst nat_str.simps) simp

lemma nat_str_digits: "list_all is_digit (nat_str n)"
proof (induction n rule: nat_str.induct)
  case (1 n)
  then show ?case by (subst nat_str.simps) simp
qed

lemma digits_val_snoc: "digits_val (s @ [c]) = 10 * digits_val s + (byte c - 48)"
  by (simp add: digits_val_def)

lemma digits_val_nat_str: "digits_val (nat_str n) = n"
proof (induction n rule: nat_str.induct)
  case (1 n)
  show ?case
  proof (cases "n < 10")
    case True
    then show ?thesis by (subst nat_str.simps) (simp add: digits_val_def)
  next
    case False
    with 1 show ?thesis by (subst nat_str.simps) (simp add: digits_val_snoc)
  qed
qed

lemma nat_str_hd: "hd (nat_str n) \<noteq> CHR ''-''" "hd (nat_str n) \<noteq> CHR ''+''"
proof -
  have "is_digit (hd (nat_str n))"
    using nat_str_digits [of n] nat_str_nonempty [of n] by (cases "nat_str n") auto
  then show "hd (nat_str n) \<noteq> CHR ''-''" "hd (nat_str n) \<noteq> CHR ''+''"
    by (auto simp: is_digit_def byte_def)
qed

lemma Atoi_int_str: "int64_min \<le> i \<Longrightarrow> i \<le> int64_max \<Longrightarrow> Atoi (int_str i) = Some i"
  by (auto simp: Atoi_def int_str_def Let_def nat_str_hd nat_str_nonempty nat_str_digits
      digits_val_nat_str)

lemma Atoi_range: "Atoi s = Some v \<Longrightarrow> int64_min \<le> v \<and> v \<le> int64_max"
  by (auto simp: Atoi_def Let_def split: if_splits)

text \<open>A conversion to a signed machine integer of the given width.\<close>

definition to_int32 :: "int \<Rightarrow> int" where
  "to_int32 i = sint (word_of_int i :: 32 word)"

definition to_int64 :: "int \<Rightarrow> int" where
  "to_int64 i = sint (word_of_int i :: 64 word)"

lemma to_int32_id: "- (2 ^ 31) \<le> i \<Longrightarrow> i < 2 ^ 31 \<Longrightarrow> to_int32 i = i"
  by (simp add: to_int32_def sint_sbintrunc' signed_take_bit_int_eq_self)

lemma to_int64_id: "int64_min \<le> i \<Longrightarrow> i \<le> int64_max \<Longrightarrow> to_int64 i = i"
  by (simp add: to_int64_def int64_min_def int64_max_def sint_sbintrunc' signed_take_bit_int_eq_self)

end
