(* ===== verification/Libs.thy ===== *)
theory Libs
  imports GoStrings
begin

text \<open>
  Package libs (tshttp): the configuration of a test, the request and response envelopes
  of the HTTP API, the JSON request decoder and the response writer. A nil map of
  headers and an empty one behave alike everywhere in the program, so both are \<open>[]\<close>.
\<close>

section \<open>Configuration and requests\<close>

record conf =
  Name :: string
  URL :: string
  Protocol :: string
  Host :: string
  Port :: string
  Path :: string
  Method :: string
  Headers :: "(string, string) gomap"
  Body :: string
  Concurrence :: int
  MaxConns :: int
  MaxQueues :: int
  Verbose :: bool

record cmd_conf =
  q_Name :: string
  q_URL :: string
  q_Method :: string
  q_Headers :: "(string, string) gomap"
  q_Body :: string
  q_Concurrence :: int
  q_Host :: string
  q_Port :: string
  q_Path :: string
  q_Protocol :: string
  q_Verbose :: bool

record request =
  Cmd :: string
  Conf :: cmd_conf

definition zero_conf :: conf where
  "zero_conf =
     \<lparr>Name = [], URL = [], Protocol = [], Host = [], Port = [], Path = [], Method = [],
      Headers = [], Body = [], Concurrence = 0, MaxConns = 0, MaxQueues = 0, Verbose = False\<rparr>"

definition zero_cmd_conf :: cmd_conf where
  "zero_cmd_conf =
     \<lparr>q_Name = [], q_URL = [], q_Method = [], q_Headers = [], q_Body = [], q_Concurrence = 0,
      q_Host = [], q_Port = [], q_Path = [], q_Protocol = [], q_Verbose = False\<rparr>"

definition zero_request :: request where
  "zero_request = \<lparr>Cmd = [], Conf = zero_cmd_conf\<rparr>"

section \<open>Responses\<close>

text \<open>The value a JSON text denotes; json.Marshal renders it, the clients parse it back.\<close>

datatype json =
    JNull
  | JBool bool
  | JInt int
  | JReal real
  | JStr string
  | JArr "json list"
  | JObj "(string \<times> json) list"

text \<open>
  An entry of the data map is a string: plain text, the fixed-point text of a float
  (Sprintf with the verb f), or the JSON text of a value.
\<close>

datatype entry = Text string | Fixed real | Json json

record envelope =
  e_code :: int
  e_data :: "(string, entry) gomap option"
  e_error_code :: int
  e_error_message :: string

definition ResultSuccess :: int where "ResultSuccess = 20000"
definition ResultNotFound :: int where "ResultNotFound = 40400"
definition ResultBadRequest :: int where "ResultBadRequest = 40000"
definition ResultInvalidCMD :: int where "ResultInvalidCMD = 40001"

record api_error =
  Code :: int
  Message :: string

text \<open>
  A piece of a body: an envelope, printed by using its JSON text as the format of Fprintf
  (a percent sign in the text is taken for a verb and comes out spoiled), or plain text.
\<close>

datatype chunk = Envelope envelope | Plain string

text \<open>http.Cookie, with the fields the program sets; the expiry is in nanoseconds.\<close>

record cookie =
  ck_Name :: string
  ck_Value :: string
  ck_Path :: string
  ck_Expires :: "int option"
  ck_MaxAge :: int
  ck_HttpOnly :: bool
  ck_Secure :: bool

text \<open>
  http.ResponseWriter: the first WriteHeader, or the first write, fixes the status and
  the headers that are sent; later changes of the header map are not sent. The header
  Set-Cookie, the only one with several values, is kept apart.
\<close>

record response =
  rw_header :: "(string, string) gomap"
  rw_cookies :: "cookie list"
  rw_status :: "int option"
  rw_sent :: "(string, string) gomap"
  rw_sent_cookies :: "cookie list"
  rw_body :: "chunk list"

definition fresh_response :: response where
  "fresh_response =
     \<lparr>rw_header = [], rw_cookies = [], rw_status = None, rw_sent = [], rw_sent_cookies = [], rw_body = []\<rparr>"

definition SetCookie :: "cookie \<Rightarrow> response \<Rightarrow> response" where
  "SetCookie c w = w\<lparr>rw_cookies := rw_cookies w @ [c]\<rparr>"

definition set_header :: "string \<Rightarrow> string \<Rightarrow> response \<Rightarrow> response" where
  "set_header k v w = w\<lparr>rw_header := mput k v (rw_header w)\<rparr>"

definition write_header :: "int \<Rightarrow> response \<Rightarrow> response" where
  "write_header code w =
     (case rw_status w of
        None \<Rightarrow> w\<lparr>rw_status := Some code, rw_sent := rw_header w, rw_sent_cookies := rw_cookies w\<rparr>
      | Some _ \<Rightarrow> w)"

definition write_chunk :: "chunk \<Rightarrow> response \<Rightarrow> response" where
  "write_chunk c w = (let w' = write_header 200 w in w'\<lparr>rw_body := rw_body w' @ [c]\<rparr>)"

definition WriteSuccess ::
    "(string, entry) gomap option \<Rightarrow> api_error option \<Rightarrow> response \<Rightarrow> response" where
  "WriteSuccess data err w =
     (let w = set_header ''Content-Type'' ''application/json'' w
      in case err of
           Some e \<Rightarrow> write_chunk (Envelope
             \<lparr>e_code = 0, e_data = None, e_error_code = Code e, e_error_message = Message e\<rparr>) w
         | None \<Rightarrow> write_chunk (Envelope
             \<lparr>e_code = ResultSuccess, e_data = data, e_error_code = 0, e_error_message = []\<rparr>) w)"

section \<open>Decoding a request body\<close>

text \<open>
  What encoding/json makes of a body, decoding it into a given struct: nothing there
  (io.EOF), a syntax or type error with its message, or a value.
\<close>

datatype 'a body = Eof | Malformed string | Value 'a

text \<open>http.Error, what the decoder writes in the error case.\<close>

definition http_error :: "string \<Rightarrow> int \<Rightarrow> response \<Rightarrow> response" where
  "http_error msg code w =
     write_chunk (Plain (msg @ [CHR 0x0A]))
       (write_header code
         (set_header ''X-Content-Type-Options'' ''nosniff''
           (set_header ''Content-Type'' ''text/plain; charset=utf-8'' w)))"

text \<open>
  Decoder: an empty body leaves the zero value, an error answers 400 in plain text and
  is returned to the handler.
\<close>

definition Decoder :: "'a \<Rightarrow> 'a body \<Rightarrow> response \<Rightarrow> response \<times> (string + 'a)" where
  "Decoder zero b w =
     (case b of
        Eof \<Rightarrow> (w, Inr zero)
      | Value v \<Rightarrow> (w, Inr v)
      | Malformed msg \<Rightarrow> (http_error msg 400 w, Inl (''JSON decode error: '' @ msg)))"

lemma write_header_status [simp]:
  "rw_status (write_header c w) = Some (case rw_status w of None \<Rightarrow> c | Some s \<Rightarrow> s)"
  by (simp add: write_header_def split: option.splits)

lemma write_header_body [simp]: "rw_body (write_header c w) = rw_body w"
  by (simp add: write_header_def split: option.splits)

lemma set_header_simps [simp]:
  "rw_status (set_header k v w) = rw_status w"
  "rw_body (set_header k v w) = rw_body w"
  "rw_sent (set_header k v w) = rw_sent w"
  "rw_header (set_header k v w) = mput k v (rw_header w)"
  by (simp_all add: set_header_def)

lemma write_chunk_simps [simp]:
  "rw_status (write_chunk c w) = Some (case rw_status w of None \<Rightarrow> 200 | Some s \<Rightarrow> s)"
  "rw_body (write_chunk c w) = rw_body w @ [c]"
  by (simp_all add: write_chunk_def Let_def)

lemma WriteSuccess_status [simp]:
  "rw_status (WriteSuccess d e w) = Some (case rw_status w of None \<Rightarrow> 200 | Some s \<Rightarrow> s)"
  by (simp add: WriteSuccess_def Let_def split: option.splits)

end
