(* ===== verification/Allocate.thy ===== *)
theory Allocate
  imports Proto Libs
begin

text \<open>
  The scheduler's state (master/ocean.go: attachedWorker) and the allocation of a
  requested concurrency to the attached workers (master/services.go: allocate).
  A worker's queue of commands is the buffered channel \<open>send\<close> of capacity 32.
\<close>

section \<open>Attached workers\<close>

record attached_worker =
  w_id :: string
  w_name :: string
  w_ip :: string
  w_maxCap :: int
  w_used :: int
  w_send :: "ocean_message list"
  w_metrics :: "(string, metric) gomap"
  w_samples :: "(string, sample) gomap"

type_synonym workers = "(string, attached_worker) gomap"
type_synonym assignments = "(string, int) gomap"

definition free_cap :: "attached_worker \<Rightarrow> int" where
  "free_cap w = (let free = w_maxCap w - w_used w in if free < 0 then 0 else free)"

section \<open>allocate\<close>

text \<open>One pass over the active workers, each given at most a share.\<close>

fun give_round ::
    "assignments \<Rightarrow> int \<Rightarrow> string list \<Rightarrow> assignments \<times> int \<Rightarrow> assignments \<times> int" where
  "give_round avail share [] (alloc, remaining) = (alloc, remaining)"
| "give_round avail share (i # ids) (alloc, remaining) =
     (if remaining \<le> 0 then (alloc, remaining)
      else let give = share;
               room = mget0 avail i - mget0 alloc i;
               give = (if give > room then room else give);
               give = (if give > remaining then remaining else give)
           in give_round avail share ids
                (mput i (mget0 alloc i + give) alloc, remaining - give))"

definition active_ids :: "assignments \<Rightarrow> string list \<Rightarrow> assignments \<Rightarrow> string list" where
  "active_ids avail ids alloc = filter (\<lambda>i. mget0 avail i - mget0 alloc i > 0) ids"

definition share_of :: "int \<Rightarrow> nat \<Rightarrow> int" where
  "share_of remaining n = (let s = remaining div int n in if s < 1 then 1 else s)"

lemma give_round_le:
  assumes "0 < share" and "\<forall>i\<in>set ids. mget0 alloc i \<le> mget0 avail i"
  shows "snd (give_round avail share ids (alloc, remaining)) \<le> remaining"
  using assms
proof (induction ids arbitrary: alloc remaining)
  case Nil
  then show ?case by simp
next
  case (Cons i ids)
  show ?case
  proof (cases "remaining \<le> 0")
    case True
    then show ?thesis by simp
  next
    case False
    let ?room = "mget0 avail i - mget0 alloc i"
    let ?g1 = "if share > ?room then ?room else share"
    let ?g = "if ?g1 > remaining then remaining else ?g1"
    have "0 \<le> ?room" using Cons.prems by simp
    then have g: "0 \<le> ?g" using False Cons.prems(1) by auto
    have "snd (give_round avail share ids (mput i (mget0 alloc i + ?g) alloc, remaining - ?g))
        \<le> remaining - ?g"
      using Cons.prems by (intro Cons.IH) auto
    with g False show ?thesis by (simp add: Let_def)
  qed
qed

lemma give_round_less:
  assumes "0 < share" and "\<forall>i\<in>set ids. mget0 alloc i < mget0 avail i"
    and "ids \<noteq> []" and "0 < remaining"
  shows "snd (give_round avail share ids (alloc, remaining)) < remaining"
proof -
  obtain i js where ids: "ids = i # js" using assms(3) by (cases ids) auto
  let ?room = "mget0 avail i - mget0 alloc i"
  let ?g1 = "if share > ?room then ?room else share"
  let ?g = "if ?g1 > remaining then remaining else ?g1"
  have "0 < ?room" using assms ids by simp
  then have g: "0 < ?g" using assms by auto
  have "snd (give_round avail share js (mput i (mget0 alloc i + ?g) alloc, remaining - ?g))
      \<le> remaining - ?g"
    using assms ids by (intro give_round_le) (auto simp: less_imp_le)
  with g assms(4) ids show ?thesis by (simp add: Let_def)
qed

lemma share_of_pos: "0 < share_of remaining n"
  by (simp add: share_of_def Let_def)

lemma active_ids_room: "\<forall>i\<in>set (active_ids avail ids alloc). mget0 alloc i < mget0 avail i"
  by (auto simp: active_ids_def)

text \<open>
  The outer loop. Each round serves at least one active worker, so the remaining
  concurrency decreases.
\<close>

function alloc_loop ::
    "assignments \<Rightarrow> string list \<Rightarrow> assignments \<Rightarrow> int \<Rightarrow> assignments \<times> int" where
  "alloc_loop avail ids alloc remaining =
     (if 0 < remaining
      then let active = active_ids avail ids alloc
           in if active = [] then (alloc, remaining)
              else let share = share_of remaining (length active);
                       r = give_round avail share active (alloc, remaining)
                   in alloc_loop avail ids (fst r) (snd r)
      else (alloc, remaining))"
  by pat_completeness auto
termination
proof (relation "measure (\<lambda>(avail, ids, alloc, remaining). nat remaining)", goal_cases)
  case 1
  then show ?case by simp
next
  case (2 avail ids alloc remaining active share r)
  have "snd r < remaining"
    unfolding 2 by (rule give_round_less) (use 2 in \<open>auto simp: share_of_pos active_ids_room\<close>)
  with 2(1) show ?case by (simp add: case_prod_beta)
qed

declare alloc_loop.simps [simp del]

definition allocate :: "workers \<Rightarrow> int \<Rightarrow> assignments option" where
  "allocate ws requested =
     (let ids = map fst ws;
          avail = map (\<lambda>(i, w). (i, free_cap w)) ws;
          total = (\<Sum>(i, w)\<leftarrow>ws. free_cap w)
      in if requested > total then None
         else let ids = sort ids;
                  r = alloc_loop avail ids [] requested
              in if snd r > 0 then None
                 else Some (filter (\<lambda>(i, c). c \<noteq> 0) (fst r)))"

section \<open>What a round does\<close>

lemma give_round_wf: "wf_map alloc \<Longrightarrow> wf_map (fst (give_round avail share ids (alloc, r)))"
  by (induction ids arbitrary: alloc r) (auto simp: Let_def)

lemma give_round_keys:
  "mkeys (fst (give_round avail share ids (alloc, r))) \<subseteq> mkeys alloc \<union> set ids"
proof (induction ids arbitrary: alloc r)
  case Nil
  then show ?case by simp
next
  case (Cons i ids)
  have "\<exists>v r'. give_round avail share (i # ids) (alloc, r) = (alloc, r) \<or>
      give_round avail share (i # ids) (alloc, r) = give_round avail share ids (mput i v alloc, r')"
    by (cases "r \<le> 0") (simp_all add: Let_def, blast)
  then obtain v r' where "give_round avail share (i # ids) (alloc, r) = (alloc, r) \<or>
      give_round avail share (i # ids) (alloc, r) = give_round avail share ids (mput i v alloc, r')"
    by blast
  moreover have "mkeys (fst (give_round avail share ids (mput i v alloc, r')))
      \<subseteq> mkeys (mput i v alloc) \<union> set ids"
    by (rule Cons)
  ultimately show ?case by (elim disjE) (simp_all only: fst_conv mkeys_mput list.set, auto)
qed

text \<open>Enough for everyone: each active worker gets the share, or all it has room for.\<close>

lemma give_round_full:
  assumes "distinct ids" and "0 < share" and "\<forall>i\<in>set ids. mget0 alloc i < mget0 avail i"
    and "int (length ids) * share \<le> remaining"
  shows "mget0 (fst (give_round avail share ids (alloc, remaining))) k =
      (if k \<in> set ids then min (mget0 alloc k + share) (mget0 avail k) else mget0 alloc k) \<and>
    snd (give_round avail share ids (alloc, remaining)) =
      remaining - (\<Sum>i\<in>set ids. min share (mget0 avail i - mget0 alloc i))"
  using assms
proof (induction ids arbitrary: alloc remaining)
  case Nil
  then show ?case by simp
next
  case (Cons i ids)
  let ?room = "mget0 avail i - mget0 alloc i"
  let ?g = "min share ?room"
  let ?alloc = "mput i (mget0 alloc i + ?g) alloc"
  have "0 \<le> int (length ids) * share" using Cons.prems(2) by simp
  then have rem: "share \<le> remaining" and rest: "int (length ids) * share \<le> remaining - share"
    using Cons.prems(4) by (auto simp: algebra_simps)
  have step: "give_round avail share (i # ids) (alloc, remaining) =
      give_round avail share ids (?alloc, remaining - ?g)"
    using rem Cons.prems(2) by (auto simp: Let_def min_def)
  have "int (length ids) * share \<le> remaining - ?g" using rest by auto
  moreover have "\<forall>j\<in>set ids. mget0 ?alloc j < mget0 avail j" using Cons.prems by auto
  ultimately have IH: "mget0 (fst (give_round avail share ids (?alloc, remaining - ?g))) k =
      (if k \<in> set ids then min (mget0 ?alloc k + share) (mget0 avail k) else mget0 ?alloc k) \<and>
    snd (give_round avail share ids (?alloc, remaining - ?g)) =
      remaining - ?g - (\<Sum>j\<in>set ids. min share (mget0 avail j - mget0 ?alloc j))"
    using Cons.prems by (intro Cons.IH) auto
  have sums: "(\<Sum>j\<in>set ids. min share (mget0 avail j - mget0 ?alloc j)) =
      (\<Sum>j\<in>set ids. min share (mget0 avail j - mget0 alloc j))"
    using Cons.prems(1) by (intro sum.cong) auto
  show ?case using IH Cons.prems(1) unfolding step sums by auto
qed

text \<open>Less than one each: the first ones get one, until nothing remains.\<close>

lemma give_round_ones:
  assumes "distinct ids" and "\<forall>i\<in>set ids. mget0 alloc i < mget0 avail i"
    and "0 \<le> remaining" and "remaining \<le> int (length ids)"
  shows "mget0 (fst (give_round avail 1 ids (alloc, remaining))) k =
      mget0 alloc k + (if k \<in> set (take (nat remaining) ids) then 1 else 0) \<and>
    snd (give_round avail 1 ids (alloc, remaining)) = 0"
  using assms
proof (induction ids arbitrary: alloc remaining)
  case Nil
  then show ?case by simp
next
  case (Cons i ids)
  show ?case
  proof (cases "remaining = 0")
    case True
    then show ?thesis by simp
  next
    case False
    let ?alloc = "mput i (mget0 alloc i + 1) alloc"
    have step: "give_round avail 1 (i # ids) (alloc, remaining) =
        give_round avail 1 ids (?alloc, remaining - 1)"
      using False Cons.prems by (auto simp: Let_def)
    have IH: "mget0 (fst (give_round avail 1 ids (?alloc, remaining - 1))) k =
        mget0 ?alloc k + (if k \<in> set (take (nat (remaining - 1)) ids) then 1 else 0) \<and>
      snd (give_round avail 1 ids (?alloc, remaining - 1)) = 0"
      using False Cons.prems by (intro Cons.IH) auto
    obtain m where m: "nat remaining = Suc m" and m': "nat (remaining - 1) = m"
      using False Cons.prems(3) by (metis nat_diff_distrib nat_1 One_nat_def Suc_pred
          diff_Suc_1 not0_implies_Suc int_one_le_iff_zero_less nat_0_iff not_le order_le_less zero_le_one)
    have "i \<notin> set (take m ids)" using Cons.prems(1) by (meson distinct.simps(2) in_set_takeD)
    then show ?thesis using IH unfolding step m m' by auto
  qed
qed

lemma give_round_sum:
  assumes "finite S" and "set ids \<subseteq> S"
  shows "(\<Sum>k\<in>S. mget0 (fst (give_round avail share ids (alloc, r))) k) +
      snd (give_round avail share ids (alloc, r)) = (\<Sum>k\<in>S. mget0 alloc k) + r"
  using assms(2)
proof (induction ids arbitrary: alloc r)
  case Nil
  then show ?case by simp
next
  case (Cons i ids)
  have "(\<Sum>k\<in>S. mget0 (mput i v alloc) k) = (\<Sum>k\<in>S. mget0 alloc k) - mget0 alloc i + v" for v
    using assms(1) Cons.prems by (simp add: sum.remove [of S i])
  with Cons show ?case by (simp add: Let_def)
qed

section \<open>What the loop does\<close>

lemma alloc_loop_stop: "alloc_loop avail ids alloc 0 = (alloc, 0)"
  by (subst alloc_loop.simps) simp

lemma alloc_loop_wf: "wf_map alloc \<Longrightarrow> wf_map (fst (alloc_loop avail ids alloc r))"
proof (induction avail ids alloc r rule: alloc_loop.induct)
  case (1 avail ids alloc r)
  then show ?case
    by (subst alloc_loop.simps) (simp add: Let_def give_round_wf)
qed

lemma alloc_loop_keys: "mkeys (fst (alloc_loop avail ids alloc r)) \<subseteq> mkeys alloc \<union> set ids"
proof (induction avail ids alloc r rule: alloc_loop.induct)
  case (1 avail ids alloc r)
  let ?act = "active_ids avail ids alloc"
  let ?r = "give_round avail (share_of r (length ?act)) ?act (alloc, r)"
  have "set ?act \<subseteq> set ids" by (auto simp: active_ids_def)
  with give_round_keys [of avail "share_of r (length ?act)" ?act alloc r]
  have keys: "mkeys (fst ?r) \<subseteq> mkeys alloc \<union> set ids" by blast
  show ?case
  proof (cases "0 < r \<and> ?act \<noteq> []")
    case True
    then have "mkeys (fst (alloc_loop avail ids (fst ?r) (snd ?r))) \<subseteq> mkeys (fst ?r) \<union> set ids"
      using 1 by blast
    also have "\<dots> \<subseteq> mkeys alloc \<union> set ids"
      using keys by blast
    finally show ?thesis using True by (subst alloc_loop.simps) (simp add: Let_def)
  next
    case False
    then show ?thesis by (subst alloc_loop.simps) (auto simp: Let_def)
  qed
qed

lemma alloc_loop_sum:
  assumes "finite S" and "set ids \<subseteq> S"
  shows "(\<Sum>k\<in>S. mget0 (fst (alloc_loop avail ids alloc r)) k) +
      snd (alloc_loop avail ids alloc r) = (\<Sum>k\<in>S. mget0 alloc k) + r"
  using assms(2)
proof (induction avail ids alloc r rule: alloc_loop.induct)
  case (1 avail ids alloc r)
  have "set (active_ids avail ids alloc) \<subseteq> S" using 1(2) by (auto simp: active_ids_def)
  note round = give_round_sum [OF assms(1) this]
  from 1 round show ?case by (subst (1 2) alloc_loop.simps) (simp add: Let_def)
qed

text \<open>
  \<open>level avail ids x lo hi\<close>: every id holds between \<open>lo\<close> and \<open>hi\<close> units, capped by
  what it has available. With \<open>lo = hi\<close> the units stand at one level, like water in
  vessels of different heights.
\<close>

definition level :: "assignments \<Rightarrow> string list \<Rightarrow> assignments \<Rightarrow> int \<Rightarrow> int \<Rightarrow> bool" where
  "level avail ids x lo hi \<longleftrightarrow>
     (\<forall>i\<in>set ids. min lo (mget0 avail i) \<le> mget0 x i \<and> mget0 x i \<le> min hi (mget0 avail i))"

lemma level_round_full:
  assumes "distinct ids" and "level avail ids alloc l l" and "act = active_ids avail ids alloc"
    and "0 < share" and "int (length act) * share \<le> r"
  shows "level avail ids (fst (give_round avail share act (alloc, r))) (l + share) (l + share)"
  unfolding level_def
proof
  fix i assume i: "i \<in> set ids"
  have act: "distinct act" "\<forall>j\<in>set act. mget0 alloc j < mget0 avail j"
    using assms(1,3) by (auto simp: active_ids_def)
  have x: "mget0 alloc i = min l (mget0 avail i)" using assms(2) i by (force simp: level_def)
  have "mget0 (fst (give_round avail share act (alloc, r))) i =
      (if i \<in> set act then min (mget0 alloc i + share) (mget0 avail i) else mget0 alloc i)"
    using give_round_full [OF act(1) assms(4) act(2) assms(5)] by blast
  with x i assms(3,4)
  show "min (l + share) (mget0 avail i) \<le> mget0 (fst (give_round avail share act (alloc, r))) i \<and>
      mget0 (fst (give_round avail share act (alloc, r))) i \<le> min (l + share) (mget0 avail i)"
    by (auto simp: active_ids_def min_def split: if_splits)
qed

lemma level_round_ones:
  assumes "distinct ids" and "level avail ids alloc l l" and "act = active_ids avail ids alloc"
    and "0 \<le> r" and "r \<le> int (length act)"
  shows "level avail ids (fst (give_round avail 1 act (alloc, r))) l (l + 1)"
  unfolding level_def
proof
  fix i assume i: "i \<in> set ids"
  have act: "distinct act" "\<forall>j\<in>set act. mget0 alloc j < mget0 avail j"
    using assms(1,3) by (auto simp: active_ids_def)
  have x: "mget0 alloc i = min l (mget0 avail i)" using assms(2) i by (force simp: level_def)
  have y: "mget0 (fst (give_round avail 1 act (alloc, r))) i =
      mget0 alloc i + (if i \<in> set (take (nat r) act) then 1 else 0)"
    using give_round_ones [OF act assms(4,5)] by blast
  have "i \<in> set (take (nat r) act) \<Longrightarrow> mget0 alloc i < mget0 avail i"
    using act(2) by (meson in_set_takeD)
  with x y show "min l (mget0 avail i) \<le> mget0 (fst (give_round avail 1 act (alloc, r))) i \<and>
      mget0 (fst (give_round avail 1 act (alloc, r))) i \<le> min (l + 1) (mget0 avail i)"
    by (auto simp: min_def split: if_splits)
qed

lemma share_of_cases:
  assumes "0 < n"
  shows "int n \<le> r \<Longrightarrow> int n * share_of r n \<le> r" and "r < int n \<Longrightarrow> 0 \<le> r \<Longrightarrow> share_of r n = 1"
proof -
  assume "int n \<le> r"
  with assms have "1 \<le> r div int n" by (simp add: pos_imp_zdiv_pos_iff int_one_le_iff_zero_less)
  then have "share_of r n = r div int n" by (simp add: share_of_def Let_def)
  moreover have "int n * (r div int n) \<le> r"
    using assms by (metis minus_mod_eq_mult_div add.commute add_le_cancel_left diff_ge_0_iff_ge
        div_mult_mod_eq le_add_same_cancel1 mult.commute of_nat_0_less_iff pos_mod_sign)
  ultimately show "int n * share_of r n \<le> r" by simp
next
  assume "r < int n" and "0 \<le> r"
  then show "share_of r n = 1" by (simp add: share_of_def Let_def)
qed

lemma alloc_loop_level:
  assumes "distinct ids" and "level avail ids alloc l l" and "0 \<le> r"
    and "r \<le> (\<Sum>i\<in>set ids. mget0 avail i - mget0 alloc i)"
  shows "snd (alloc_loop avail ids alloc r) = 0 \<and>
    (\<exists>m. l \<le> m \<and> level avail ids (fst (alloc_loop avail ids alloc r)) m (m + 1))"
  using assms
proof (induction avail ids alloc r arbitrary: l rule: alloc_loop.induct)
  case (1 avail ids alloc r)
  let ?act = "active_ids avail ids alloc"
  let ?n = "length ?act"
  let ?r = "give_round avail (share_of r ?n) ?act (alloc, r)"
  have wider: "level avail ids alloc l (l + 1)"
    using 1(3) by (force simp: level_def)
  show ?case
  proof (cases "r = 0")
    case True
    with wider show ?thesis by (auto simp: alloc_loop_stop)
  next
    case False
    with 1(4) have r: "0 < r" by simp
    have act: "?act \<noteq> []"
    proof
      assume "?act = []"
      then have "\<forall>i\<in>set ids. mget0 avail i - mget0 alloc i \<le> 0"
        by (auto simp: active_ids_def filter_empty_conv not_less)
      then have "(\<Sum>i\<in>set ids. mget0 avail i - mget0 alloc i) \<le> 0" by (auto intro: sum_nonpos)
      with 1(5) r show False by simp
    qed
    then have n: "0 < ?n" by simp
    have loop: "alloc_loop avail ids alloc r = alloc_loop avail ids (fst ?r) (snd ?r)"
      using r act by (subst alloc_loop.simps) (simp add: Let_def)
    have actd: "distinct ?act" and room: "\<forall>j\<in>set ?act. mget0 alloc j < mget0 avail j"
      using 1(2) by (auto simp: active_ids_def)
    show ?thesis
    proof (cases "int ?n \<le> r")
      case True
      then have enough: "int ?n * share_of r ?n \<le> r" by (rule share_of_cases(1) [OF n])
      have lev: "level avail ids (fst ?r) (l + share_of r ?n) (l + share_of r ?n)"
        by (rule level_round_full [OF 1(2,3) refl share_of_pos enough])
      have snd: "snd ?r = r - (\<Sum>i\<in>set ?act. min (share_of r ?n) (mget0 avail i - mget0 alloc i))"
        using give_round_full [OF actd share_of_pos room enough] by blast
      have "(\<Sum>i\<in>set ?act. min (share_of r ?n) (mget0 avail i - mget0 alloc i))
          \<le> (\<Sum>i\<in>set ?act. share_of r ?n)"
        by (intro sum_mono) simp
      also have "\<dots> = int ?n * share_of r ?n"
        using actd by (simp add: distinct_card)
      finally have "0 \<le> snd ?r" using snd enough by linarith
      moreover have "snd ?r \<le> (\<Sum>i\<in>set ids. mget0 avail i - mget0 (fst ?r) i)"
      proof -
        have sub: "set ?act \<subseteq> set ids" by (auto simp: active_ids_def)
        from give_round_sum [OF finite_set sub, of avail "share_of r ?n" alloc r] 1(5)
        show ?thesis by (simp add: sum_subtractf)
      qed
      ultimately have "snd (alloc_loop avail ids (fst ?r) (snd ?r)) = 0 \<and>
          (\<exists>m. l + share_of r ?n \<le> m \<and>
            level avail ids (fst (alloc_loop avail ids (fst ?r) (snd ?r))) m (m + 1))"
        using 1(1) [OF r refl act refl refl 1(2) lev] by blast
      then show ?thesis
        unfolding loop using share_of_pos [of r ?n] by (meson add_increasing2 order.strict_implies_order order_refl order_trans)
    next
      case False
      then have one: "share_of r ?n = 1" using share_of_cases(2) [OF n] 1(4) by simp
      have "snd ?r = 0"
        using give_round_ones [OF actd room 1(4)] False unfolding one by auto
      moreover have "level avail ids (fst ?r) l (l + 1)"
        unfolding one using level_round_ones [OF 1(2,3) refl 1(4)] False by auto
      ultimately show ?thesis unfolding loop by (auto simp: alloc_loop_stop)
    qed
  qed
qed

section \<open>What allocate promises\<close>

lemma mget0_avail:
  "mget0 (map (\<lambda>(i, w). (i, free_cap w)) ws) i =
     (case map_of ws i of None \<Rightarrow> 0 | Some w \<Rightarrow> free_cap w)"
  by (induction ws) (auto simp: mget0_def)

lemma free_cap_nonneg: "0 \<le> free_cap w"
  by (simp add: free_cap_def Let_def)

lemma sum_avail:
  assumes "wf_map ws"
  shows "(\<Sum>i\<in>mkeys ws. mget0 (map (\<lambda>(i, w). (i, free_cap w)) ws) i) = msum free_cap ws"
  unfolding sum_mkeys [OF assms] msum_def
  by (rule arg_cong [where f = sum_list], rule map_cong [OF refl])
    (use assms in \<open>auto simp: mget0_avail wf_map_of\<close>)

lemma msum_eq_sum:
  assumes "wf_map m" and "finite S" and "mkeys m \<subseteq> S"
  shows "msum (\<lambda>c. c) m = (\<Sum>k\<in>S. mget0 m k)"
proof -
  have "(\<Sum>k\<in>S. mget0 m k) = (\<Sum>k\<in>mkeys m. mget0 m k)"
    by (rule sum.mono_neutral_right [OF assms(2,3)]) (auto simp: mget0_missing)
  also have "\<dots> = msum (\<lambda>c. c) m"
    unfolding sum_mkeys [OF assms(1)] msum_def
    by (rule arg_cong [where f = sum_list], rule map_cong [OF refl])
      (use assms in \<open>auto simp: mget0_def wf_map_of\<close>)
  finally show ?thesis by simp
qed

lemma mget0_filter_nonzero: "wf_map m \<Longrightarrow> mget0 (filter (\<lambda>(i, c). c \<noteq> 0) m) i = mget0 m i"
  by (induction m) (auto simp: mget0_Cons mget0_missing split: if_splits)

text \<open>
  The plan before its zero entries are removed: everything requested is given, at one
  level, to attached workers only.
\<close>

lemma alloc_loop_start:
  assumes "wf_map ws" and "0 \<le> r" and "r \<le> msum free_cap ws"
    and "avail = map (\<lambda>(i, w). (i, free_cap w)) ws"
    and "p = alloc_loop avail (sort (map fst ws)) [] r"
  shows "snd p = 0" and "wf_map (fst p)" and "mkeys (fst p) \<subseteq> mkeys ws"
    and "(\<Sum>i\<in>mkeys ws. mget0 (fst p) i) = r"
    and "\<exists>m. 0 \<le> m \<and> level avail (sort (map fst ws)) (fst p) m (m + 1)"
proof -
  let ?ids = "sort (map fst ws)"
  have ids: "distinct ?ids" "set ?ids = mkeys ws"
    using assms(1) by (simp_all add: wf_map_def)
  have "level avail ?ids [] 0 0"
    by (auto simp: level_def assms(4) mget0_avail free_cap_nonneg min_def split: option.splits)
  moreover have "r \<le> (\<Sum>i\<in>set ?ids. mget0 avail i - mget0 [] i)"
    using assms(3) sum_avail [OF assms(1)] by (simp add: ids assms(4))
  ultimately have lev: "snd p = 0 \<and> (\<exists>m. 0 \<le> m \<and> level avail ?ids (fst p) m (m + 1))"
    unfolding assms(5) by (rule alloc_loop_level [OF ids(1) _ assms(2)])
  then show "snd p = 0" and "\<exists>m. 0 \<le> m \<and> level avail ?ids (fst p) m (m + 1)" by blast+
  show "wf_map (fst p)" by (simp add: assms(5) alloc_loop_wf)
  show "mkeys (fst p) \<subseteq> mkeys ws"
    using alloc_loop_keys [of avail ?ids "[]" r] ids(2) by (simp add: assms(5))
  show "(\<Sum>i\<in>mkeys ws. mget0 (fst p) i) = r"
    using alloc_loop_sum [of "mkeys ws" ?ids avail "[]" r] lev ids(2) by (simp add: assms(5))
qed

lemma allocate_negative: "requested \<le> 0 \<Longrightarrow> allocate ws requested = Some []"
proof -
  assume r: "requested \<le> 0"
  have "0 \<le> (\<Sum>(i, w)\<leftarrow>ws. free_cap w)"
    by (induction ws) (auto simp: free_cap_nonneg)
  with r show ?thesis
    by (simp add: allocate_def Let_def) (subst (1 2) alloc_loop.simps, simp)
qed

lemma allocate_eq:
  assumes "wf_map ws" and "0 \<le> r" and "r \<le> msum free_cap ws"
  shows "allocate ws r = Some (filter (\<lambda>(i, c). c \<noteq> 0)
      (fst (alloc_loop (map (\<lambda>(i, w). (i, free_cap w)) ws) (sort (map fst ws)) [] r)))"
  using alloc_loop_start(1) [OF assms refl refl] assms(3)
  by (simp add: allocate_def Let_def msum_def)

lemma allocate_None_iff:
  assumes "wf_map ws"
  shows "allocate ws r = None \<longleftrightarrow> msum free_cap ws < r"
proof (cases "0 \<le> r \<and> r \<le> msum free_cap ws")
  case True
  with allocate_eq [OF assms] show ?thesis by simp
next
  case False
  have "0 \<le> msum free_cap ws" by (rule msum_nonneg) (simp add: free_cap_nonneg)
  with False show ?thesis
    by (cases "r \<le> 0") (auto simp: allocate_negative, auto simp: allocate_def Let_def msum_def)
qed

text \<open>The contract of a plan, in one place; the lemmas below take it apart.\<close>

definition fair_plan :: "workers \<Rightarrow> int \<Rightarrow> assignments \<Rightarrow> bool" where
  "fair_plan ws r al \<longleftrightarrow>
     wf_map al \<and> mkeys al \<subseteq> mkeys ws \<and> msum (\<lambda>c. c) al = max 0 r \<and>
     (\<exists>m\<ge>0. \<forall>i w. map_of ws i = Some w \<longrightarrow>
        min m (free_cap w) \<le> mget0 al i \<and> mget0 al i \<le> min (m + 1) (free_cap w))"

lemma allocate_fair_plan:
  assumes ws: "wf_map ws" and al: "allocate ws r = Some al"
  shows "fair_plan ws r al"
proof (cases "0 \<le> r")
  case True
  let ?av = "map (\<lambda>(i, w). (i, free_cap w)) ws"
  let ?ids = "sort (map fst ws)"
  let ?p = "alloc_loop ?av ?ids [] r"
  have fits: "r \<le> msum free_cap ws"
    using al allocate_None_iff [OF ws, of r] by auto
  note start = alloc_loop_start [OF ws True fits refl refl]
  have eq: "al = filter (\<lambda>(i, c). c \<noteq> 0) (fst ?p)"
    using al allocate_eq [OF ws True fits] by simp
  have keys: "mkeys al \<subseteq> mkeys ws" using start(3) unfolding eq by auto
  have wf: "wf_map al" using start(2) unfolding eq by (rule wf_filter)
  have get: "mget0 al i = mget0 (fst ?p) i" for i
    unfolding eq by (rule mget0_filter_nonzero [OF start(2)])
  have sum: "msum (\<lambda>c. c) al = r"
    using msum_eq_sum [OF wf _ keys] start(4) by (simp add: get)
  obtain m where "0 \<le> m" and "level ?av ?ids (fst ?p) m (m + 1)" using start(5) by blast
  moreover from this(2) have "min m (free_cap w) \<le> mget0 al i \<and> mget0 al i \<le> min (m + 1) (free_cap w)"
    if "map_of ws i = Some w" for i w
    using that mkeys_Some [OF that] by (auto simp: level_def get mget0_avail)
  ultimately show ?thesis unfolding fair_plan_def using wf keys sum True by auto
next
  case False
  then have "al = []" using al by (simp add: allocate_negative)
  with False show ?thesis
    unfolding fair_plan_def using free_cap_nonneg by (auto intro!: exI [of _ 0])
qed

lemma allocate_nonzero: "allocate ws r = Some al \<Longrightarrow> map_of al i = Some c \<Longrightarrow> c \<noteq> 0"
  by (auto simp: allocate_def Let_def split: if_splits dest!: map_of_SomeD)

lemma allocate_bounds:
  assumes ws: "wf_map ws" and al: "allocate ws r = Some al" and c: "map_of al i = Some c"
  shows "\<exists>w. map_of ws i = Some w \<and> 0 < c \<and> c \<le> free_cap w"
proof -
  note plan = allocate_fair_plan [OF ws al, unfolded fair_plan_def]
  have "i \<in> mkeys ws" using plan mkeys_Some [OF c] by blast
  then obtain w where w: "map_of ws i = Some w" using mkeys_obtain by metis
  obtain m where m: "0 \<le> m" "\<forall>i w. map_of ws i = Some w \<longrightarrow>
      min m (free_cap w) \<le> mget0 al i \<and> mget0 al i \<le> min (m + 1) (free_cap w)"
    using plan by blast
  have "mget0 al i = c" using c by (simp add: mget0_def)
  with m(2) w have "min m (free_cap w) \<le> c" "c \<le> min (m + 1) (free_cap w)" by auto
  then have "0 \<le> c" "c \<le> free_cap w" using m(1) free_cap_nonneg [of w] by auto
  with allocate_nonzero [OF al c] w show ?thesis by auto
qed

text \<open>
  The order in which the map of workers is iterated has no effect: the ids are sorted,
  and the rest of the plan reads the map by key.
\<close>

lemma give_round_avail_cong:
  "(\<And>i. mget0 avail i = mget0 avail' i) \<Longrightarrow>
   give_round avail share ids (alloc, r) = give_round avail' share ids (alloc, r)"
  by (induction ids arbitrary: alloc r) (simp_all add: Let_def)

lemma alloc_loop_avail_cong:
  assumes "\<And>i. mget0 avail i = mget0 avail' i"
  shows "alloc_loop avail ids alloc r = alloc_loop avail' ids alloc r"
proof (induction avail ids alloc r rule: alloc_loop.induct [where P = "\<lambda>av ids al r.
      (\<forall>i. mget0 av i = mget0 avail' i) \<longrightarrow> alloc_loop av ids al r = alloc_loop avail' ids al r",
      THEN mp])
  case (1 av ids al r)
  show ?case
  proof
    assume eq: "\<forall>i. mget0 av i = mget0 avail' i"
    then have act: "active_ids av ids al = active_ids avail' ids al"
      by (simp add: active_ids_def)
    have round: "give_round av share js (al, r) = give_round avail' share js (al, r)" for share js
      by (rule give_round_avail_cong) (simp add: eq)
    show "alloc_loop av ids al r = alloc_loop avail' ids al r"
      using 1 eq by (subst (1 2) alloc_loop.simps) (simp add: Let_def act round)
  qed
next
  case 2
  show ?case using assms by simp
qed

lemma allocate_iteration_order:
  assumes "wf_map ws" and "mset ws' = mset ws"
  shows "allocate ws' r = allocate ws r"
proof -
  let ?av = "\<lambda>ws. map (\<lambda>(i, w). (i, free_cap w)) ws"
  have total: "(\<Sum>(i, w)\<leftarrow>ws'. free_cap w) = (\<Sum>(i, w)\<leftarrow>ws. free_cap w)"
    using msum_mset_eq [OF assms(2), of free_cap] by (simp add: msum_def)
  have ids: "sort (map fst ws') = sort (map fst ws)"
    by (rule properties_for_sort) (simp_all, metis assms(2) mset_map)
  have "mget0 (?av ws') i = mget0 (?av ws) i" for i
    by (simp add: mget0_avail map_of_mset_eq [OF assms])
  then have "alloc_loop (?av ws') js [] r = alloc_loop (?av ws) js [] r" for js
    by (rule alloc_loop_avail_cong)
  with total ids show ?thesis by (simp add: allocate_def Let_def)
qed

end
