(* ===== verification/Store.thy ===== *)
theory Store
  imports Libs
begin

text \<open>
  Package auth, the SQLite store (master/auth/store.go, bookmarks.go, env.go): the rows
  of each table, and one operation per method, which is what its SQL statement does to
  the rows under the constraints of the schema. The driver is not under src/: which
  statements it currently refuses is the field \<open>db_refuses\<close>. A text column that holds
  the JSON of a string map is represented by that map.
\<close>

section \<open>Rows\<close>

record user =
  u_ID :: int
  u_Email :: string
  u_Name :: string
  u_Provider :: string
  u_PasswordHash :: string
  u_ProviderSubject :: string
  u_CreatedAt :: int

record session_row =
  se_user_id :: int
  se_created_at :: int
  se_expires_at :: int
  se_ip :: string
  se_user_agent :: string

record bookmark_row =
  br_url :: string
  br_method :: string
  br_concurrence :: int
  br_body :: string
  br_headers :: "(string, string) gomap"
  br_verbose :: int
  br_created_at :: int
  br_updated_at :: int

record env_row =
  er_vars :: "(string, string) gomap"
  er_created_at :: int
  er_updated_at :: int

record bookmark =
  b_Name :: string
  b_URL :: string
  b_Method :: string
  b_Concurrence :: int
  b_Body :: string
  b_Headers :: "(string, string) gomap"
  b_Verbose :: bool
  b_UpdatedAt :: int

record env =
  env_Name :: string
  env_Vars :: "(string, string) gomap"
  env_UpdatedAt :: int

datatype statement =
    CountUsersQ | CreateUserQ | GetUserByEmailQ
  | CreateSessionQ | GetValidSessionQ | DeleteSessionQ | DeleteExpiredQ
  | ListBookmarksQ | GetBookmarkQ | SaveBookmarkQ | DeleteBookmarkQ
  | ListEnvsQ | GetEnvQ | SaveEnvQ | DeleteEnvQ
  | GetSettingQ | SetSettingQ

datatype db_error = ErrNotFound | Constraint | DriverError

record store =
  db_refuses :: "statement \<Rightarrow> bool"
  users :: "user list"
  next_user_id :: int
  sessions :: "(string, session_row) gomap"
  bookmarks :: "(string, bookmark_row) gomap"
  envs :: "(string, env_row) gomap"
  app_settings :: "(string, string) gomap"

text \<open>The schema right after Open and migrate on a fresh file.\<close>

definition empty_store :: store where
  "empty_store =
     \<lparr>db_refuses = (\<lambda>_. False), users = [], next_user_id = 1, sessions = [], bookmarks = [],
      envs = [], app_settings = []\<rparr>"

section \<open>Users and sessions\<close>

definition CountUsers :: "store \<Rightarrow> db_error + int" where
  "CountUsers s = (if db_refuses s CountUsersQ then Inl DriverError else Inr (int (length (users s))))"

text \<open>The two uniqueness constraints of the table users.\<close>

definition user_conflict :: "store \<Rightarrow> user \<Rightarrow> bool" where
  "user_conflict s u \<longleftrightarrow>
     list_ex (\<lambda>v. u_Email v = u_Email u \<or>
       (u_Provider v = u_Provider u \<and> u_ProviderSubject v = u_ProviderSubject u)) (users s)"

definition CreateUser :: "user \<Rightarrow> store \<Rightarrow> db_error + user \<times> store" where
  "CreateUser u s =
     (if db_refuses s CreateUserQ then Inl DriverError
      else if user_conflict s u then Inl Constraint
      else let u' = u\<lparr>u_ID := next_user_id s\<rparr>
           in Inr (u', s\<lparr>users := users s @ [u'], next_user_id := next_user_id s + 1\<rparr>))"

definition GetUserByEmail :: "store \<Rightarrow> string \<Rightarrow> db_error + user" where
  "GetUserByEmail s email =
     (if db_refuses s GetUserByEmailQ then Inl DriverError
      else case find (\<lambda>u. u_Email u = email) (users s) of
             None \<Rightarrow> Inl ErrNotFound
           | Some u \<Rightarrow> Inr u)"

definition user_by_id :: "store \<Rightarrow> int \<Rightarrow> user option" where
  "user_by_id s i = find (\<lambda>u. u_ID u = i) (users s)"

definition CreateSession ::
    "string \<Rightarrow> int \<Rightarrow> int \<Rightarrow> int \<Rightarrow> string \<Rightarrow> string \<Rightarrow> store \<Rightarrow> db_error + store" where
  "CreateSession tokenHash userID createdAt expiresAt ip ua s =
     (if db_refuses s CreateSessionQ then Inl DriverError
      else if tokenHash \<in> mkeys (sessions s) \<or> user_by_id s userID = None then Inl Constraint
      else Inr (s\<lparr>sessions := mput tokenHash
             \<lparr>se_user_id = userID, se_created_at = createdAt, se_expires_at = expiresAt,
              se_ip = ip, se_user_agent = ua\<rparr> (sessions s)\<rparr>))"

definition GetValidSession :: "store \<Rightarrow> string \<Rightarrow> int \<Rightarrow> db_error + user" where
  "GetValidSession s tokenHash now =
     (if db_refuses s GetValidSessionQ then Inl DriverError
      else case map_of (sessions s) tokenHash of
             None \<Rightarrow> Inl ErrNotFound
           | Some row \<Rightarrow>
               (if se_expires_at row > now
                then case user_by_id s (se_user_id row) of
                       None \<Rightarrow> Inl ErrNotFound
                     | Some u \<Rightarrow> Inr u
                else Inl ErrNotFound))"

definition DeleteSession :: "string \<Rightarrow> store \<Rightarrow> db_error + store" where
  "DeleteSession tokenHash s =
     (if db_refuses s DeleteSessionQ then Inl DriverError
      else Inr (s\<lparr>sessions := mdel tokenHash (sessions s)\<rparr>))"

definition DeleteExpired :: "int \<Rightarrow> store \<Rightarrow> db_error + store" where
  "DeleteExpired now s =
     (if db_refuses s DeleteExpiredQ then Inl DriverError
      else Inr (s\<lparr>sessions := filter (\<lambda>(_, row). \<not> se_expires_at row \<le> now) (sessions s)\<rparr>))"

section \<open>Bookmarks\<close>

definition bookmark_of_row :: "string \<Rightarrow> bookmark_row \<Rightarrow> bookmark" where
  "bookmark_of_row name r =
     \<lparr>b_Name = name, b_URL = br_url r, b_Method = br_method r, b_Concurrence = br_concurrence r,
      b_Body = br_body r, b_Headers = br_headers r, b_Verbose = (br_verbose r \<noteq> 0),
      b_UpdatedAt = br_updated_at r\<rparr>"

text \<open>ORDER BY updated_at DESC; rows of the same second come in table order.\<close>

definition ListBookmarks :: "store \<Rightarrow> db_error + bookmark list" where
  "ListBookmarks s =
     (if db_refuses s ListBookmarksQ then Inl DriverError
      else Inr (sort_key (\<lambda>b. - b_UpdatedAt b)
                 (map (\<lambda>(name, r). bookmark_of_row name r) (bookmarks s))))"

definition GetBookmark :: "store \<Rightarrow> string \<Rightarrow> db_error + bookmark" where
  "GetBookmark s name =
     (if db_refuses s GetBookmarkQ then Inl DriverError
      else case map_of (bookmarks s) name of
             None \<Rightarrow> Inl ErrNotFound
           | Some r \<Rightarrow> Inr (bookmark_of_row name r))"

text \<open>The upsert keeps the creation time of the row it updates.\<close>

definition SaveBookmark :: "int \<Rightarrow> bookmark \<Rightarrow> store \<Rightarrow> db_error + store" where
  "SaveBookmark now b s =
     (if db_refuses s SaveBookmarkQ then Inl DriverError
      else let created = (case map_of (bookmarks s) (b_Name b) of
                            None \<Rightarrow> now | Some r \<Rightarrow> br_created_at r);
               v = (if b_Verbose b then 1 else 0)
           in Inr (s\<lparr>bookmarks := mput (b_Name b)
                \<lparr>br_url = b_URL b, br_method = b_Method b, br_concurrence = b_Concurrence b,
                 br_body = b_Body b, br_headers = b_Headers b, br_verbose = v,
                 br_created_at = created, br_updated_at = now\<rparr> (bookmarks s)\<rparr>))"

definition DeleteBookmark :: "string \<Rightarrow> store \<Rightarrow> db_error + store" where
  "DeleteBookmark name s =
     (if db_refuses s DeleteBookmarkQ then Inl DriverError
      else Inr (s\<lparr>bookmarks := mdel name (bookmarks s)\<rparr>))"

section \<open>Environments and settings\<close>

definition env_of_row :: "string \<Rightarrow> env_row \<Rightarrow> env" where
  "env_of_row name r = \<lparr>env_Name = name, env_Vars = er_vars r, env_UpdatedAt = er_updated_at r\<rparr>"

definition ListEnvs :: "store \<Rightarrow> db_error + env list" where
  "ListEnvs s =
     (if db_refuses s ListEnvsQ then Inl DriverError
      else Inr (sort_key (\<lambda>e. - env_UpdatedAt e) (map (\<lambda>(name, r). env_of_row name r) (envs s))))"

definition GetEnv :: "store \<Rightarrow> string \<Rightarrow> db_error + env" where
  "GetEnv s name =
     (if db_refuses s GetEnvQ then Inl DriverError
      else case map_of (envs s) name of
             None \<Rightarrow> Inl ErrNotFound
           | Some r \<Rightarrow> Inr (env_of_row name r))"

definition SaveEnv :: "int \<Rightarrow> env \<Rightarrow> store \<Rightarrow> db_error + store" where
  "SaveEnv now e s =
     (if db_refuses s SaveEnvQ then Inl DriverError
      else let created = (case map_of (envs s) (env_Name e) of
                            None \<Rightarrow> now | Some r \<Rightarrow> er_created_at r)
           in Inr (s\<lparr>envs := mput (env_Name e)
                \<lparr>er_vars = env_Vars e, er_created_at = created, er_updated_at = now\<rparr> (envs s)\<rparr>))"

definition DeleteEnv :: "string \<Rightarrow> store \<Rightarrow> db_error + store" where
  "DeleteEnv name s =
     (if db_refuses s DeleteEnvQ then Inl DriverError
      else Inr (s\<lparr>envs := mdel name (envs s)\<rparr>))"

definition GetSetting :: "store \<Rightarrow> string \<Rightarrow> db_error + string" where
  "GetSetting s key =
     (if db_refuses s GetSettingQ then Inl DriverError
      else case map_of (app_settings s) key of None \<Rightarrow> Inr [] | Some v \<Rightarrow> Inr v)"

definition SetSetting :: "string \<Rightarrow> string \<Rightarrow> store \<Rightarrow> db_error + store" where
  "SetSetting key v s =
     (if db_refuses s SetSettingQ then Inl DriverError
      else Inr (s\<lparr>app_settings := mput key v (app_settings s)\<rparr>))"

text \<open>\<open>v, _ := f()\<close>: on an error the value is the zero value.\<close>

definition or_zero :: "'a \<Rightarrow> 'e + 'a \<Rightarrow> 'a" where
  "or_zero z r = (case r of Inl _ \<Rightarrow> z | Inr v \<Rightarrow> v)"

section \<open>Consistency of the tables\<close>

definition store_ok :: "store \<Rightarrow> bool" where
  "store_ok s \<longleftrightarrow>
     wf_map (sessions s) \<and> wf_map (bookmarks s) \<and> wf_map (envs s) \<and> wf_map (app_settings s) \<and>
     distinct (map u_ID (users s)) \<and> distinct (map u_Email (users s)) \<and>
     (\<forall>u\<in>set (users s). u_ID u < next_user_id s) \<and>
     (\<forall>h row. map_of (sessions s) h = Some row \<longrightarrow> user_by_id s (se_user_id row) \<noteq> None)"

lemma store_ok_empty: "store_ok empty_store"
  by (simp add: store_ok_def empty_store_def)

lemma user_by_id_append:
  "user_by_id (s\<lparr>users := users s @ [u], next_user_id := n\<rparr>) i =
     (case user_by_id s i of None \<Rightarrow> (if u_ID u = i then Some u else None) | Some v \<Rightarrow> Some v)"
  by (simp add: user_by_id_def find_append split: option.splits)

lemma user_by_id_frame [framed]:
  "user_by_id (s\<lparr>sessions := x\<rparr>) = user_by_id s"
  "user_by_id (s\<lparr>bookmarks := y\<rparr>) = user_by_id s"
  "user_by_id (s\<lparr>envs := z\<rparr>) = user_by_id s"
  "user_by_id (s\<lparr>app_settings := t\<rparr>) = user_by_id s"
  "user_by_id (s\<lparr>db_refuses := f\<rparr>) = user_by_id s"
  by (simp_all add: user_by_id_def fun_eq_iff)

lemma user_conflict_iff:
  "user_conflict s u \<longleftrightarrow> u_Email u \<in> u_Email ` set (users s) \<or>
     (\<exists>v\<in>set (users s). u_Provider v = u_Provider u \<and> u_ProviderSubject v = u_ProviderSubject u)"
  by (auto simp: user_conflict_def list_ex_iff image_iff) metis+

text \<open>Every statement that changes the database, and the driver changing its mind.\<close>

inductive store_step :: "store \<Rightarrow> store \<Rightarrow> bool" where
  create_user: "CreateUser u s = Inr (u', s') \<Longrightarrow> store_step s s'"
| create_session: "CreateSession h i c e ip ua s = Inr s' \<Longrightarrow> store_step s s'"
| delete_session: "DeleteSession h s = Inr s' \<Longrightarrow> store_step s s'"
| delete_expired: "DeleteExpired now s = Inr s' \<Longrightarrow> store_step s s'"
| save_bookmark: "SaveBookmark now b s = Inr s' \<Longrightarrow> store_step s s'"
| delete_bookmark: "DeleteBookmark name s = Inr s' \<Longrightarrow> store_step s s'"
| save_env: "SaveEnv now e s = Inr s' \<Longrightarrow> store_step s s'"
| delete_env: "DeleteEnv name s = Inr s' \<Longrightarrow> store_step s s'"
| set_setting: "SetSetting k v s = Inr s' \<Longrightarrow> store_step s s'"
| driver: "store_step s (s\<lparr>db_refuses := f\<rparr>)"

lemma CreateUser_ok: "store_ok s \<Longrightarrow> CreateUser u s = Inr (u', s') \<Longrightarrow> store_ok s'"
  by (auto simp: CreateUser_def store_ok_def Let_def user_by_id_append user_conflict_iff
      split: if_splits option.splits) (force dest: less_imp_le)+

lemma CreateSession_ok: "store_ok s \<Longrightarrow> CreateSession h i c e ip ua s = Inr s' \<Longrightarrow> store_ok s'"
  by (auto simp: CreateSession_def store_ok_def framed split: if_splits)

lemma DeleteSession_ok: "store_ok s \<Longrightarrow> DeleteSession h s = Inr s' \<Longrightarrow> store_ok s'"
  by (auto simp: DeleteSession_def store_ok_def framed split: if_splits)

lemma DeleteExpired_ok: "store_ok s \<Longrightarrow> DeleteExpired now s = Inr s' \<Longrightarrow> store_ok s'"
  by (auto simp: DeleteExpired_def store_ok_def framed wf_filter wf_map_of [symmetric] split: if_splits)

lemma SaveBookmark_ok: "store_ok s \<Longrightarrow> SaveBookmark now b s = Inr s' \<Longrightarrow> store_ok s'"
  by (auto simp: SaveBookmark_def store_ok_def framed Let_def split: if_splits)

lemma SaveEnv_ok: "store_ok s \<Longrightarrow> SaveEnv now e s = Inr s' \<Longrightarrow> store_ok s'"
  by (auto simp: SaveEnv_def store_ok_def framed Let_def split: if_splits)

lemma store_step_ok: "store_step s s' \<Longrightarrow> store_ok s \<Longrightarrow> store_ok s'"
proof (induction rule: store_step.induct)
  case (delete_bookmark name s s')
  then show ?case by (auto simp: DeleteBookmark_def store_ok_def framed split: if_splits)
next
  case (delete_env name s s')
  then show ?case by (auto simp: DeleteEnv_def store_ok_def framed split: if_splits)
next
  case (set_setting k v s s')
  then show ?case by (auto simp: SetSetting_def store_ok_def framed split: if_splits)
next
  case (driver s f)
  then show ?case by (auto simp: store_ok_def framed)
qed (auto intro: CreateUser_ok CreateSession_ok DeleteSession_ok DeleteExpired_ok SaveBookmark_ok
    SaveEnv_ok)

interpretation db: machine "\<lambda>s. s = empty_store" store_step store_ok
  by unfold_locales (auto intro: store_ok_empty store_step_ok)

section \<open>What is read back\<close>

lemma GetBookmark_SaveBookmark:
  "SaveBookmark now b s = Inr s' \<Longrightarrow> \<not> db_refuses s' GetBookmarkQ \<Longrightarrow>
   GetBookmark s' name =
     (if name = b_Name b then Inr (b\<lparr>b_UpdatedAt := now\<rparr>) else GetBookmark s name)"
  by (auto simp: SaveBookmark_def GetBookmark_def bookmark_of_row_def Let_def split: if_splits option.splits)

lemma GetEnv_SaveEnv:
  "SaveEnv now e s = Inr s' \<Longrightarrow> \<not> db_refuses s' GetEnvQ \<Longrightarrow>
   GetEnv s' name = (if name = env_Name e then Inr (e\<lparr>env_UpdatedAt := now\<rparr>) else GetEnv s name)"
  by (auto simp: SaveEnv_def GetEnv_def env_of_row_def Let_def split: if_splits option.splits)

end
