(* ===== verification/EnvSubst.thy ===== *)
theory EnvSubst
  imports Store Proto
begin

text \<open>
  Environments (master/services.go: applyEnv, confWithEnv, activeEnv, envVars) and the
  conversions between the forms of a test configuration (methodEnum, confFromReq,
  confFromBookmark). An environment replaces each token \<open>{{key}}\<close> of a configuration by
  the value of the key, one key after the other in the iteration order of the map.
\<close>

section \<open>Conversions\<close>

definition methodEnum :: "string \<Rightarrow> http_method" where
  "methodEnum s =
     (let u = ToUpper s
      in if u = ''POST'' then POST else if u = ''PUT'' then PUT
         else if u = ''DELETE'' then DELETE else if u = ''UPDATE'' then UPDATE else GET)"

definition confFromReq :: "cmd_conf \<Rightarrow> conf" where
  "confFromReq c =
     zero_conf\<lparr>Name := q_Name c, URL := q_URL c, Protocol := q_Protocol c, Host := q_Host c,
       Port := q_Port c, Path := q_Path c, Method := q_Method c, Headers := q_Headers c,
       Body := q_Body c, Concurrence := q_Concurrence c, Verbose := q_Verbose c\<rparr>"

definition confFromBookmark :: "bookmark \<Rightarrow> conf" where
  "confFromBookmark b =
     zero_conf\<lparr>Name := b_Name b, URL := b_URL b, Method := b_Method b, Headers := b_Headers b,
       Body := b_Body b, Concurrence := b_Concurrence b, Verbose := b_Verbose b\<rparr>"

section \<open>Substitution\<close>

definition token :: "string \<Rightarrow> string" where
  "token k = ''{{'' @ k @ ''}}''"

definition rep_vars :: "(string, string) gomap \<Rightarrow> string \<Rightarrow> string" where
  "rep_vars vars s =
     (if s = [] then s else fold (\<lambda>(k, v) s. replace_all (token k) v s) vars s)"

definition applyEnv :: "conf \<Rightarrow> (string, string) gomap \<Rightarrow> conf" where
  "applyEnv c vars =
     (if vars = [] then c
      else c\<lparr>URL := rep_vars vars (URL c), Path := rep_vars vars (Path c),
             Body := rep_vars vars (Body c),
             Headers := map (\<lambda>(k, v). (k, rep_vars vars v)) (Headers c)\<rparr>)"

definition confWithEnv :: "conf \<Rightarrow> (string, string) gomap \<Rightarrow> conf" where
  "confWithEnv c vars = applyEnv c vars"

definition activeEnv :: "store \<Rightarrow> string" where
  "activeEnv s = or_zero [] (GetSetting s ''active_env'')"

definition envVars :: "store \<Rightarrow> string \<Rightarrow> (string, string) gomap" where
  "envVars s name =
     (let name = TrimSpace name
      in if name = [] then []
         else case GetEnv s name of Inl _ \<Rightarrow> [] | Inr e \<Rightarrow> env_Vars e)"

section \<open>Substitution as a function of the whole map\<close>

text \<open>
  A template is a sequence of literal text and tokens. Where neither the texts, the keys
  nor the values hold a brace, the loop replaces all tokens at once, whatever the
  iteration order; unknown tokens stay.
\<close>

datatype piece = Lit string | Tok string

definition no_brace :: "string \<Rightarrow> bool" where
  "no_brace s \<longleftrightarrow> CHR ''{'' \<notin> set s \<and> CHR ''}'' \<notin> set s"

fun piece_text :: "piece \<Rightarrow> string" where
  "piece_text (Lit s) = s"
| "piece_text (Tok k) = token k"

fun piece_ok :: "piece \<Rightarrow> bool" where
  "piece_ok (Lit s) = no_brace s"
| "piece_ok (Tok k) = no_brace k"

definition template_text :: "piece list \<Rightarrow> string" where
  "template_text ps = concat (map piece_text ps)"

fun fill :: "(string, string) gomap \<Rightarrow> piece \<Rightarrow> piece" where
  "fill vars (Lit s) = Lit s"
| "fill vars (Tok k) = (case map_of vars k of None \<Rightarrow> Tok k | Some v \<Rightarrow> Lit v)"

lemma replace_all_literal:
  "no_brace l \<Longrightarrow> replace_all (token k) v (l @ s) = l @ replace_all (token k) v s"
proof (induction l)
  case Nil
  then show ?case by simp
next
  case (Cons c l)
  then have "c \<noteq> CHR ''{''" and "no_brace l" by (auto simp: no_brace_def)
  then have "\<not> starts_with (token k) ((c # l) @ s)"
    by (auto simp: starts_with_iff token_def)
  with Cons.IH \<open>no_brace l\<close> show ?case by simp
qed

lemma braced_prefix:
  assumes "no_brace k" and "no_brace k'"
  shows "starts_with (token k) (token k' @ s) \<longleftrightarrow> k = k'"
proof
  assume "starts_with (token k) (token k' @ s)"
  then obtain t where "k @ CHR ''}'' # CHR ''}'' # t = k' @ CHR ''}'' # CHR ''}'' # s"
    by (auto simp: starts_with_iff token_def)
  moreover have "takeWhile (\<lambda>c. c \<noteq> CHR ''}'') (x @ CHR ''}'' # y) = x" if "no_brace x" for x y
    using that by (subst takeWhile_append2) (auto simp: no_brace_def)
  ultimately show "k = k'" using assms by metis
next
  assume "k = k'"
  then show "starts_with (token k) (token k' @ s)" by (auto simp: starts_with_iff)
qed

lemma replace_all_token:
  assumes "no_brace k" and "no_brace k'"
  shows "replace_all (token k) v (token k' @ s) =
    (if k = k' then v else token k') @ replace_all (token k) v s"
proof (cases "k = k'")
  case True
  have "replace_all (token k) v (token k @ s) = v @ replace_all (token k) v s"
    using braced_prefix [OF assms(1,1), of s] by (simp add: token_def starts_with_def)
  with True show ?thesis by simp
next
  case False
  have head: "\<not> starts_with (token k) (token k' @ s)"
    using braced_prefix [OF assms] False by simp
  have second: "\<not> starts_with (token k) (CHR ''{'' # k' @ CHR ''}'' # CHR ''}'' # s)"
    using assms(2) by (cases k') (auto simp: starts_with_iff token_def no_brace_def)
  have close: "replace_all (token k) v (CHR ''}'' # r) = CHR ''}'' # replace_all (token k) v r" for r
    by (simp add: starts_with_iff token_def)
  have "replace_all (token k) v (token k' @ s) =
      CHR ''{'' # CHR ''{'' # replace_all (token k) v (k' @ CHR ''}'' # CHR ''}'' # s)"
    using head second by (simp add: token_def)
  also have "\<dots> = token k' @ replace_all (token k) v s"
    by (simp only: replace_all_literal [OF assms(2)] close) (simp add: token_def)
  finally show ?thesis using False by simp
qed

lemma replace_all_template:
  assumes "no_brace k" and "list_all piece_ok ps"
  shows "replace_all (token k) v (template_text ps) = template_text (map (fill [(k, v)]) ps)"
  using assms(2)
proof (induction ps)
  case Nil
  then show ?case by (simp add: template_text_def)
next
  case (Cons p ps)
  then show ?case
    by (cases p) (simp_all add: template_text_def replace_all_literal replace_all_token assms(1))
qed

lemma fold_replace_template:
  assumes "wf_map vars" and "list_all piece_ok ps"
    and "list_all (\<lambda>(k, v). no_brace k \<and> no_brace v) vars"
  shows "fold (\<lambda>(k, v) s. replace_all (token k) v s) vars (template_text ps) =
    template_text (map (fill vars) ps)"
  using assms
proof (induction vars arbitrary: ps)
  case Nil
  have "fill [] p = p" for p by (cases p) auto
  then have "map (fill []) ps = ps" by (simp add: map_idI)
  then show ?case by simp
next
  case (Cons p vars)
  obtain k v where p: "p = (k, v)" by force
  let ?ps = "map (fill [(k, v)]) ps"
  have ok: "list_all piece_ok ?ps"
    using Cons.prems p by (auto simp: list_all_iff elim!: piece_ok.elims)
  have "map_of vars k = None" using Cons.prems p by (auto simp: map_of_None_iff)
  then have "fill vars (fill [(k, v)] q) = fill (p # vars) q" for q
    using p by (cases q) auto
  with Cons.IH [OF _ ok] Cons.prems p show ?case
    by (simp add: replace_all_template comp_def)
qed

lemma rep_vars_template:
  assumes "wf_map vars" and "list_all piece_ok ps"
    and "list_all (\<lambda>(k, v). no_brace k \<and> no_brace v) vars"
  shows "rep_vars vars (template_text ps) = template_text (map (fill vars) ps)"
proof (cases "template_text ps = []")
  case True
  moreover have "piece_text p = [] \<Longrightarrow> p = Lit []" for p
    by (cases p) (auto simp: token_def)
  ultimately have "\<forall>p\<in>set ps. p = Lit []" by (auto simp: template_text_def)
  then have "map (fill vars) ps = ps" by (intro map_idI) auto
  with True show ?thesis by (simp add: rep_vars_def)
next
  case False
  then show ?thesis using fold_replace_template [OF assms] by (simp add: rep_vars_def)
qed

lemma confWithEnv_frame [framed]:
  "Name (confWithEnv c vars) = Name c" "Method (confWithEnv c vars) = Method c"
  "Concurrence (confWithEnv c vars) = Concurrence c" "Verbose (confWithEnv c vars) = Verbose c"
  "Host (confWithEnv c vars) = Host c" "Port (confWithEnv c vars) = Port c"
  "Protocol (confWithEnv c vars) = Protocol c"
  "map fst (Headers (confWithEnv c vars)) = map fst (Headers c)"
  by (simp_all add: confWithEnv_def applyEnv_def case_prod_unfold comp_def)

end
