(* ===== verification/Ocean.thy ===== *)
theory Ocean
  imports Allocate EnvSubst
begin

text \<open>
  The ocean's state (master/ocean.go: job, Ocean), the commands it pushes to workers, the
  operations a worker's stream triggers (master/client.go) and the critical sections of
  the handlers that start, stop, pause and resume a test (master/services.go). Each of
  them runs under the mutex, so it is one function on the state.
\<close>

section \<open>State\<close>

record job =
  j_name :: string
  j_conf :: conf
  j_rawConf :: conf
  j_assignments :: assignments
  j_paused :: bool

type_synonym jobs = "(string, job) gomap"

record ocean =
  oc_id :: string
  oc_name :: string
  oc_maxConnections :: int
  oc_workers :: workers
  oc_jobs :: jobs
  oc_discovery :: bool
  oc_advertiseGRPC :: string
  oc_httpAddr :: string
  oc_auth_token :: string

section \<open>Commands\<close>

definition headersToProto :: "(string, string) gomap \<Rightarrow> http_header list" where
  "headersToProto h = (if h = [] then [] else list_of_headers h)"

definition startCommand :: "string \<Rightarrow> conf \<Rightarrow> int \<Rightarrow> ocean_message" where
  "startCommand name c n =
     OMCommand \<lparr>c_action = START, c_job = name, c_params = Some
       \<lparr>p_name = name, p_url = URL c, p_method = methodEnum (Method c), p_protocol = Protocol c,
        p_host = Host c, p_port = Port c, p_path = Path c, p_concurrency = to_int32 n,
        p_header = headersToProto (Headers c), p_body = Body c, p_verbose = Verbose c\<rparr>\<rparr>"

definition stopCommand :: "string \<Rightarrow> ocean_message" where
  "stopCommand name = OMCommand \<lparr>c_action = STOP, c_job = name, c_params = None\<rparr>"

text \<open>The channel holds 32 messages; a command that finds it full is dropped.\<close>

definition send_capacity :: nat where "send_capacity = 32"

definition push_command :: "ocean_message \<Rightarrow> attached_worker \<Rightarrow> attached_worker" where
  "push_command msg w =
     (if length (w_send w) < send_capacity then w\<lparr>w_send := w_send w @ [msg]\<rparr> else w)"

section \<open>What a worker's stream triggers\<close>

definition addWorker :: "attached_worker \<Rightarrow> ocean \<Rightarrow> bool \<times> ocean" where
  "addWorker w oc =
     (if oc_maxConnections oc > 0 \<and> int (length (oc_workers oc)) \<ge> oc_maxConnections oc
      then (False, oc)
      else (True, oc\<lparr>oc_workers := mput (w_id w) w (oc_workers oc)\<rparr>))"

definition drop_assignment :: "string \<Rightarrow> job \<Rightarrow> job" where
  "drop_assignment i j = j\<lparr>j_assignments := mdel i (j_assignments j)\<rparr>"

definition removeWorker :: "string \<Rightarrow> ocean \<Rightarrow> ocean" where
  "removeWorker i oc =
     (case map_of (oc_workers oc) i of
        None \<Rightarrow> oc
      | Some _ \<Rightarrow> oc\<lparr>oc_workers := mdel i (oc_workers oc),
                    oc_jobs := map (\<lambda>(n, j). (n, drop_assignment i j)) (oc_jobs oc)\<rparr>)"

definition onReport :: "string \<Rightarrow> metric \<Rightarrow> ocean \<Rightarrow> ocean" where
  "onReport i m oc = oc\<lparr>oc_workers :=
     madj i (\<lambda>w. w\<lparr>w_metrics := mput (m_job m) m (w_metrics w)\<rparr>) (oc_workers oc)\<rparr>"

definition onSample :: "string \<Rightarrow> string \<Rightarrow> sample \<Rightarrow> ocean \<Rightarrow> ocean" where
  "onSample i jb smp oc = oc\<lparr>oc_workers :=
     madj i (\<lambda>w. w\<lparr>w_samples := mput jb smp (w_samples w)\<rparr>) (oc_workers oc)\<rparr>"

section \<open>Starting and stopping a test\<close>

definition forget :: "string \<Rightarrow> attached_worker \<Rightarrow> attached_worker" where
  "forget name w = w\<lparr>w_metrics := mdel name (w_metrics w), w_samples := mdel name (w_samples w)\<rparr>"

definition take_slots :: "int \<Rightarrow> attached_worker \<Rightarrow> attached_worker" where
  "take_slots n w = w\<lparr>w_used := w_used w + n\<rparr>"

definition free_slots :: "int \<Rightarrow> attached_worker \<Rightarrow> attached_worker" where
  "free_slots n w =
     (let w = w\<lparr>w_used := w_used w - n\<rparr> in if w_used w < 0 then w\<lparr>w_used := 0\<rparr> else w)"

definition start_job :: "store \<Rightarrow> cmd_conf \<Rightarrow> ocean \<Rightarrow> api_error option \<times> ocean" where
  "start_job db c oc =
     (let name = q_Name c;
          raw = confFromReq c;
          conf = confWithEnv raw (envVars db (activeEnv db));
          requested = q_Concurrence c
      in if map_of (oc_jobs oc) name \<noteq> None
         then (Some \<lparr>Code = 409,
                     Message = ''a test named '' @ [CHR 0x22] @ name @ [CHR 0x22] @ '' is already running''\<rparr>, oc)
         else case allocate (oc_workers oc) requested of
                None \<Rightarrow> (Some \<lparr>Code = 503,
                     Message = ''insufficient worker capacity for the requested concurrency''\<rparr>, oc)
              | Some alloc \<Rightarrow>
                  let ws = map (\<lambda>(i, w). (i, forget name w)) (oc_workers oc);
                      ws = fold (\<lambda>(i, take). madj i
                             (\<lambda>w. push_command (startCommand name conf take) (take_slots take w))) alloc ws
                  in (None, oc\<lparr>oc_workers := ws,
                       oc_jobs := mput name \<lparr>j_name = name, j_conf = conf, j_rawConf = raw,
                         j_assignments = alloc, j_paused = False\<rparr> (oc_jobs oc)\<rparr>))"

definition not_found :: api_error where
  "not_found = \<lparr>Code = 404, Message = ''service not found''\<rparr>"

definition stop_job :: "string \<Rightarrow> ocean \<Rightarrow> api_error option \<times> ocean" where
  "stop_job name oc =
     (case map_of (oc_jobs oc) name of
        None \<Rightarrow> (Some not_found, oc)
      | Some j \<Rightarrow>
          let ws = fold (\<lambda>(i, take). madj i
                     (\<lambda>w. forget name (push_command (stopCommand name) (free_slots take w))))
                     (j_assignments j) (oc_workers oc)
          in (None, oc\<lparr>oc_workers := ws, oc_jobs := mdel name (oc_jobs oc)\<rparr>))"

definition pause_job :: "string \<Rightarrow> ocean \<Rightarrow> api_error option \<times> ocean" where
  "pause_job name oc =
     (case map_of (oc_jobs oc) name of
        None \<Rightarrow> (Some not_found, oc)
      | Some j \<Rightarrow>
          let ws = fold (\<lambda>(i, take). madj i
                     (\<lambda>w. forget name (push_command (stopCommand name) w)))
                     (j_assignments j) (oc_workers oc)
          in (None, oc\<lparr>oc_workers := ws, oc_jobs := mput name (j\<lparr>j_paused := True\<rparr>) (oc_jobs oc)\<rparr>))"

section \<open>Resuming a test\<close>

text \<open>The raw configuration: a saved test of the same name wins over the job's own.\<close>

definition resume_conf :: "store \<Rightarrow> string \<Rightarrow> job \<Rightarrow> conf" where
  "resume_conf db name j =
     (case GetBookmark db name of Inl _ \<Rightarrow> j_rawConf j | Inr bm \<Rightarrow> confFromBookmark bm)"

definition release_held :: "assignments \<Rightarrow> workers \<Rightarrow> workers" where
  "release_held al ws = fold (\<lambda>(i, take). madj i (free_slots take)) al ws"

definition reserve :: "assignments \<Rightarrow> workers \<Rightarrow> workers" where
  "reserve al ws = fold (\<lambda>(i, take). madj i (take_slots take)) al ws"

text \<open>
  The assignments to run with and the workers with the matching reservation; Inl when the
  edited concurrency does not fit, with the reservation that is put back.
\<close>

definition resume_plan :: "assignments \<Rightarrow> int \<Rightarrow> workers \<Rightarrow> workers + (assignments \<times> workers)" where
  "resume_plan al requested ws =
     (let cur = msum (\<lambda>c. c) al
      in if requested > 0 \<and> requested \<noteq> cur
         then let released = release_held al ws
              in case allocate released requested of
                   None \<Rightarrow> Inl (reserve al released)
                 | Some alloc \<Rightarrow> Inr (alloc, reserve alloc released)
         else Inr (al, ws))"

definition resume_job :: "store \<Rightarrow> string \<Rightarrow> ocean \<Rightarrow> api_error option \<times> ocean" where
  "resume_job db name oc =
     (case map_of (oc_jobs oc) name of
        None \<Rightarrow> (Some not_found, oc)
      | Some j \<Rightarrow>
          let raw = resume_conf db name j;
              conf = confWithEnv raw (envVars db (activeEnv db))
          in case resume_plan (j_assignments j) (Concurrence raw) (oc_workers oc) of
               Inl ws \<Rightarrow> (Some \<lparr>Code = 503,
                    Message = ''insufficient worker capacity for the edited concurrency''\<rparr>,
                    oc\<lparr>oc_workers := ws\<rparr>)
             | Inr (al, ws) \<Rightarrow>
                 let ws = fold (\<lambda>(i, take). madj i (push_command (startCommand (j_name j) conf take))) al ws
                 in (None, oc\<lparr>oc_workers := ws,
                      oc_jobs := mput name (j\<lparr>j_assignments := al, j_conf := conf,
                        j_rawConf := raw, j_paused := False\<rparr>) (oc_jobs oc)\<rparr>))"

section \<open>Well-formed states\<close>

text \<open>
  \<open>wf_ocean\<close> holds whatever happens; \<open>ledger\<close> says that the books are exact: what a
  worker has reserved is what the jobs hold on it, within its capacity. The gap between
  the two is a worker id that registers again while it is still attached.
\<close>

definition held :: "string \<Rightarrow> jobs \<Rightarrow> int" where
  "held i js = msum (\<lambda>j. mget0 (j_assignments j) i) js"

definition wf_worker :: "string \<Rightarrow> attached_worker \<Rightarrow> bool" where
  "wf_worker i w \<longleftrightarrow>
     w_id w = i \<and> 0 \<le> w_used w \<and> w_maxCap w < 2 ^ 31 \<and> length (w_send w) \<le> send_capacity"

definition wf_job :: "workers \<Rightarrow> string \<Rightarrow> job \<Rightarrow> bool" where
  "wf_job ws n j \<longleftrightarrow>
     j_name j = n \<and> wf_map (j_assignments j) \<and>
     (\<forall>i c. map_of (j_assignments j) i = Some c \<longrightarrow> 0 < c \<and> i \<in> mkeys ws)"

definition wf_ocean :: "ocean \<Rightarrow> bool" where
  "wf_ocean oc \<longleftrightarrow>
     wf_map (oc_workers oc) \<and> wf_map (oc_jobs oc) \<and>
     (\<forall>i w. map_of (oc_workers oc) i = Some w \<longrightarrow> wf_worker i w) \<and>
     (\<forall>n j. map_of (oc_jobs oc) n = Some j \<longrightarrow> wf_job (oc_workers oc) n j) \<and>
     (0 < oc_maxConnections oc \<longrightarrow> int (length (oc_workers oc)) \<le> oc_maxConnections oc)"

definition booked :: "jobs \<Rightarrow> string \<Rightarrow> attached_worker \<Rightarrow> bool" where
  "booked js i w \<longleftrightarrow> w_used w = held i js \<and> w_used w \<le> max 0 (w_maxCap w)"

definition ledger :: "ocean \<Rightarrow> bool" where
  "ledger oc \<longleftrightarrow> (\<forall>i w. map_of (oc_workers oc) i = Some w \<longrightarrow> booked (oc_jobs oc) i w)"

lemma wf_jobI:
  "j_name j = n \<Longrightarrow> wf_map (j_assignments j) \<Longrightarrow>
   (\<And>i c. map_of (j_assignments j) i = Some c \<Longrightarrow> 0 < c \<and> i \<in> mkeys ws) \<Longrightarrow> wf_job ws n j"
  by (simp add: wf_job_def)

lemma wf_oceanD:
  assumes "wf_ocean oc"
  shows "wf_map (oc_workers oc)" and "wf_map (oc_jobs oc)"
    and "map_of (oc_workers oc) i = Some w \<Longrightarrow> wf_worker i w"
    and "map_of (oc_jobs oc) n = Some j \<Longrightarrow> wf_job (oc_workers oc) n j"
  using assms by (simp_all add: wf_ocean_def)

text \<open>Changing the workers one by one, keys and jobs kept.\<close>

lemma wf_ocean_mapply:
  assumes "wf_ocean oc"
    and "\<And>i w. map_of (oc_workers oc) i = Some w \<Longrightarrow> map_of ws i \<noteq> None \<Longrightarrow> wf_worker i (the (map_of ws i))"
    and "map fst ws = map fst (oc_workers oc)"
  shows "wf_ocean (oc\<lparr>oc_workers := ws\<rparr>)"
proof -
  have keys: "mkeys ws = mkeys (oc_workers oc)" by (metis assms(3) set_map)
  have "length ws = length (oc_workers oc)" by (metis assms(3) length_map)
  moreover have "wf_worker i w" if "map_of ws i = Some w" for i w
    using assms(2) [of i] that keys mkeys_Some [OF that] mkeys_obtain [of i "oc_workers oc"] by auto
  ultimately show ?thesis
    using assms(1,3) keys by (simp add: wf_ocean_def wf_map_def wf_job_def)
qed

lemma held_mput:
  "wf_map js \<Longrightarrow> held i (mput n j js) =
     held i js - (case map_of js n of None \<Rightarrow> 0 | Some j' \<Rightarrow> mget0 (j_assignments j') i)
       + mget0 (j_assignments j) i"
  by (simp add: held_def msum_mput)

lemma held_mdel:
  "wf_map js \<Longrightarrow> held i (mdel n js) =
     held i js - (case map_of js n of None \<Rightarrow> 0 | Some j' \<Rightarrow> mget0 (j_assignments j') i)"
  by (simp add: held_def msum_mdel)

lemma wf_job_mget0: "wf_job ws n j \<Longrightarrow> 0 \<le> mget0 (j_assignments j) i"
  by (auto simp: wf_job_def mget0_def less_imp_le split: option.splits)

lemma held_ge_job:
  assumes "wf_ocean oc" and "map_of (oc_jobs oc) n = Some j"
  shows "mget0 (j_assignments j) i \<le> held i (oc_jobs oc)"
  unfolding held_def
  by (rule msum_member_le [of _ _ n])
    (use assms in \<open>auto intro!: wf_job_mget0 wf_oceanD(4) dest: map_of_SomeD simp: wf_oceanD(2) wf_map_of\<close>)

lemma held_nonneg:
  assumes "wf_ocean oc"
  shows "0 \<le> held i (oc_jobs oc)"
  unfolding held_def
  by (rule msum_nonneg) (use assms in \<open>auto intro!: wf_job_mget0 wf_oceanD(4) simp: wf_oceanD(2) wf_map_of\<close>)

lemma held_unknown: "wf_ocean oc \<Longrightarrow> i \<notin> mkeys (oc_workers oc) \<Longrightarrow> held i (oc_jobs oc) = 0"
proof -
  assume wf: "wf_ocean oc" and i: "i \<notin> mkeys (oc_workers oc)"
  have "mget0 (j_assignments j) i = 0" if "(n, j) \<in> set (oc_jobs oc)" for n j
    using wf_oceanD(4) [OF wf, of n j] that wf i
    by (auto simp: wf_job_def mget0_def wf_oceanD(2) wf_map_of split: option.splits)
  then have "held i (oc_jobs oc) = msum (\<lambda>_. 0) (oc_jobs oc)"
    unfolding held_def by (intro msum_cong) blast
  then show ?thesis by (simp add: msum_def case_prod_unfold)
qed

end
