(* ===== verification/OceanInv.thy ===== *)
theory OceanInv
  imports Ocean
begin

text \<open>
  Every operation of the scheduler keeps its states well-formed and, as long as no
  attached worker id registers a second time, keeps the books exact.
\<close>

section \<open>What the operations do to one worker\<close>

lemma push_command_simps [simp]:
  "w_id (push_command m w) = w_id w" "w_used (push_command m w) = w_used w"
  "w_maxCap (push_command m w) = w_maxCap w" "w_metrics (push_command m w) = w_metrics w"
  "w_samples (push_command m w) = w_samples w" "w_name (push_command m w) = w_name w"
  by (simp_all add: push_command_def)

lemma push_command_capacity [simp]:
  "length (w_send w) \<le> send_capacity \<Longrightarrow> length (w_send (push_command m w)) \<le> send_capacity"
  by (simp add: push_command_def)

lemma forget_simps [simp]:
  "w_id (forget n w) = w_id w" "w_used (forget n w) = w_used w"
  "w_maxCap (forget n w) = w_maxCap w" "w_send (forget n w) = w_send w"
  by (simp_all add: forget_def)

lemma take_slots_simps [simp]:
  "w_id (take_slots n w) = w_id w" "w_used (take_slots n w) = w_used w + n"
  "w_maxCap (take_slots n w) = w_maxCap w" "w_send (take_slots n w) = w_send w"
  by (simp_all add: take_slots_def)

lemma free_slots_simps [simp]:
  "w_id (free_slots n w) = w_id w" "w_used (free_slots n w) = max 0 (w_used w - n)"
  "w_maxCap (free_slots n w) = w_maxCap w" "w_send (free_slots n w) = w_send w"
  by (simp_all add: free_slots_def Let_def)

text \<open>Where the reservation is there to be released, releasing and retaking is the identity.\<close>

lemma take_free_slots: "n \<le> w_used w \<Longrightarrow> take_slots n (free_slots n w) = w"
  by (simp add: free_slots_def take_slots_def Let_def)

lemma ledgerD:
  "ledger oc \<Longrightarrow> map_of (oc_workers oc) i = Some w \<Longrightarrow>
   w_used w = held i (oc_jobs oc) \<and> w_used w \<le> max 0 (w_maxCap w)"
  unfolding ledger_def booked_def by blast

section \<open>Streams\<close>

lemma wf_job_mono: "wf_job ws n j \<Longrightarrow> mkeys ws \<subseteq> mkeys ws' \<Longrightarrow> wf_job ws' n j"
  by (auto simp: wf_job_def)

lemma addWorker_wf:
  assumes "wf_ocean oc" and "wf_worker (w_id w) w" and "addWorker w oc = (ok, oc')"
  shows "wf_ocean oc'"
proof (cases ok)
  case False
  with assms show ?thesis by (auto simp: addWorker_def split: if_splits)
next
  case True
  with assms have oc': "oc' = oc\<lparr>oc_workers := mput (w_id w) w (oc_workers oc)\<rparr>"
    and room: "oc_maxConnections oc > 0 \<Longrightarrow> int (length (oc_workers oc)) < oc_maxConnections oc"
    by (auto simp: addWorker_def split: if_splits)
  have "0 < oc_maxConnections oc \<Longrightarrow>
      int (length (mput (w_id w) w (oc_workers oc))) \<le> oc_maxConnections oc"
    using room by (simp add: length_mput)
  moreover have "wf_job (mput (w_id w) w (oc_workers oc)) n j"
    if "map_of (oc_jobs oc) n = Some j" for n j
    by (rule wf_job_mono [OF wf_oceanD(4) [OF assms(1) that]]) auto
  ultimately show ?thesis
    using assms(1,2) unfolding oc' by (auto simp: wf_ocean_def)
qed

lemma addWorker_ledger:
  assumes "wf_ocean oc" and "ledger oc" and "w_id w \<notin> mkeys (oc_workers oc)" and "w_used w = 0"
    and "addWorker w oc = (ok, oc')"
  shows "ledger oc'"
  using assms by (auto simp: addWorker_def ledger_def booked_def [of _ "w_id w" w] held_unknown
      split: if_splits)

lemma map_of_map_snd: "map_of (map (\<lambda>(k, v). (k, f v)) m) k = map_option f (map_of m k)"
  by (induction m) auto

lemma wf_map_map_snd [simp]: "wf_map (map (\<lambda>(k, v). (k, f v)) m) = wf_map m"
  by (simp add: wf_map_def case_prod_unfold comp_def)

lemma mget0_drop_assignment [simp]:
  "mget0 (j_assignments (drop_assignment i j)) k = (if k = i then 0 else mget0 (j_assignments j) k)"
  by (simp add: drop_assignment_def)

lemma held_drop_assignment:
  "held k (map (\<lambda>(n, j). (n, drop_assignment i j)) js) = (if k = i then 0 else held k js)"
  by (induction js) (auto simp: held_def)

lemma removeWorker_wf:
  assumes "wf_ocean oc"
  shows "wf_ocean (removeWorker i oc)"
proof (cases "map_of (oc_workers oc) i")
  case None
  with assms show ?thesis by (simp add: removeWorker_def)
next
  case (Some w)
  have "wf_job (mdel i (oc_workers oc)) n (drop_assignment i j)"
    if "map_of (oc_jobs oc) n = Some j" for n j
    using wf_oceanD(4) [OF assms that] by (auto simp: wf_job_def drop_assignment_def)
  moreover have "length (mdel i (oc_workers oc)) \<le> length (oc_workers oc)"
    by (rule length_mdel_le)
  ultimately show ?thesis
    using assms Some by (auto simp: removeWorker_def wf_ocean_def map_of_map_snd)
qed

lemma booked_drop_assignment:
  "k \<noteq> i \<Longrightarrow> booked (map (\<lambda>(n, j). (n, drop_assignment i j)) js) k w = booked js k w"
  by (simp add: booked_def held_drop_assignment)

lemma removeWorker_ledger: "ledger oc \<Longrightarrow> ledger (removeWorker i oc)"
  by (auto simp: removeWorker_def ledger_def booked_drop_assignment split: option.splits)

lemma onReport_wf: "wf_ocean oc \<Longrightarrow> wf_ocean (onReport i m oc)"
  unfolding onReport_def
  by (rule wf_ocean_mapply) (auto simp: gomap wf_ocean_def wf_worker_def)

lemma onSample_wf: "wf_ocean oc \<Longrightarrow> wf_ocean (onSample i jb s oc)"
  unfolding onSample_def
  by (rule wf_ocean_mapply) (auto simp: gomap wf_ocean_def wf_worker_def)

lemma booked_frame [simp]:
  "booked js i (w\<lparr>w_metrics := x\<rparr>) = booked js i w"
  "booked js i (w\<lparr>w_samples := y\<rparr>) = booked js i w"
  "booked js i (forget n w) = booked js i w"
  "booked js i (push_command m w) = booked js i w"
  by (simp_all add: booked_def)

lemma onReport_ledger: "ledger oc \<Longrightarrow> ledger (onReport i m oc)"
  by (auto simp: onReport_def ledger_def map_of_madj)

lemma onSample_ledger: "ledger oc \<Longrightarrow> ledger (onSample i jb s oc)"
  by (auto simp: onSample_def ledger_def map_of_madj)

section \<open>Reserving a plan\<close>

text \<open>
  The contract between the scheduler and whatever plans its allocations: a plan uses
  attached workers only, stays within what each has free, adds up to the request, and is
  refused only when the fleet cannot cover it.
\<close>

locale planner =
  fixes plan :: "workers \<Rightarrow> int \<Rightarrow> assignments option"
  assumes plan_wf: "wf_map ws \<Longrightarrow> plan ws r = Some al \<Longrightarrow> wf_map al"
    and plan_bounds: "wf_map ws \<Longrightarrow> plan ws r = Some al \<Longrightarrow> map_of al i = Some c \<Longrightarrow>
      \<exists>w. map_of ws i = Some w \<and> 0 < c \<and> c \<le> free_cap w"
    and plan_total: "wf_map ws \<Longrightarrow> plan ws r = Some al \<Longrightarrow> msum (\<lambda>c. c) al = max 0 r"
    and plan_refuses: "wf_map ws \<Longrightarrow> plan ws r = None \<longleftrightarrow> msum free_cap ws < r"
begin

lemma plan_keys: "wf_map ws \<Longrightarrow> plan ws r = Some al \<Longrightarrow> mkeys al \<subseteq> mkeys ws"
  by (metis map_of_None_iff mkeys_obtain option.distinct(1) plan_bounds subsetI)

lemma plan_job:
  assumes "wf_map ws" and "plan ws r = Some al" and "mkeys ws = mkeys ws'"
    and "j_name j = n" and "j_assignments j = al"
  shows "wf_job ws' n j"
  using assms plan_bounds [OF assms(1,2)] plan_keys [OF assms(1,2)] plan_wf [OF assms(1,2)]
  by (intro wf_jobI) (blast dest: mkeys_Some)+

text \<open>A reservation within the plan never exceeds a worker's capacity.\<close>

lemma plan_fits:
  assumes "wf_map ws" and "plan ws r = Some al" and "map_of ws i = Some w"
    and "w_used w \<le> max 0 (w_maxCap w)"
  shows "w_used w + mget0 al i \<le> max 0 (w_maxCap w)"
proof (cases "map_of al i")
  case None
  with assms(4) show ?thesis by (simp add: mget0_def)
next
  case (Some c)
  with plan_bounds [OF assms(1,2) Some] assms(3) have "0 < c" "c \<le> free_cap w" by auto
  with Some show ?thesis by (auto simp: mget0_def free_cap_def Let_def split: if_splits)
qed

end

interpretation pl: planner allocate
  by unfold_locales
    (auto simp: allocate_None_iff dest: allocate_bounds allocate_fair_plan [unfolded fair_plan_def])

section \<open>Starting a test\<close>

lemma start_job_cases:
  assumes "start_job db c oc = (e, oc')"
  obtains (refused) err where "e = Some err" and "oc' = oc"
  | (started) alloc where "e = None" and "map_of (oc_jobs oc) (q_Name c) = None"
      and "allocate (oc_workers oc) (q_Concurrence c) = Some alloc"
      and "oc' = oc\<lparr>oc_workers := fold (\<lambda>(i, take). madj i (\<lambda>w. push_command (startCommand (q_Name c)
             (confWithEnv (confFromReq c) (envVars db (activeEnv db))) take) (take_slots take w))) alloc
             (map (\<lambda>(i, w). (i, forget (q_Name c) w)) (oc_workers oc)),
           oc_jobs := mput (q_Name c) \<lparr>j_name = q_Name c,
             j_conf = confWithEnv (confFromReq c) (envVars db (activeEnv db)),
             j_rawConf = confFromReq c, j_assignments = alloc, j_paused = False\<rparr> (oc_jobs oc)\<rparr>"
  using assms by (auto simp: start_job_def Let_def split: if_splits option.splits)

lemma set_job_wf:
  assumes "wf_ocean oc" and "wf_job (oc_workers oc) n j"
  shows "wf_ocean (oc\<lparr>oc_jobs := mput n j (oc_jobs oc)\<rparr>)"
  using assms by (auto simp: wf_ocean_def)

lemma del_job_wf: "wf_ocean oc \<Longrightarrow> wf_ocean (oc\<lparr>oc_jobs := mdel n (oc_jobs oc)\<rparr>)"
  by (auto simp: wf_ocean_def)

lemma start_job_wf:
  assumes wf: "wf_ocean oc" and "start_job db c oc = (e, oc')"
  shows "wf_ocean oc'"
  using assms(2)
proof (cases rule: start_job_cases)
  case refused
  with wf show ?thesis by simp
next
  case (started alloc)
  let ?conf = "confWithEnv (confFromReq c) (envVars db (activeEnv db))"
  let ?f = "\<lambda>take w. push_command (startCommand (q_Name c) ?conf take) (take_slots take w)"
  let ?base = "map (\<lambda>(i, w). (i, forget (q_Name c) w)) (oc_workers oc)"
  let ?ws = "mapply ?f alloc ?base"
  note al = started(3)
  have wfw: "wf_map (oc_workers oc)" using wf by (rule wf_oceanD)
  have ws: "fold (\<lambda>(i, take). madj i (?f take)) alloc ?base = ?ws"
    by (rule fold_madj_eq_mapply [OF pl.plan_wf [OF wfw al]])
  have keys: "map fst ?ws = map fst (oc_workers oc)" by (simp add: case_prod_unfold comp_def)
  have "wf_worker i (the (map_of ?ws i))" if "map_of (oc_workers oc) i = Some w" for i w
    using wf_oceanD(3) [OF wf that] that pl.plan_bounds [OF wfw al, of i]
    by (auto simp: map_of_mapply map_of_map_snd wf_worker_def split: option.splits)
  then have "wf_ocean (oc\<lparr>oc_workers := ?ws\<rparr>)"
    by (intro wf_ocean_mapply [OF wf]) (use keys in auto)
  moreover have "wf_job ?ws (q_Name c) \<lparr>j_name = q_Name c, j_conf = ?conf,
      j_rawConf = confFromReq c, j_assignments = alloc, j_paused = False\<rparr>"
    by (rule pl.plan_job [OF wfw al]) (use keys in \<open>metis set_map\<close>, simp_all)
  ultimately have "wf_ocean (oc\<lparr>oc_workers := ?ws\<rparr>\<lparr>oc_jobs := mput (q_Name c) \<lparr>j_name = q_Name c,
      j_conf = ?conf, j_rawConf = confFromReq c, j_assignments = alloc, j_paused = False\<rparr>
      (oc_jobs (oc\<lparr>oc_workers := ?ws\<rparr>))\<rparr>)"
    by (intro set_job_wf) simp_all
  with started(4) ws show ?thesis by simp
qed

lemma start_job_ledger:
  assumes wf: "wf_ocean oc" and led: "ledger oc" and "start_job db c oc = (e, oc')"
  shows "ledger oc'"
  using assms(3)
proof (cases rule: start_job_cases)
  case refused
  with led show ?thesis by simp
next
  case (started alloc)
  let ?conf = "confWithEnv (confFromReq c) (envVars db (activeEnv db))"
  let ?f = "\<lambda>take w. push_command (startCommand (q_Name c) ?conf take) (take_slots take w)"
  let ?base = "map (\<lambda>(i, w). (i, forget (q_Name c) w)) (oc_workers oc)"
  note al = started(3)
  have wfw: "wf_map (oc_workers oc)" "wf_map (oc_jobs oc)" using wf by (auto dest: wf_oceanD)
  have ws: "fold (\<lambda>(i, take). madj i (?f take)) alloc ?base = mapply ?f alloc ?base"
    by (rule fold_madj_eq_mapply [OF pl.plan_wf [OF wfw(1) al]])
  show ?thesis
    unfolding ledger_def
  proof (intro allI impI)
    fix i w assume "map_of (oc_workers oc') i = Some w"
    then obtain w0 where w0: "map_of (oc_workers oc) i = Some w0"
      and w: "w_used w = w_used w0 + mget0 alloc i" "w_maxCap w = w_maxCap w0"
      using started(4) ws
      by (cases "map_of alloc i") (auto simp: map_of_mapply map_of_map_snd mget0_def)
    have "w_used w0 = held i (oc_jobs oc)" "w_used w0 \<le> max 0 (w_maxCap w0)"
      using ledgerD [OF led w0] by blast+
    moreover have "held i (oc_jobs oc') = held i (oc_jobs oc) + mget0 alloc i"
      using started(2,4) by (simp add: held_mput [OF wfw(2)])
    ultimately show "booked (oc_jobs oc') i w"
      using w pl.plan_fits [OF wfw(1) al w0] by (simp add: booked_def)
  qed
qed

section \<open>Stopping and pausing a test\<close>

lemma fold_assignments:
  assumes "wf_job ws n j"
  shows "fold (\<lambda>(i, take). madj i (f take)) (j_assignments j) ws = mapply f (j_assignments j) ws"
  using assms by (auto simp: wf_job_def intro: fold_madj_eq_mapply)

text \<open>A loop over a job's assignments that keeps ids and queues in bounds keeps the state.\<close>

lemma wf_ocean_assignments:
  assumes wf: "wf_ocean oc" and j: "map_of (oc_jobs oc) n = Some j"
    and f: "\<And>i take w. wf_worker i w \<Longrightarrow> 0 < take \<Longrightarrow> wf_worker i (f take w)"
  shows "wf_ocean (oc\<lparr>oc_workers := mapply f (j_assignments j) (oc_workers oc)\<rparr>)"
proof (rule wf_ocean_mapply [OF wf])
  fix i w
  assume w: "map_of (oc_workers oc) i = Some w"
  have "wf_job (oc_workers oc) n j" using wf j by (rule wf_oceanD)
  with w f [OF wf_oceanD(3) [OF wf w]] wf_oceanD(3) [OF wf w]
  show "wf_worker i (the (map_of (mapply f (j_assignments j) (oc_workers oc)) i))"
    by (auto simp: map_of_mapply wf_job_def split: option.splits)
qed simp

lemma stop_job_cases:
  assumes "wf_ocean oc" and "stop_job name oc = (e, oc')"
  obtains (missing) "e = Some not_found" and "oc' = oc" and "map_of (oc_jobs oc) name = None"
  | (stopped) j where "e = None" and "map_of (oc_jobs oc) name = Some j"
      and "oc' = oc\<lparr>oc_workers := mapply
             (\<lambda>take w. forget name (push_command (stopCommand name) (free_slots take w)))
             (j_assignments j) (oc_workers oc), oc_jobs := mdel name (oc_jobs oc)\<rparr>"
  using assms
  by (auto simp: stop_job_def Let_def fold_assignments [OF wf_oceanD(4) [OF assms(1)]]
      split: option.splits)

lemma stop_job_wf:
  assumes wf: "wf_ocean oc" and "stop_job name oc = (e, oc')"
  shows "wf_ocean oc'"
  using assms
proof (cases rule: stop_job_cases)
  case missing
  with wf show ?thesis by simp
next
  case (stopped j)
  have "wf_ocean (oc\<lparr>oc_workers := mapply
      (\<lambda>take w. forget name (push_command (stopCommand name) (free_slots take w)))
      (j_assignments j) (oc_workers oc)\<rparr>)"
    by (rule wf_ocean_assignments [OF wf stopped(2)]) (auto simp: wf_worker_def)
  from del_job_wf [OF this, of name] stopped(3) show ?thesis by simp
qed

lemma stop_job_ledger:
  assumes wf: "wf_ocean oc" and led: "ledger oc" and "stop_job name oc = (e, oc')"
  shows "ledger oc'"
  using assms(1,3)
proof (cases rule: stop_job_cases)
  case missing
  with led show ?thesis by simp
next
  case (stopped j)
  show ?thesis
    unfolding ledger_def
  proof (intro allI impI)
    fix i w assume "map_of (oc_workers oc') i = Some w"
    then obtain w0 where w0: "map_of (oc_workers oc) i = Some w0"
      and w: "w_maxCap w = w_maxCap w0"
        "w_used w = (case map_of (j_assignments j) i of None \<Rightarrow> w_used w0
                     | Some c \<Rightarrow> max 0 (w_used w0 - c))"
      using stopped(3) by (cases "map_of (j_assignments j) i") (auto simp: map_of_mapply)
    have b: "w_used w0 = held i (oc_jobs oc)" "w_used w0 \<le> max 0 (w_maxCap w0)"
      using ledgerD [OF led w0] by blast+
    have "mget0 (j_assignments j) i \<le> held i (oc_jobs oc)"
      by (rule held_ge_job [OF wf stopped(2)])
    moreover have "0 \<le> mget0 (j_assignments j) i"
      by (rule wf_job_mget0 [OF wf_oceanD(4) [OF wf stopped(2)]])
    moreover have "held i (oc_jobs oc') = held i (oc_jobs oc) - mget0 (j_assignments j) i"
      using stopped(2,3) by (simp add: held_mdel wf_oceanD(2) [OF wf])
    ultimately show "booked (oc_jobs oc') i w"
      using w b by (cases "map_of (j_assignments j) i") (auto simp: booked_def mget0_def)
  qed
qed

lemma pause_job_cases:
  assumes "wf_ocean oc" and "pause_job name oc = (e, oc')"
  obtains (missing) "e = Some not_found" and "oc' = oc" and "map_of (oc_jobs oc) name = None"
  | (paused) j where "e = None" and "map_of (oc_jobs oc) name = Some j"
      and "oc' = oc\<lparr>oc_workers := mapply (\<lambda>take w. forget name (push_command (stopCommand name) w))
             (j_assignments j) (oc_workers oc),
           oc_jobs := mput name (j\<lparr>j_paused := True\<rparr>) (oc_jobs oc)\<rparr>"
  using assms
  by (auto simp: pause_job_def Let_def fold_assignments [OF wf_oceanD(4) [OF assms(1)]]
      split: option.splits)

lemma pause_job_wf:
  assumes wf: "wf_ocean oc" and "pause_job name oc = (e, oc')"
  shows "wf_ocean oc'"
  using assms
proof (cases rule: pause_job_cases)
  case missing
  with wf show ?thesis by simp
next
  case (paused j)
  let ?ws = "mapply (\<lambda>take w. forget name (push_command (stopCommand name) w))
      (j_assignments j) (oc_workers oc)"
  have "wf_ocean (oc\<lparr>oc_workers := ?ws\<rparr>)"
    by (rule wf_ocean_assignments [OF wf paused(2)]) (auto simp: wf_worker_def)
  moreover have "wf_job ?ws name (j\<lparr>j_paused := True\<rparr>)"
    using wf_oceanD(4) [OF wf paused(2)] by (simp add: wf_job_def)
  ultimately have "wf_ocean (oc\<lparr>oc_workers := ?ws\<rparr>\<lparr>oc_jobs :=
      mput name (j\<lparr>j_paused := True\<rparr>) (oc_jobs (oc\<lparr>oc_workers := ?ws\<rparr>))\<rparr>)"
    by (intro set_job_wf) simp_all
  with paused(3) show ?thesis by simp
qed

lemma held_same_assignments:
  assumes "wf_map js" and "map_of js n = Some j" and "j_assignments j' = j_assignments j"
  shows "held i (mput n j' js) = held i js"
  using assms by (simp add: held_mput)

lemma pause_job_ledger:
  assumes wf: "wf_ocean oc" and led: "ledger oc" and "pause_job name oc = (e, oc')"
  shows "ledger oc'"
  using assms(1,3)
proof (cases rule: pause_job_cases)
  case missing
  with led show ?thesis by simp
next
  case (paused j)
  have "booked (oc_jobs oc') i w = booked (oc_jobs oc) i w" for i w
    using paused(2,3) by (simp add: booked_def held_same_assignments [OF wf_oceanD(2) [OF wf]])
  with led paused(3) show ?thesis
    by (auto simp: ledger_def map_of_mapply split: option.splits)
qed

section \<open>Resuming a test\<close>

lemma resume_plan_cases:
  assumes "wf_job ws n j" and wfw: "wf_map ws"
  obtains (kept) "resume_plan (j_assignments j) r ws = Inr (j_assignments j, ws)"
      and "\<not> (r > 0 \<and> r \<noteq> msum (\<lambda>c. c) (j_assignments j))"
  | (short) "resume_plan (j_assignments j) r ws =
        Inl (mapply (\<lambda>take w. take_slots take (free_slots take w)) (j_assignments j) ws)"
      and "r > 0" and "r \<noteq> msum (\<lambda>c. c) (j_assignments j)"
      and "allocate (mapply free_slots (j_assignments j) ws) r = None"
  | (moved) alloc where "resume_plan (j_assignments j) r ws =
        Inr (alloc, mapply take_slots alloc (mapply free_slots (j_assignments j) ws))"
      and "r > 0" and "allocate (mapply free_slots (j_assignments j) ws) r = Some alloc"
proof -
  have wf: "wf_map (j_assignments j)" using assms(1) by (simp add: wf_job_def)
  have rel: "release_held (j_assignments j) ws = mapply free_slots (j_assignments j) ws"
    unfolding release_held_def by (rule fold_madj_eq_mapply [OF wf])
  have res: "reserve al ws' = mapply take_slots al ws'" if "wf_map al" for al ws'
    unfolding reserve_def by (rule fold_madj_eq_mapply [OF that])
  show thesis
  proof (cases "r > 0 \<and> r \<noteq> msum (\<lambda>c. c) (j_assignments j)")
    case False
    then show thesis by (intro kept) (auto simp: resume_plan_def Let_def)
  next
    case True
    show thesis
    proof (cases "allocate (mapply free_slots (j_assignments j) ws) r")
      case None
      with True show thesis
        by (intro short) (auto simp: resume_plan_def Let_def rel res [OF wf] mapply_mapply)
    next
      case (Some alloc)
      then have "wf_map alloc" by (rule pl.plan_wf [rotated]) (simp add: wfw)
      with True Some show thesis
        by (intro moved) (auto simp: resume_plan_def Let_def rel res)
    qed
  qed
qed

lemma resume_job_cases:
  assumes "wf_ocean oc" and "resume_job db name oc = (e, oc')"
  obtains (missing) "e = Some not_found" and "oc' = oc" and "map_of (oc_jobs oc) name = None"
  | (refused) j ws where "e = Some \<lparr>Code = 503,
        Message = ''insufficient worker capacity for the edited concurrency''\<rparr>"
      and "map_of (oc_jobs oc) name = Some j"
      and "resume_plan (j_assignments j) (Concurrence (resume_conf db name j)) (oc_workers oc) = Inl ws"
      and "oc' = oc\<lparr>oc_workers := ws\<rparr>"
  | (resumed) j al ws where "e = None" and "map_of (oc_jobs oc) name = Some j"
      and "resume_plan (j_assignments j) (Concurrence (resume_conf db name j)) (oc_workers oc)
             = Inr (al, ws)"
      and "oc' = oc\<lparr>oc_workers := fold (\<lambda>(i, take). madj i (push_command (startCommand (j_name j)
             (confWithEnv (resume_conf db name j) (envVars db (activeEnv db))) take))) al ws,
           oc_jobs := mput name (j\<lparr>j_assignments := al,
             j_conf := confWithEnv (resume_conf db name j) (envVars db (activeEnv db)),
             j_rawConf := resume_conf db name j, j_paused := False\<rparr>) (oc_jobs oc)\<rparr>"
  using assms(2)
  by (auto simp: resume_job_def Let_def split: option.splits sum.splits prod.splits)

text \<open>With exact books the reservation of a job is there, so putting it back changes nothing.\<close>

lemma resume_refused_unchanged:
  assumes wf: "wf_ocean oc" and led: "ledger oc" and j: "map_of (oc_jobs oc) name = Some j"
    and "resume_plan (j_assignments j) r (oc_workers oc) = Inl ws"
  shows "ws = oc_workers oc"
proof -
  have wfw: "wf_map (oc_workers oc)" and wfj: "wf_job (oc_workers oc) name j"
    using wf j by (auto dest: wf_oceanD)
  have "take_slots c (free_slots c w) = w"
    if "map_of (j_assignments j) i = Some c" "(i, w) \<in> set (oc_workers oc)" for i c w
  proof (rule take_free_slots)
    have w: "map_of (oc_workers oc) i = Some w" using that(2) wfw by (simp add: wf_map_of)
    have "c = mget0 (j_assignments j) i" using that(1) by (simp add: mget0_def)
    also have "\<dots> \<le> held i (oc_jobs oc)" by (rule held_ge_job [OF wf j])
    finally show "c \<le> w_used w" using ledgerD [OF led w] by simp
  qed
  then have "mapply (\<lambda>take w. take_slots take (free_slots take w)) (j_assignments j) (oc_workers oc)
      = oc_workers oc"
    by (rule mapply_id)
  with assms(4) show ?thesis
    by (cases rule: resume_plan_cases [OF wfj wfw, of r]) auto
qed

text \<open>
  What a plan does to one worker: the old assignment is replaced by the new one, or, where
  the plan keeps the assignments, nothing happens.
\<close>

definition replanned ::
    "assignments \<Rightarrow> assignments \<Rightarrow> string \<Rightarrow> attached_worker \<Rightarrow> attached_worker \<Rightarrow> bool" where
  "replanned old new i w w' \<longleftrightarrow>
     w_id w' = w_id w \<and> w_send w' = w_send w \<and> w_maxCap w' = w_maxCap w \<and> 0 \<le> w_used w' \<and>
     (new = old \<and> w_used w' = w_used w \<or>
      w_used w' = max 0 (w_used w - mget0 old i) + mget0 new i \<and>
      (w_used w \<le> max 0 (w_maxCap w) \<longrightarrow> w_used w' \<le> max 0 (w_maxCap w)))"

definition good_plan :: "ocean \<Rightarrow> assignments \<Rightarrow> assignments \<Rightarrow> workers \<Rightarrow> bool" where
  "good_plan oc old al ws \<longleftrightarrow>
     map fst ws = map fst (oc_workers oc) \<and> wf_map al \<and>
     (\<forall>i c. map_of al i = Some c \<longrightarrow> 0 < c \<and> i \<in> mkeys (oc_workers oc)) \<and>
     (\<forall>i w'. map_of ws i = Some w' \<longrightarrow>
        (\<exists>w. map_of (oc_workers oc) i = Some w \<and> replanned old al i w w'))"

lemma replanned_moved:
  assumes wfr: "wf_map (mapply free_slots old ws)" and plan: "allocate (mapply free_slots old ws) r = Some al"
    and w: "map_of ws i = Some w" and pos: "0 \<le> w_used w" "0 \<le> mget0 old i" "0 \<le> mget0 al i"
  shows "\<exists>w'. map_of (mapply take_slots al (mapply free_slots old ws)) i = Some w' \<and> replanned old al i w w'"
proof -
  define v where "v = (case map_of old i of None \<Rightarrow> w | Some c \<Rightarrow> free_slots c w)"
  define w' where "w' = (case map_of al i of None \<Rightarrow> v | Some c \<Rightarrow> take_slots c v)"
  have v: "map_of (mapply free_slots old ws) i = Some v" using w by (simp add: map_of_mapply v_def)
  then have w': "map_of (mapply take_slots al (mapply free_slots old ws)) i = Some w'"
    by (simp add: map_of_mapply [of take_slots] w'_def)
  have vs: "w_id v = w_id w" "w_send v = w_send w" "w_maxCap v = w_maxCap w"
    "w_used v = max 0 (w_used w - mget0 old i)"
    using pos by (auto simp: v_def mget0_def split: option.splits)
  have ws': "w_id w' = w_id v" "w_send w' = w_send v" "w_maxCap w' = w_maxCap v"
    "w_used w' = w_used v + mget0 al i"
    by (auto simp: w'_def mget0_def split: option.splits)
  have "w_used w' \<le> max 0 (w_maxCap w)" if "w_used w \<le> max 0 (w_maxCap w)"
    using pl.plan_fits [OF wfr plan v] that pos vs ws' by simp
  with vs ws' pos have "replanned old al i w w'" by (auto simp: replanned_def)
  with w' show ?thesis by blast
qed

lemma resume_plan_good:
  assumes wf: "wf_ocean oc" and j: "map_of (oc_jobs oc) n = Some j"
    and plan: "resume_plan (j_assignments j) r (oc_workers oc) = Inr (al, ws)"
  shows "good_plan oc (j_assignments j) al ws"
proof -
  have wfw: "wf_map (oc_workers oc)" and wfj: "wf_job (oc_workers oc) n j"
    using wf j by (auto dest: wf_oceanD)
  have used: "0 \<le> w_used w" if "map_of (oc_workers oc) i = Some w" for i w
    using wf_oceanD(3) [OF wf that] by (simp add: wf_worker_def)
  show ?thesis
    using wfj wfw
  proof (cases rule: resume_plan_cases [where r = r])
    case kept
    with plan wfj used show ?thesis by (auto simp: good_plan_def replanned_def wf_job_def)
  next
    case short
    with plan show ?thesis by simp
  next
    case (moved alloc)
    let ?rel = "mapply free_slots (j_assignments j) (oc_workers oc)"
    have wfr: "wf_map ?rel" using wfw by simp
    have al: "al = alloc" "ws = mapply take_slots alloc ?rel" using moved(1) plan by auto
    have keys: "mkeys al \<subseteq> mkeys (oc_workers oc)"
      using pl.plan_keys [OF wfr moved(3)] by (simp add: al)
    have pos: "0 < c \<and> i \<in> mkeys (oc_workers oc)" if "map_of al i = Some c" for i c
      using pl.plan_bounds [OF wfr moved(3), of i c] that keys al(1) by (auto dest: mkeys_Some)
    have nonneg: "0 \<le> mget0 al i" "0 \<le> mget0 (j_assignments j) i" for i
      using pos wf_job_mget0 [OF wfj] by (auto simp: mget0_def less_imp_le split: option.splits)
    have worker: "\<exists>w. map_of (oc_workers oc) i = Some w \<and> replanned (j_assignments j) al i w w'"
      if w': "map_of ws i = Some w'" for i w'
    proof -
      have "i \<in> mkeys (oc_workers oc)" using mkeys_Some [OF w'] al(2) by simp
      then obtain w where w: "map_of (oc_workers oc) i = Some w" using mkeys_obtain by metis
      from replanned_moved [OF wfr moved(3) w used [OF w] nonneg(2)] nonneg(1) w w'
      show ?thesis by (auto simp: al)
    qed
    have "map fst ws = map fst (oc_workers oc)" using al(2) by simp
    moreover have "wf_map al" using pl.plan_wf [OF wfr moved(3)] al(1) by simp
    ultimately show ?thesis unfolding good_plan_def using pos worker by blast
  qed
qed

lemma resume_job_wf:
  assumes wf: "wf_ocean oc" and led: "resume_job db name oc = (e, oc')"
  shows "wf_ocean oc'"
  using assms
proof (cases rule: resume_job_cases)
  case missing
  with wf show ?thesis by simp
next
  case (refused j ws)
  have wfw: "wf_map (oc_workers oc)" and wfj: "wf_job (oc_workers oc) name j"
    using wf refused(2) by (auto dest: wf_oceanD)
  let ?ws = "mapply (\<lambda>take w. take_slots take (free_slots take w)) (j_assignments j) (oc_workers oc)"
  have "ws = ?ws" using wfj wfw
    by (cases rule: resume_plan_cases [where r = "Concurrence (resume_conf db name j)"])
      (use refused(3) in auto)
  moreover have "wf_ocean (oc\<lparr>oc_workers := ?ws\<rparr>)"
    by (rule wf_ocean_assignments [OF wf refused(2)]) (auto simp: wf_worker_def)
  ultimately show ?thesis using refused(4) by simp
next
  case (resumed j al ws)
  let ?cmd = "\<lambda>take. push_command (startCommand (j_name j)
      (confWithEnv (resume_conf db name j) (envVars db (activeEnv db))) take)"
  let ?j = "j\<lparr>j_assignments := al, j_conf := confWithEnv (resume_conf db name j) (envVars db (activeEnv db)),
      j_rawConf := resume_conf db name j, j_paused := False\<rparr>"
  note plan = resume_plan_good [OF wf resumed(2,3), unfolded good_plan_def]
  have wfa: "wf_map al" using plan by blast
  have ws: "fold (\<lambda>(i, take). madj i (?cmd take)) al ws = mapply ?cmd al ws"
    by (rule fold_madj_eq_mapply [OF wfa])
  have keys: "mkeys (mapply ?cmd al ws) = mkeys (oc_workers oc)"
    by (metis mkeys_mapply plan set_map)
  have "wf_worker i (the (map_of (mapply ?cmd al ws) i))"
    if old: "map_of (oc_workers oc) i = Some w" and new: "map_of (mapply ?cmd al ws) i \<noteq> None" for i w
  proof -
    from new obtain w' where w': "map_of ws i = Some w'" by (auto simp: map_of_mapply)
    with plan old have "replanned (j_assignments j) al i w w'" by force
    with wf_oceanD(3) [OF wf old] w' show ?thesis
      by (auto simp: map_of_mapply wf_worker_def replanned_def split: option.splits)
  qed
  then have "wf_ocean (oc\<lparr>oc_workers := mapply ?cmd al ws\<rparr>)"
    by (intro wf_ocean_mapply [OF wf]) (use plan in auto)
  moreover have "wf_job (mapply ?cmd al ws) name ?j"
    using plan keys wf_oceanD(4) [OF wf resumed(2)] by (auto simp: wf_job_def)
  ultimately have "wf_ocean (oc\<lparr>oc_workers := mapply ?cmd al ws\<rparr>\<lparr>oc_jobs :=
      mput name ?j (oc_jobs (oc\<lparr>oc_workers := mapply ?cmd al ws\<rparr>))\<rparr>)"
    by (intro set_job_wf) simp_all
  with resumed(4) ws show ?thesis by simp
qed

lemma resume_job_ledger:
  assumes wf: "wf_ocean oc" and led: "ledger oc" and "resume_job db name oc = (e, oc')"
  shows "ledger oc'"
  using assms(1,3)
proof (cases rule: resume_job_cases)
  case missing
  with led show ?thesis by simp
next
  case (refused j ws)
  then show ?thesis
    using led resume_refused_unchanged [OF wf led refused(2,3)] by simp
next
  case (resumed j al ws)
  let ?cmd = "\<lambda>take. push_command (startCommand (j_name j)
      (confWithEnv (resume_conf db name j) (envVars db (activeEnv db))) take)"
  note plan = resume_plan_good [OF wf resumed(2,3), unfolded good_plan_def]
  have wfa: "wf_map al" using plan by blast
  have ws: "fold (\<lambda>(i, take). madj i (?cmd take)) al ws = mapply ?cmd al ws"
    by (rule fold_madj_eq_mapply [OF wfa])
  show ?thesis
    unfolding ledger_def
  proof (intro allI impI)
    fix i w assume "map_of (oc_workers oc') i = Some w"
    then obtain w' where w': "map_of ws i = Some w'" and same: "w_used w = w_used w'" "w_maxCap w = w_maxCap w'"
      using resumed(4) ws by (cases "map_of al i") (auto simp: map_of_mapply)
    from plan w' obtain v where v: "map_of (oc_workers oc) i = Some v"
      and r: "replanned (j_assignments j) al i v w'" by blast
    have b: "w_used v = held i (oc_jobs oc)" "w_used v \<le> max 0 (w_maxCap v)"
      using ledgerD [OF led v] by blast+
    have "mget0 (j_assignments j) i \<le> held i (oc_jobs oc)"
      by (rule held_ge_job [OF wf resumed(2)])
    moreover have "held i (oc_jobs oc') =
        held i (oc_jobs oc) - mget0 (j_assignments j) i + mget0 al i"
      using resumed(2,4) by (simp add: held_mput wf_oceanD(2) [OF wf])
    ultimately show "booked (oc_jobs oc') i w"
      using r b same by (auto simp: booked_def replanned_def)
  qed
qed

end
