(* ===== verification/OceanRun.thy ===== *)
theory OceanRun
  imports OceanInv
begin

text \<open>
  The runs of an ocean: which states its operations can lead to, in any interleaving (each
  operation holds the mutex for its whole critical section). The parameter says whether a
  worker id may register while it is still attached; the code allows it.
\<close>

section \<open>Steps\<close>

text \<open>The ocean New builds, before its servers start.\<close>

definition ocean_init :: "ocean \<Rightarrow> bool" where
  "ocean_init oc \<longleftrightarrow> oc_workers oc = [] \<and> oc_jobs oc = []"

text \<open>The worker Attach builds from a Register message (its limit is an int32).\<close>

definition fresh_worker :: "attached_worker \<Rightarrow> bool" where
  "fresh_worker w \<longleftrightarrow>
     w_used w = 0 \<and> w_send w = [] \<and> w_metrics w = [] \<and> w_samples w = [] \<and> w_maxCap w < 2 ^ 31"

text \<open>The sender goroutine takes the next command off the channel.\<close>

definition drain :: "string \<Rightarrow> ocean \<Rightarrow> ocean" where
  "drain i oc = oc\<lparr>oc_workers := madj i (\<lambda>w. w\<lparr>w_send := tl (w_send w)\<rparr>) (oc_workers oc)\<rparr>"

inductive ocean_step :: "bool \<Rightarrow> ocean \<Rightarrow> ocean \<Rightarrow> bool" for reattach :: bool where
  attach: "fresh_worker w \<Longrightarrow> w_id w \<in> mkeys (oc_workers oc) \<longrightarrow> reattach \<Longrightarrow>
    addWorker w oc = (ok, oc') \<Longrightarrow> ocean_step reattach oc oc'"
| detach: "ocean_step reattach oc (removeWorker i oc)"
| report: "ocean_step reattach oc (onReport i m oc)"
| sample: "ocean_step reattach oc (onSample i jb s oc)"
| drained: "ocean_step reattach oc (drain i oc)"
| start: "start_job db c oc = (e, oc') \<Longrightarrow> ocean_step reattach oc oc'"
| stop: "stop_job n oc = (e, oc') \<Longrightarrow> ocean_step reattach oc oc'"
| pause: "pause_job n oc = (e, oc') \<Longrightarrow> ocean_step reattach oc oc'"
| resume: "resume_job db n oc = (e, oc') \<Longrightarrow> ocean_step reattach oc oc'"
| reorder: "mset ws = mset (oc_workers oc) \<Longrightarrow> mset js = mset (oc_jobs oc) \<Longrightarrow>
    ocean_step reattach oc (oc\<lparr>oc_workers := ws, oc_jobs := js\<rparr>)"

lemma wf_worker_tl: "wf_worker i w \<Longrightarrow> wf_worker i (w\<lparr>w_send := tl (w_send w)\<rparr>)"
  by (auto simp: wf_worker_def)

lemma drain_wf: "wf_ocean oc \<Longrightarrow> wf_ocean (drain i oc)"
  by (auto simp: drain_def wf_ocean_def map_of_madj wf_job_def intro!: wf_worker_tl split: if_splits)

lemma booked_send [simp]: "booked js i (w\<lparr>w_send := q\<rparr>) = booked js i w"
  by (simp add: booked_def)

lemma drain_ledger: "ledger oc \<Longrightarrow> ledger (drain i oc)"
  by (auto simp: drain_def ledger_def map_of_madj)

lemma reorder_wf:
  assumes "wf_ocean oc" and "mset ws = mset (oc_workers oc)" and "mset js = mset (oc_jobs oc)"
  shows "wf_ocean (oc\<lparr>oc_workers := ws, oc_jobs := js\<rparr>)"
proof -
  have "wf_map (oc_workers oc)" "wf_map (oc_jobs oc)" using assms(1) by (auto dest: wf_oceanD)
  then have "map_of ws = map_of (oc_workers oc)" "map_of js = map_of (oc_jobs oc)"
    "wf_map ws" "wf_map js"
    using map_of_mset_eq assms(2,3) wf_mset_eq [OF assms(2)] wf_mset_eq [OF assms(3)] by blast+
  moreover have "mkeys ws = mkeys (oc_workers oc)" "length ws = length (oc_workers oc)"
    by (rule mkeys_mset_eq [OF assms(2)], rule mset_eq_length [OF assms(2)])
  ultimately show ?thesis using assms(1) by (simp add: wf_ocean_def wf_job_def)
qed

lemma reorder_ledger:
  assumes "wf_ocean oc" and "ledger oc"
    and "mset ws = mset (oc_workers oc)" and "mset js = mset (oc_jobs oc)"
  shows "ledger (oc\<lparr>oc_workers := ws, oc_jobs := js\<rparr>)"
proof -
  have "map_of ws = map_of (oc_workers oc)"
    using assms wf_oceanD(1) map_of_mset_eq by blast
  moreover have "booked js i w = booked (oc_jobs oc) i w" for i w
    using msum_mset_eq [OF assms(4)] by (simp add: booked_def held_def)
  ultimately show ?thesis using assms(2) by (simp add: ledger_def)
qed

lemma fresh_worker_wf: "fresh_worker w \<Longrightarrow> wf_worker (w_id w) w"
  by (simp add: fresh_worker_def wf_worker_def)

lemma ocean_step_wf: "ocean_step r oc oc' \<Longrightarrow> wf_ocean oc \<Longrightarrow> wf_ocean oc'"
  by (induction rule: ocean_step.induct)
    (auto intro: addWorker_wf fresh_worker_wf removeWorker_wf onReport_wf onSample_wf drain_wf
      start_job_wf stop_job_wf pause_job_wf resume_job_wf reorder_wf)

lemma ocean_step_ledger: "ocean_step False oc oc' \<Longrightarrow> wf_ocean oc \<Longrightarrow> ledger oc \<Longrightarrow> ledger oc'"
proof (induction rule: ocean_step.induct)
  case (attach w oc ok oc')
  then show ?case by (intro addWorker_ledger [OF attach.prems]) (auto simp: fresh_worker_def)
qed (auto intro: removeWorker_ledger onReport_ledger onSample_ledger drain_ledger
    start_job_ledger stop_job_ledger pause_job_ledger resume_job_ledger reorder_ledger)

lemma ocean_init_wf: "ocean_init oc \<Longrightarrow> wf_ocean oc"
  by (simp add: ocean_init_def wf_ocean_def)

interpretation anyrun: machine ocean_init "ocean_step r" wf_ocean
  by unfold_locales (auto intro: ocean_init_wf ocean_step_wf)

interpretation tidy: machine ocean_init "ocean_step False" "\<lambda>oc. wf_ocean oc \<and> ledger oc"
proof unfold_locales
  show "wf_ocean oc \<and> ledger oc" if "ocean_init oc" for oc
    using that ocean_init_wf [OF that] by (simp add: ocean_init_def ledger_def)
  show "wf_ocean t \<and> ledger t" if "wf_ocean s \<and> ledger s" "ocean_step False s t" for s t
    using that ocean_step_wf ocean_step_ledger by blast
qed

end
