(* ===== verification/OceanProps.thy ===== *)
theory OceanProps
  imports OceanRun
begin

text \<open>
  What the scheduler guarantees, as properties of its operations and of its runs, each
  with an application to one small fleet. The helper lemmas state the same facts in the
  form the proofs of other components use.
\<close>

section \<open>A small run\<close>

text \<open>Two workers attach, a test of concurrency 5 starts, pauses and resumes.\<close>

definition run_init :: ocean where
  "run_init =
     \<lparr>oc_id = ''ocean-0'', oc_name = ''ocean'', oc_maxConnections = 2, oc_workers = [], oc_jobs = [],
      oc_discovery = False, oc_advertiseGRPC = ''10.0.0.1:8050'', oc_httpAddr = ''0.0.0.0:8080'',
      oc_auth_token = []\<rparr>"

definition run_worker :: "string \<Rightarrow> int \<Rightarrow> attached_worker" where
  "run_worker i cap =
     \<lparr>w_id = i, w_name = i, w_ip = [], w_maxCap = cap, w_used = 0, w_send = [], w_metrics = [],
      w_samples = []\<rparr>"

definition run_conf :: "string \<Rightarrow> int \<Rightarrow> cmd_conf" where
  "run_conf n c = zero_cmd_conf\<lparr>q_Name := n, q_URL := ''http://t/'', q_Concurrence := c\<rparr>"

definition run_attached :: ocean where
  "run_attached = snd (addWorker (run_worker ''b'' 4) (snd (addWorker (run_worker ''a'' 2) run_init)))"

definition run_started :: ocean where
  "run_started = snd (start_job empty_store (run_conf ''t'' 5) run_attached)"

definition run_paused :: ocean where
  "run_paused = snd (pause_job ''t'' run_started)"

lemmas run_defs = run_init_def run_worker_def run_conf_def run_attached_def run_started_def
  run_paused_def

text \<open>The steps as functions, to build a run forwards.\<close>

lemma reach_attach:
  "reach ocean_init (ocean_step r) oc \<Longrightarrow> fresh_worker w \<Longrightarrow>
   w_id w \<in> mkeys (oc_workers oc) \<longrightarrow> r \<Longrightarrow> reach ocean_init (ocean_step r) (snd (addWorker w oc))"
  by (erule reach_step) (rule ocean_step.attach [OF _ _ prod.collapse [symmetric]])

lemma reach_start:
  "reach ocean_init (ocean_step r) oc \<Longrightarrow> reach ocean_init (ocean_step r) (snd (start_job db c oc))"
  by (erule reach_step) (rule ocean_step.start [OF prod.collapse [symmetric]])

lemma reach_pause:
  "reach ocean_init (ocean_step r) oc \<Longrightarrow> reach ocean_init (ocean_step r) (snd (pause_job n oc))"
  by (erule reach_step) (rule ocean_step.pause [OF prod.collapse [symmetric]])

lemma reach_resume:
  "reach ocean_init (ocean_step r) oc \<Longrightarrow> reach ocean_init (ocean_step r) (snd (resume_job db n oc))"
  by (erule reach_step) (rule ocean_step.resume [OF prod.collapse [symmetric]])

lemma run_worker_fresh: "c < 2 ^ 31 \<Longrightarrow> fresh_worker (run_worker i c)"
  by (simp add: fresh_worker_def run_worker_def)

lemma run_attached_reach: "reach ocean_init (ocean_step False) run_attached"
  unfolding run_attached_def
  by (intro reach_attach reach_init run_worker_fresh)
    (simp_all add: ocean_init_def run_defs addWorker_def mput_def)

lemma run_started_reach: "reach ocean_init (ocean_step False) run_started"
  unfolding run_started_def by (intro reach_start run_attached_reach)

lemma run_paused_reach: "reach ocean_init (ocean_step False) run_paused"
  unfolding run_paused_def by (intro reach_pause run_started_reach)

lemma tidy_ok: "reach ocean_init (ocean_step False) oc \<Longrightarrow> wf_ocean oc \<and> ledger oc"
  by (rule tidy.reach_inv)

lemmas run_started_ok = tidy_ok [OF run_started_reach]
lemmas run_paused_ok = tidy_ok [OF run_paused_reach]
lemmas run_attached_ok = tidy_ok [OF run_attached_reach]

section \<open>Allocation\<close>

text \<open>C6: allocate covers the request exactly whenever the fleet can, refuses only when it
  cannot, and balances: every worker gets the same amount, give or take one, unless its
  free capacity is smaller, and never more than that capacity.\<close>

theorem allocate_sound_complete_balanced:
  assumes "wf_map ws"
  shows "(allocate ws r = None \<longleftrightarrow> msum free_cap ws < r) \<and>
    (\<forall>al. allocate ws r = Some al \<longrightarrow>
       wf_map al \<and> mkeys al \<subseteq> mkeys ws \<and> msum (\<lambda>c. c) al = max 0 r \<and>
       (\<exists>m\<ge>0. \<forall>i w. map_of ws i = Some w \<longrightarrow>
          min m (free_cap w) \<le> mget0 al i \<and> mget0 al i \<le> min (m + 1) (free_cap w)))"
  using allocate_None_iff [OF assms] allocate_fair_plan [OF assms] unfolding fair_plan_def by blast

theorem allocate_sound_complete_balanced_witness:
  "wf_map (oc_workers run_attached) \<and> msum free_cap (oc_workers run_attached) = 6 \<and>
   allocate (oc_workers run_attached) 5 = Some [(''a'', 2), (''b'', 3)] \<and>
   allocate (oc_workers run_attached) 7 = None"
proof -
  have wf: "wf_map (oc_workers run_attached)" by code_simp
  have total: "msum free_cap (oc_workers run_attached) = 6" by code_simp
  have "allocate (oc_workers run_attached) 7 = None"
    using allocate_sound_complete_balanced [OF wf, of 7] total by simp
  moreover have "allocate (oc_workers run_attached) 5 = Some [(''a'', 2), (''b'', 3)]" by code_simp
  ultimately show ?thesis using wf total by blast
qed

text \<open>The plan does not depend on the order in which Go iterates the map of workers.\<close>

theorem allocate_order_independent:
  assumes "wf_map ws" and "mset ws' = mset ws"
  shows "allocate ws' r = allocate ws r"
  using assms by (rule allocate_iteration_order)

theorem allocate_order_independent_witness:
  "allocate (rev (oc_workers run_attached)) 5 = Some [(''a'', 2), (''b'', 3)]"
proof -
  have wf: "wf_map (oc_workers run_attached)" by code_simp
  have "allocate (oc_workers run_attached) 5 = Some [(''a'', 2), (''b'', 3)]" by code_simp
  then show ?thesis
    using allocate_order_independent [OF wf, of "rev (oc_workers run_attached)" 5] by simp
qed

section \<open>Runs\<close>

text \<open>C1: in every run in which no attached worker id registers a second time, under any
  interleaving of the handlers and the streams, what a worker has reserved is exactly what
  the jobs hold on it, and that never exceeds its capacity.\<close>

theorem never_overcommitted:
  assumes "reach ocean_init (ocean_step False) oc" and "map_of (oc_workers oc) i = Some w"
  shows "w_used w = held i (oc_jobs oc) \<and> held i (oc_jobs oc) \<le> max 0 (w_maxCap w)"
  using ledgerD [OF _ assms(2)] tidy_ok [OF assms(1)] by auto

theorem never_overcommitted_witness:
  "\<exists>w. map_of (oc_workers run_started) ''b'' = Some w \<and> w_maxCap w = 4 \<and>
     w_used w = 3 \<and> held ''b'' (oc_jobs run_started) = 3"
proof -
  have "map_option (\<lambda>w. (w_maxCap w, w_used w)) (map_of (oc_workers run_started) ''b'') = Some (4, 3)"
    by code_simp
  then obtain w where "map_of (oc_workers run_started) ''b'' = Some w" "w_maxCap w = 4" "w_used w = 3"
    by auto
  with never_overcommitted [OF run_started_reach this(1)] show ?thesis by auto
qed

text \<open>The connection limit, the queues of 32 commands, and the shape of the books hold in
  every run, even when ids register twice: reservations are not negative, and a job holds
  positive shares of attached workers only.\<close>

theorem limits_in_every_run:
  assumes "reach ocean_init (ocean_step r) oc"
  shows "(0 < oc_maxConnections oc \<longrightarrow> int (length (oc_workers oc)) \<le> oc_maxConnections oc) \<and>
    (\<forall>i w. map_of (oc_workers oc) i = Some w \<longrightarrow>
       w_id w = i \<and> 0 \<le> w_used w \<and> length (w_send w) \<le> 32) \<and>
    (\<forall>n j i c. map_of (oc_jobs oc) n = Some j \<longrightarrow> map_of (j_assignments j) i = Some c \<longrightarrow>
       j_name j = n \<and> 0 < c \<and> map_of (oc_workers oc) i \<noteq> None)"
proof -
  have wf: "wf_ocean oc" using assms by (rule anyrun.reach_inv)
  have "0 < oc_maxConnections oc \<longrightarrow> int (length (oc_workers oc)) \<le> oc_maxConnections oc"
    using wf by (simp add: wf_ocean_def)
  moreover have "w_id w = i \<and> 0 \<le> w_used w \<and> length (w_send w) \<le> 32"
    if "map_of (oc_workers oc) i = Some w" for i w
    using wf_oceanD(3) [OF wf that] by (simp add: wf_worker_def send_capacity_def)
  moreover have "j_name j = n \<and> 0 < c \<and> map_of (oc_workers oc) i \<noteq> None"
    if "map_of (oc_jobs oc) n = Some j" "map_of (j_assignments j) i = Some c" for n j i c
    using wf_oceanD(4) [OF wf that(1)] that(2) by (simp add: wf_job_def map_of_None_iff)
  ultimately show ?thesis by blast
qed

theorem limits_in_every_run_witness:
  "int (length (oc_workers run_started)) \<le> 2 \<and>
   map_option (\<lambda>w. length (w_send w) \<le> 32) (map_of (oc_workers run_started) ''b'') = Some True"
proof -
  have limit: "oc_maxConnections run_started = 2" by code_simp
  note all = limits_in_every_run [OF run_started_reach, unfolded limit]
  have "map_option w_used (map_of (oc_workers run_started) ''b'') = Some 3" by code_simp
  then obtain w where "map_of (oc_workers run_started) ''b'' = Some w" by blast
  with conjunct1 [OF all] conjunct1 [OF conjunct2 [OF all]] show ?thesis by simp
qed

text \<open>Two registrations of one id, each followed by a test.\<close>

definition run_reattached :: ocean where
  "run_reattached =
     (let oc = snd (addWorker (run_worker ''a'' 2) (run_init\<lparr>oc_maxConnections := 0\<rparr>));
          oc = snd (start_job empty_store (run_conf ''t'' 2) oc);
          oc = snd (addWorker (run_worker ''a'' 2) oc)
      in snd (start_job empty_store (run_conf ''u'' 2) oc))"

lemma run_reattached_reach: "reach ocean_init (ocean_step True) run_reattached"
  unfolding run_reattached_def Let_def
  by (intro reach_attach reach_start reach_init run_worker_fresh)
    (simp_all add: ocean_init_def run_init_def)

text \<open>A worker id that registers again while it is attached starts with a fresh
  reservation although the jobs still hold their shares, so the fleet can be booked beyond
  its capacity: here twice over.\<close>

theorem reattach_overcommits:
  "\<exists>oc w. reach ocean_init (ocean_step True) oc \<and> map_of (oc_workers oc) ''a'' = Some w \<and>
     w_maxCap w = 2 \<and> w_used w = 2 \<and> held ''a'' (oc_jobs oc) = 4"
proof -
  have "map_option (\<lambda>w. (w_maxCap w, w_used w)) (map_of (oc_workers run_reattached) ''a'') = Some (2, 2)"
    by code_simp
  then obtain w where "map_of (oc_workers run_reattached) ''a'' = Some w" "w_maxCap w = 2" "w_used w = 2"
    by auto
  moreover have "held ''a'' (oc_jobs run_reattached) = 4" by code_simp
  ultimately show ?thesis using run_reattached_reach by blast
qed

section \<open>Operations\<close>

text \<open>The three operations that change every worker of an assignment, one worker at a time.\<close>

lemma start_job_worker:
  assumes "wf_ocean oc" and "start_job db c oc = (None, oc')"
    and "allocate (oc_workers oc) (q_Concurrence c) = Some al"
  shows "map_of (oc_workers oc') i = map_option (\<lambda>w.
      case map_of al i of None \<Rightarrow> forget (q_Name c) w
      | Some n \<Rightarrow> push_command (startCommand (q_Name c)
          (confWithEnv (confFromReq c) (envVars db (activeEnv db))) n)
          (take_slots n (forget (q_Name c) w))) (map_of (oc_workers oc) i)"
  using assms(2)
proof (cases rule: start_job_cases)
  case refused
  then show ?thesis by simp
next
  case (started alloc)
  then have al: "alloc = al" using assms(3) by simp
  let ?f = "\<lambda>n w. push_command (startCommand (q_Name c)
      (confWithEnv (confFromReq c) (envVars db (activeEnv db))) n) (take_slots n w)"
  have "oc_workers oc' = mapply ?f al (map (\<lambda>(i, w). (i, forget (q_Name c) w)) (oc_workers oc))"
    using started(4) fold_madj_eq_mapply [OF pl.plan_wf [OF wf_oceanD(1) [OF assms(1)] assms(3)], of ?f]
    by (simp add: al)
  then show ?thesis by (simp add: map_of_mapply map_of_map_snd option.map_comp comp_def)
qed

lemma stop_job_worker:
  assumes "wf_ocean oc" and "stop_job n oc = (e, oc')"
    and "map_option j_assignments (map_of (oc_jobs oc) n) = Some al"
  shows "map_of (oc_workers oc') i = map_option (\<lambda>w.
      case map_of al i of None \<Rightarrow> w
      | Some c \<Rightarrow> forget n (push_command (stopCommand n) (free_slots c w))) (map_of (oc_workers oc) i)"
  using assms(1,2) by (cases rule: stop_job_cases) (use assms(3) in \<open>auto simp: map_of_mapply\<close>)

lemma share_int32:
  assumes "wf_ocean oc" and "allocate (oc_workers oc) r = Some al" and "map_of al i = Some n"
  shows "to_int32 n = n"
proof -
  obtain w where w: "map_of (oc_workers oc) i = Some w" "0 < n" "n \<le> free_cap w"
    using allocate_bounds [OF wf_oceanD(1) [OF assms(1)] assms(2,3)] by blast
  have "0 \<le> w_used w" "w_maxCap w < 2 ^ 31"
    using wf_oceanD(3) [OF assms(1) w(1)] by (simp_all add: wf_worker_def)
  then have "free_cap w < 2 ^ 31" by (auto simp: free_cap_def Let_def)
  with w(2,3) show ?thesis by (intro to_int32_id) simp_all
qed

text \<open>C15: Start refuses a name in use (409) and a request beyond the free capacity (503),
  changing nothing; otherwise it books every worker's share, forgets what a previous run of
  the name left behind, pushes to exactly the workers of the plan one START command that
  carries the share undamaged by its int32 field, and records the job with the
  configuration sent and the raw one.\<close>

theorem start_job_spec:
  assumes wf: "wf_ocean oc" and step: "start_job db c oc = (e, oc')"
  defines "conf \<equiv> confWithEnv (confFromReq c) (envVars db (activeEnv db))"
  shows "if map_of (oc_jobs oc) (q_Name c) \<noteq> None then map_option Code e = Some 409 \<and> oc' = oc
    else if msum free_cap (oc_workers oc) < q_Concurrence c then map_option Code e = Some 503 \<and> oc' = oc
    else \<exists>al. e = None \<and> allocate (oc_workers oc) (q_Concurrence c) = Some al \<and>
      map_of (oc_jobs oc') = (map_of (oc_jobs oc))(q_Name c \<mapsto>
        \<lparr>j_name = q_Name c, j_conf = conf, j_rawConf = confFromReq c, j_assignments = al, j_paused = False\<rparr>) \<and>
      (\<forall>i w. map_of (oc_workers oc) i = Some w \<longrightarrow>
        (\<exists>w'. map_of (oc_workers oc') i = Some w' \<and>
          w_used w' = w_used w + mget0 al i \<and>
          w_metrics w' = mdel (q_Name c) (w_metrics w) \<and> w_samples w' = mdel (q_Name c) (w_samples w) \<and>
          (case map_of al i of
             None \<Rightarrow> w_send w' = w_send w
           | Some n \<Rightarrow> to_int32 n = n \<and>
               (length (w_send w) < 32 \<longrightarrow>
                  w_send w' = w_send w @ [startCommand (q_Name c) conf n]))))"
proof -
  consider (used) "map_of (oc_jobs oc) (q_Name c) \<noteq> None"
    | (short) "map_of (oc_jobs oc) (q_Name c) = None" "allocate (oc_workers oc) (q_Concurrence c) = None"
    | (ok) al where "map_of (oc_jobs oc) (q_Name c) = None"
        "allocate (oc_workers oc) (q_Concurrence c) = Some al" by fastforce
  then show ?thesis
  proof cases
    case used
    with step show ?thesis by (auto simp: start_job_def Let_def)
  next
    case short
    with step allocate_None_iff [OF wf_oceanD(1) [OF wf]] show ?thesis
      by (auto simp: start_job_def Let_def)
  next
    case (ok al)
    have e: "e = None" using step ok by (auto simp: start_job_def Let_def)
    have jobs: "map_of (oc_jobs oc') = (map_of (oc_jobs oc))(q_Name c \<mapsto>
        \<lparr>j_name = q_Name c, j_conf = conf, j_rawConf = confFromReq c, j_assignments = al, j_paused = False\<rparr>)"
      using step ok by (auto simp: start_job_def Let_def conf_def)
    note w = start_job_worker [OF wf step [unfolded e] ok(2), folded conf_def]
    have "\<not> msum free_cap (oc_workers oc) < q_Concurrence c"
      using allocate_None_iff [OF wf_oceanD(1) [OF wf], of "q_Concurrence c"] ok(2) by simp
    moreover note share_int32 [OF wf ok(2)]
    ultimately show ?thesis
      using ok e jobs
      by (auto simp: w mget0_def push_command_def send_capacity_def forget_def take_slots_def
          split: option.splits)
  qed
qed

theorem start_job_spec_witness:
  "fst (start_job empty_store (run_conf ''t'' 5) run_attached) = None \<and>
   map_option Code (fst (start_job empty_store (run_conf ''u'' 7) run_attached)) = Some 503 \<and>
   map_option Code (fst (start_job empty_store (run_conf ''t'' 1) run_started)) = Some 409"
proof -
  have free: "msum free_cap (oc_workers run_attached) = 6" "map_of (oc_jobs run_attached) ''t'' = None"
    "map_of (oc_jobs run_attached) ''u'' = None" "map_option j_name (map_of (oc_jobs run_started) ''t'') = Some ''t''"
    by code_simp+
  have q: "q_Name (run_conf n x) = n" "q_Concurrence (run_conf n x) = x" for n x
    by (simp_all add: run_conf_def)
  note spec = start_job_spec [OF conjunct1 [OF run_attached_ok] prod.collapse [symmetric]]
  from spec [where db = empty_store and c = "run_conf ''t'' 5"] have "fst (start_job empty_store (run_conf ''t'' 5) run_attached) = None"
    by (auto simp: q free)
  moreover from spec [where db = empty_store and c = "run_conf ''u'' 7"]
  have "map_option Code (fst (start_job empty_store (run_conf ''u'' 7) run_attached)) = Some 503"
    by (simp add: q free)
  moreover from start_job_spec [OF conjunct1 [OF run_started_ok] prod.collapse [symmetric],
      where db = empty_store and c = "run_conf ''t'' 1"]
  have "map_option Code (fst (start_job empty_store (run_conf ''t'' 1) run_started)) = Some 409"
    using free(4) by (auto simp: q)
  ultimately show ?thesis by blast
qed

text \<open>C16: Stop answers 404 for a name that is not running; otherwise it removes the job, gives
  every worker of the assignment its share back (not below zero), forgets the worker's
  metric and sample of the test and queues the STOP command, leaving the other workers and
  the other jobs as they were.\<close>

theorem stop_job_spec:
  assumes wf: "wf_ocean oc" and step: "stop_job n oc = (e, oc')"
  shows "case map_of (oc_jobs oc) n of
      None \<Rightarrow> e = Some not_found \<and> oc' = oc
    | Some j \<Rightarrow> e = None \<and> map_of (oc_jobs oc') = (map_of (oc_jobs oc))(n := None) \<and>
        (\<forall>i w. map_of (oc_workers oc) i = Some w \<longrightarrow>
          (\<exists>w'. map_of (oc_workers oc') i = Some w' \<and>
            (case map_of (j_assignments j) i of
               None \<Rightarrow> w' = w
             | Some c \<Rightarrow> w_used w' = max 0 (w_used w - c) \<and>
                 w_metrics w' = mdel n (w_metrics w) \<and> w_samples w' = mdel n (w_samples w) \<and>
                 w_send w' = (if length (w_send w) < 32 then w_send w @ [stopCommand n] else w_send w))))"
  using wf step
proof (cases rule: stop_job_cases)
  case missing
  then show ?thesis by simp
next
  case (stopped j)
  then show ?thesis
    by (auto simp: map_of_mapply forget_def push_command_def send_capacity_def free_slots_def Let_def
        split: option.split)
qed

theorem stop_job_spec_witness:
  "map_option Code (fst (stop_job ''x'' run_started)) = Some 404 \<and>
   fst (stop_job ''t'' run_started) = None \<and> map_of (oc_jobs (snd (stop_job ''t'' run_started))) ''t'' = None"
proof -
  have jobs: "map_of (oc_jobs run_started) ''x'' = None"
    "map_option j_name (map_of (oc_jobs run_started) ''t'') = Some ''t''" by code_simp+
  note spec = stop_job_spec [OF conjunct1 [OF run_started_ok] prod.collapse [symmetric]]
  from spec [where n = "''x''"] spec [where n = "''t''"] jobs show ?thesis
    by (auto simp: not_found_def)
qed

text \<open>Stopping a test right after starting it gives every worker back exactly the
  reservation it had and every other job untouched.\<close>

theorem start_then_stop:
  assumes "wf_ocean oc" and "start_job db c oc = (None, oc1)" and "stop_job (q_Name c) oc1 = (e, oc2)"
  shows "e = None \<and> map_of (oc_jobs oc2) = map_of (oc_jobs oc) \<and>
    (\<forall>i. map_option w_used (map_of (oc_workers oc2) i) = map_option w_used (map_of (oc_workers oc) i))"
  using assms(2)
proof (cases rule: start_job_cases)
  case refused
  then show ?thesis by simp
next
  case (started al)
  have wf1: "wf_ocean oc1" using assms(1,2) by (rule start_job_wf)
  have j: "map_option j_assignments (map_of (oc_jobs oc1) (q_Name c)) = Some al"
    "(map_of (oc_jobs oc1))(q_Name c := None) = map_of (oc_jobs oc)"
    using started(2,4) by auto
  note w1 = start_job_worker [OF assms(1,2) started(3)]
  note w2 = stop_job_worker [OF wf1 assms(3) j(1)]
  have "map_option w_used (map_of (oc_workers oc2) i) = map_option w_used (map_of (oc_workers oc) i)" for i
    using wf_oceanD(3) [OF assms(1), of i]
    by (cases "map_of (oc_workers oc) i") (auto simp: w1 w2 wf_worker_def split: option.split)
  moreover have "e = None \<and> map_of (oc_jobs oc2) = map_of (oc_jobs oc)"
    using wf1 assms(3) by (cases rule: stop_job_cases) (use j in auto)
  ultimately show ?thesis by blast
qed

theorem start_then_stop_witness:
  "map_option w_used (map_of (oc_workers (snd (stop_job ''t'' run_started))) ''b'') = Some 0"
proof -
  have start: "start_job empty_store (run_conf ''t'' 5) run_attached = (None, run_started)"
    unfolding run_started_def by (rule prod_eqI) (simp, code_simp, simp)
  have "map_option w_used (map_of (oc_workers run_attached) ''b'') = Some 0" by code_simp
  with start_then_stop [OF conjunct1 [OF run_attached_ok] start prod.collapse [symmetric]]
  show ?thesis by (simp add: run_conf_def)
qed

text \<open>Pause answers 404 for a name that is not running; otherwise it queues STOP on the
  job's workers and forgets their statistics of the test, but keeps every reservation and
  every assignment, so no other test can take the slots.\<close>

theorem pause_job_spec:
  assumes wf: "wf_ocean oc" and step: "pause_job n oc = (e, oc')"
  shows "case map_of (oc_jobs oc) n of
      None \<Rightarrow> e = Some not_found \<and> oc' = oc
    | Some j \<Rightarrow> e = None \<and> map_of (oc_jobs oc') = (map_of (oc_jobs oc))(n \<mapsto> j\<lparr>j_paused := True\<rparr>) \<and>
        (\<forall>i w. map_of (oc_workers oc) i = Some w \<longrightarrow>
          (\<exists>w'. map_of (oc_workers oc') i = Some w' \<and> w_used w' = w_used w \<and>
            (case map_of (j_assignments j) i of
               None \<Rightarrow> w' = w
             | Some c \<Rightarrow> w_metrics w' = mdel n (w_metrics w) \<and> w_samples w' = mdel n (w_samples w) \<and>
                 w_send w' = (if length (w_send w) < 32 then w_send w @ [stopCommand n] else w_send w))))"
  using wf step
proof (cases rule: pause_job_cases)
  case missing
  then show ?thesis by simp
next
  case (paused j)
  then show ?thesis
    by (auto simp: map_of_mapply forget_def push_command_def send_capacity_def split: option.split)
qed

theorem pause_job_spec_witness:
  "map_option j_paused (map_of (oc_jobs run_paused) ''t'') = Some True \<and>
   map_option w_used (map_of (oc_workers run_paused) ''b'') = Some 3"
proof -
  obtain j where j: "map_of (oc_jobs run_started) ''t'' = Some j"
    by (cases "map_of (oc_jobs run_started) ''t''") (code_simp, blast)
  have "map_option w_used (map_of (oc_workers run_started) ''b'') = Some 3" by code_simp
  then obtain w where w: "map_of (oc_workers run_started) ''b'' = Some w" "w_used w = 3" by blast
  note spec = pause_job_spec [OF conjunct1 [OF run_started_ok] prod.collapse [symmetric], where n = "''t''",
      unfolded j option.case, folded run_paused_def]
  have "\<exists>w'. map_of (oc_workers run_paused) ''b'' = Some w' \<and> w_used w' = 3"
    using conjunct2 [OF conjunct2 [OF spec], rule_format, OF w(1)] w(2) by auto
  then show ?thesis using conjunct1 [OF conjunct2 [OF spec]] by auto
qed

text \<open>A Resume that is refused, for an unknown name or because the edited concurrency does
  not fit, leaves the whole state as it was; the release and the re-reservation cancel out.\<close>

theorem resume_refused_keeps_state:
  assumes "wf_ocean oc" and "ledger oc" and "resume_job db n oc = (Some err, oc')"
  shows "oc' = oc"
  using assms(1,3)
proof (cases rule: resume_job_cases)
  case (refused j ws)
  with resume_refused_unchanged [OF assms(1,2) refused(2,3)] show ?thesis by simp
qed simp_all

text \<open>A database with one saved test of the given name and concurrency.\<close>

definition run_db :: "int \<Rightarrow> store" where
  "run_db c = or_zero empty_store (SaveBookmark 1
     \<lparr>b_Name = ''t'', b_URL = ''http://t/'', b_Method = ''GET'', b_Concurrence = c, b_Body = [],
      b_Headers = [], b_Verbose = False, b_UpdatedAt = 0\<rparr> empty_store)"

theorem resume_refused_keeps_state_witness:
  "map_option Code (fst (resume_job (run_db 9) ''t'' run_paused)) = Some 503 \<and>
   snd (resume_job (run_db 9) ''t'' run_paused) = run_paused"
proof -
  have code: "map_option Code (fst (resume_job (run_db 9) ''t'' run_paused)) = Some 503" by code_simp
  then obtain err where "fst (resume_job (run_db 9) ''t'' run_paused) = Some err" by blast
  then have "resume_job (run_db 9) ''t'' run_paused = (Some err, snd (resume_job (run_db 9) ''t'' run_paused))"
    by (simp add: prod_eq_iff)
  with resume_refused_keeps_state [OF conjunct1 [OF run_paused_ok] conjunct2 [OF run_paused_ok]] code
  show ?thesis by blast
qed

lemma replanned_exact:
  assumes "replanned old new i w w'" and "mget0 old i \<le> w_used w"
  shows "w_used w' = w_used w - mget0 old i + mget0 new i" and "w_send w' = w_send w"
  using assms by (auto simp: replanned_def)

lemma resume_job_worker:
  assumes wf: "wf_ocean oc" and led: "ledger oc" and step: "resume_job db n oc = (None, oc')"
  obtains j al where "map_of (oc_jobs oc) n = Some j"
    and "map_of (oc_jobs oc') = (map_of (oc_jobs oc))(n \<mapsto> j\<lparr>j_assignments := al,
      j_conf := confWithEnv (resume_conf db n j) (envVars db (activeEnv db)),
      j_rawConf := resume_conf db n j, j_paused := False\<rparr>)"
    and "msum (\<lambda>c. c) al = (if Concurrence (resume_conf db n j) > 0 then Concurrence (resume_conf db n j)
      else msum (\<lambda>c. c) (j_assignments j))"
    and "\<And>i w. map_of (oc_workers oc) i = Some w \<Longrightarrow> \<exists>w'. map_of (oc_workers oc') i = Some w' \<and>
      w_used w' = w_used w - mget0 (j_assignments j) i + mget0 al i \<and>
      w_send w' = (case map_of al i of None \<Rightarrow> w_send w
        | Some c \<Rightarrow> if length (w_send w) < 32
            then w_send w @ [startCommand n (confWithEnv (resume_conf db n j) (envVars db (activeEnv db))) c]
            else w_send w)"
  using wf step
proof (cases rule: resume_job_cases)
  case (resumed j al ws)
  let ?raw = "resume_conf db n j"
  let ?cmd = "\<lambda>c. push_command (startCommand (j_name j) (confWithEnv ?raw (envVars db (activeEnv db))) c)"
  have wfw: "wf_map (oc_workers oc)" and wfj: "wf_job (oc_workers oc) n j"
    using wf resumed(2) by (auto dest: wf_oceanD)
  note plan = resume_plan_good [OF wf resumed(2,3), unfolded good_plan_def]
  have ws: "oc_workers oc' = mapply ?cmd al ws"
    using resumed(4) fold_madj_eq_mapply [of al ?cmd ws] plan by simp
  have total: "msum (\<lambda>c. c) al = (if Concurrence ?raw > 0 then Concurrence ?raw
      else msum (\<lambda>c. c) (j_assignments j))"
    using wfj wfw
  proof (cases rule: resume_plan_cases [where r = "Concurrence ?raw"])
    case kept
    with resumed(3) show ?thesis by auto
  next
    case short
    with resumed(3) show ?thesis by simp
  next
    case (moved alloc)
    with resumed(3) pl.plan_total [OF _ moved(3)] wfw show ?thesis by simp
  qed
  have "\<exists>w'. map_of (oc_workers oc') i = Some w' \<and>
      w_used w' = w_used w - mget0 (j_assignments j) i + mget0 al i \<and>
      w_send w' = (case map_of al i of None \<Rightarrow> w_send w
        | Some c \<Rightarrow> if length (w_send w) < 32
            then w_send w @ [startCommand n (confWithEnv ?raw (envVars db (activeEnv db))) c] else w_send w)"
    if w: "map_of (oc_workers oc) i = Some w" for i w
  proof -
    have "i \<in> mkeys ws" using mkeys_Some [OF w] plan by (metis set_map)
    then obtain v where v: "map_of ws i = Some v" using mkeys_obtain by metis
    then have r: "replanned (j_assignments j) al i w v" using plan w by fastforce
    have "mget0 (j_assignments j) i \<le> w_used w"
      using held_ge_job [OF wf resumed(2), of i] ledgerD [OF led w] by simp
    from replanned_exact [OF r this] v wfj show ?thesis
      by (simp add: ws map_of_mapply push_command_def send_capacity_def wf_job_def split: option.split)
  qed
  with resumed(2,4) total show thesis by (intro that [of j al]) simp_all
qed simp_all

text \<open>C17: a Resume that succeeds runs the job with the saved test's configuration (or its own),
  the active environment applied anew, at exactly the requested concurrency; every worker's
  reservation moves from its old share to its new one, and START is queued on exactly the
  workers of the new assignment, with their share.\<close>

theorem resume_job_spec:
  assumes wf: "wf_ocean oc" and led: "ledger oc" and step: "resume_job db n oc = (None, oc')"
  shows "\<exists>j al. map_of (oc_jobs oc) n = Some j \<and>
    (let raw = resume_conf db n j; conf = confWithEnv raw (envVars db (activeEnv db)) in
      map_of (oc_jobs oc') = (map_of (oc_jobs oc))(n \<mapsto>
        j\<lparr>j_assignments := al, j_conf := conf, j_rawConf := raw, j_paused := False\<rparr>) \<and>
      msum (\<lambda>c. c) al = (if Concurrence raw > 0 then Concurrence raw else msum (\<lambda>c. c) (j_assignments j)) \<and>
      (\<forall>i w. map_of (oc_workers oc) i = Some w \<longrightarrow>
        (\<exists>w'. map_of (oc_workers oc') i = Some w' \<and>
          w_used w' = w_used w - mget0 (j_assignments j) i + mget0 al i \<and>
          w_send w' = (case map_of al i of
             None \<Rightarrow> w_send w
           | Some c \<Rightarrow> if length (w_send w) < 32 then w_send w @ [startCommand n conf c] else w_send w))))"
proof -
  from wf led step obtain j al where found: "map_of (oc_jobs oc) n = Some j"
    and r: "map_of (oc_jobs oc') = (map_of (oc_jobs oc))(n \<mapsto> j\<lparr>j_assignments := al,
      j_conf := confWithEnv (resume_conf db n j) (envVars db (activeEnv db)),
      j_rawConf := resume_conf db n j, j_paused := False\<rparr>)"
    "msum (\<lambda>c. c) al = (if Concurrence (resume_conf db n j) > 0 then Concurrence (resume_conf db n j)
      else msum (\<lambda>c. c) (j_assignments j))"
    "\<forall>i w. map_of (oc_workers oc) i = Some w \<longrightarrow> (\<exists>w'. map_of (oc_workers oc') i = Some w' \<and>
      w_used w' = w_used w - mget0 (j_assignments j) i + mget0 al i \<and>
      w_send w' = (case map_of al i of None \<Rightarrow> w_send w
        | Some c \<Rightarrow> if length (w_send w) < 32
            then w_send w @ [startCommand n (confWithEnv (resume_conf db n j) (envVars db (activeEnv db))) c]
            else w_send w))"
    by (rule resume_job_worker) blast
  then show ?thesis unfolding Let_def by (intro exI [of _ j] exI [of _ al] conjI)
qed

theorem resume_job_spec_witness:
  "map_option (\<lambda>j. msum (\<lambda>c. c) (j_assignments j))
     (map_of (oc_jobs (snd (resume_job (run_db 6) ''t'' run_paused))) ''t'') = Some 6"
proof -
  have ok: "fst (resume_job (run_db 6) ''t'' run_paused) = None" by code_simp
  have raw: "resume_conf (run_db 6) ''t'' j = confFromBookmark
      \<lparr>b_Name = ''t'', b_URL = ''http://t/'', b_Method = ''GET'', b_Concurrence = 6, b_Body = [],
       b_Headers = [], b_Verbose = False, b_UpdatedAt = 1\<rparr>" for j
    unfolding resume_conf_def by code_simp
  have "resume_job (run_db 6) ''t'' run_paused = (None, snd (resume_job (run_db 6) ''t'' run_paused))"
    using ok by (simp add: prod_eq_iff)
  from resume_job_spec [OF conjunct1 [OF run_paused_ok] conjunct2 [OF run_paused_ok] this]
  show ?thesis by (auto simp: raw confFromBookmark_def Let_def)
qed

text \<open>Resume does not ask whether the job is paused. On a running job whose saved test
  asks for less, a worker that loses its share is told nothing: it keeps the load it was
  started with while its slots are given back.\<close>

theorem resume_running_strands_worker:
  "\<exists>oc w. reach ocean_init (ocean_step False) oc \<and> map_of (oc_workers oc) ''b'' = Some w \<and>
     w_used w = 0 \<and> held ''b'' (oc_jobs oc) = 0 \<and>
     w_send w = [startCommand ''t'' (confFromReq (run_conf ''t'' 5)) 3]"
proof -
  let ?oc = "snd (resume_job (run_db 1) ''t'' run_started)"
  have reached: "reach ocean_init (ocean_step False) ?oc" by (intro reach_resume run_started_reach)
  have "map_option (\<lambda>w. (w_used w, w_send w)) (map_of (oc_workers ?oc) ''b'') =
      Some (0, [startCommand ''t'' (confFromReq (run_conf ''t'' 5)) 3])" by code_simp
  then obtain w where w: "map_of (oc_workers ?oc) ''b'' = Some w" "w_used w = 0"
    "w_send w = [startCommand ''t'' (confFromReq (run_conf ''t'' 5)) 3]" by blast
  moreover have "held ''b'' (oc_jobs ?oc) = 0"
    using ledgerD [OF conjunct2 [OF tidy_ok [OF reached]] w(1)] w(2) by simp
  ultimately show ?thesis using reached by blast
qed

text \<open>When a worker's stream ends, the worker is gone from the fleet and from every job's
  assignment, and nothing else changes: the jobs run on, on the workers that are left.\<close>

theorem removeWorker_spec:
  "map_of (oc_workers (removeWorker i oc)) = (map_of (oc_workers oc))(i := None) \<and>
   (map_of (oc_workers oc) i \<noteq> None \<longrightarrow>
      map_of (oc_jobs (removeWorker i oc)) = map_option (drop_assignment i) \<circ> map_of (oc_jobs oc)) \<and>
   (\<forall>k. wf_ocean oc \<longrightarrow> held k (oc_jobs (removeWorker i oc)) = (if k = i then 0 else held k (oc_jobs oc)))"
  by (auto simp: removeWorker_def map_of_map_snd held_drop_assignment held_unknown map_of_None_iff
      fun_eq_iff split: option.split)

theorem removeWorker_spec_witness:
  "held ''a'' (oc_jobs run_started) = 2 \<and> held ''a'' (oc_jobs (removeWorker ''a'' run_started)) = 0 \<and>
   held ''b'' (oc_jobs (removeWorker ''a'' run_started)) = 3"
proof -
  have "held ''a'' (oc_jobs run_started) = 2" "held ''b'' (oc_jobs run_started) = 3" by code_simp+
  with removeWorker_spec [of "''a''" run_started] run_started_ok show ?thesis by simp
qed

end
