(* ===== verification/Auth.thy ===== *)
theory Auth
  imports Store
begin

text \<open>
  Package auth above the store (master/auth/auth.go, provider.go, middleware.go): tokens,
  sessions, the local provider, the seeding of the first user and the gate in front of
  the HTTP API. SHA-256 and bcrypt are the fields of a record: the code relies on the
  first being a function and, for a login, on the second accepting what it hashed. Random
  bytes and the clock are arguments of the operations that read them; a time is in
  nanoseconds since the epoch.
\<close>

section \<open>Tokens\<close>

record crypto =
  sha256 :: "string \<Rightarrow> string"
  bcrypt_hash :: "string \<Rightarrow> string option"
  bcrypt_matches :: "string \<Rightarrow> string \<Rightarrow> bool"

text \<open>base64.RawURLEncoding: six bits a character, without padding.\<close>

definition url_alphabet :: string where
  "url_alphabet = ''ABCDEFGHIJKLMNOPQRSTUVWXYZabcdefghijklmnopqrstuvwxyz0123456789-_''"

definition url_char :: "nat \<Rightarrow> char" where
  "url_char n = url_alphabet ! n"

fun base64url :: "string \<Rightarrow> string" where
  "base64url [] = []"
| "base64url [a] = [url_char (byte a div 4), url_char (byte a mod 4 * 16)]"
| "base64url [a, b] =
     [url_char (byte a div 4), url_char (byte a mod 4 * 16 + byte b div 16),
      url_char (byte b mod 16 * 4)]"
| "base64url (a # b # c # s) =
     url_char (byte a div 4) # url_char (byte a mod 4 * 16 + byte b div 16) #
     url_char (byte b mod 16 * 4 + byte c div 64) # url_char (byte c mod 64) # base64url s"

text \<open>genToken: 32 random bytes; None when the source of randomness fails.\<close>

definition genToken :: "string option \<Rightarrow> string option" where
  "genToken rnd = map_option base64url rnd"

definition hex_digit :: "nat \<Rightarrow> char" where
  "hex_digit n = ''0123456789abcdef'' ! n"

definition hex_encode :: "string \<Rightarrow> string" where
  "hex_encode s = concat (map (\<lambda>c. [hex_digit (byte c div 16), hex_digit (byte c mod 16)]) s)"

definition hashToken :: "crypto \<Rightarrow> string \<Rightarrow> string" where
  "hashToken cr raw = hex_encode (sha256 cr raw)"

section \<open>Sessions\<close>

datatype provider = LocalProvider

record auth =
  a_store :: store
  a_providers :: "(string, provider) gomap"
  a_ttl :: int
  a_cookieName :: string
  a_cookieSecure :: bool

definition second :: int where "second = 1000000000"

text \<open>time.Time.Unix: whole seconds, rounded down.\<close>

definition Unix :: "int \<Rightarrow> int" where
  "Unix t = t div second"

definition New_auth :: "store \<Rightarrow> int \<Rightarrow> bool \<Rightarrow> auth" where
  "New_auth s ttl secure =
     \<lparr>a_store = s, a_providers = [(''local'', LocalProvider)], a_ttl = ttl,
      a_cookieName = ''tsu_session'', a_cookieSecure = secure\<rparr>"

definition Provider :: "auth \<Rightarrow> string \<Rightarrow> provider option" where
  "Provider a name = map_of (a_providers a) name"

text \<open>Issue: None when there is no token or its row cannot be written.\<close>

definition Issue ::
    "crypto \<Rightarrow> string option \<Rightarrow> int \<Rightarrow> user \<Rightarrow> string \<Rightarrow> string \<Rightarrow> auth \<Rightarrow> (string \<times> int \<times> auth) option" where
  "Issue cr rnd now u ip ua a =
     (case genToken rnd of
        None \<Rightarrow> None
      | Some raw \<Rightarrow>
          let expiry = now + a_ttl a
          in case CreateSession (hashToken cr raw) (u_ID u) (Unix now) (Unix expiry) ip ua (a_store a) of
               Inl _ \<Rightarrow> None
             | Inr s \<Rightarrow> Some (raw, expiry, a\<lparr>a_store := s\<rparr>))"

definition Validate :: "crypto \<Rightarrow> int \<Rightarrow> auth \<Rightarrow> string \<Rightarrow> user option" where
  "Validate cr now a raw =
     (if raw = [] then None
      else case GetValidSession (a_store a) (hashToken cr raw) (Unix now) of
             Inl _ \<Rightarrow> None
           | Inr u \<Rightarrow> Some u)"

definition Revoke :: "crypto \<Rightarrow> string \<Rightarrow> auth \<Rightarrow> auth" where
  "Revoke cr raw a =
     (if raw = [] then a
      else case DeleteSession (hashToken cr raw) (a_store a) of
             Inl _ \<Rightarrow> a
           | Inr s \<Rightarrow> a\<lparr>a_store := s\<rparr>)"

text \<open>Go's division of a duration truncates towards zero.\<close>

definition trunc_div :: "int \<Rightarrow> int \<Rightarrow> int" where
  "trunc_div a b = (if (a < 0) = (b < 0) then \<bar>a\<bar> div \<bar>b\<bar> else - (\<bar>a\<bar> div \<bar>b\<bar>))"

definition Cookie :: "auth \<Rightarrow> string \<Rightarrow> int \<Rightarrow> cookie" where
  "Cookie a raw expiry =
     \<lparr>ck_Name = a_cookieName a, ck_Value = raw, ck_Path = ''/'', ck_Expires = Some expiry,
      ck_MaxAge = trunc_div (a_ttl a) second, ck_HttpOnly = True, ck_Secure = a_cookieSecure a\<rparr>"

definition ClearCookie :: "auth \<Rightarrow> cookie" where
  "ClearCookie a =
     \<lparr>ck_Name = a_cookieName a, ck_Value = [], ck_Path = ''/'', ck_Expires = None,
      ck_MaxAge = - 1, ck_HttpOnly = True, ck_Secure = a_cookieSecure a\<rparr>"

section \<open>Users\<close>

text \<open>LocalProvider.Authenticate: None for ErrInvalidCredentials.\<close>

definition Authenticate :: "crypto \<Rightarrow> store \<Rightarrow> string \<Rightarrow> string \<Rightarrow> user option" where
  "Authenticate cr s username password =
     (case GetUserByEmail s username of
        Inl _ \<Rightarrow> None
      | Inr u \<Rightarrow>
          if u_Provider u \<noteq> ''local'' then None
          else if \<not> bcrypt_matches cr (u_PasswordHash u) password then None
          else Some u)"

text \<open>SeedAdmin: None when it fails.\<close>

definition SeedAdmin :: "crypto \<Rightarrow> int \<Rightarrow> string \<Rightarrow> string \<Rightarrow> auth \<Rightarrow> auth option" where
  "SeedAdmin cr now username password a =
     (case CountUsers (a_store a) of
        Inl _ \<Rightarrow> None
      | Inr n \<Rightarrow>
          if n > 0 then Some a
          else let username = (if username = [] then ''admin'' else username);
                   password = (if password = [] then ''admin'' else password)
               in case bcrypt_hash cr password of
                    None \<Rightarrow> None
                  | Some hash \<Rightarrow>
                      (case CreateUser \<lparr>u_ID = 0, u_Email = username, u_Name = username,
                              u_Provider = ''local'', u_PasswordHash = hash,
                              u_ProviderSubject = [], u_CreatedAt = Unix now\<rparr> (a_store a) of
                         Inl _ \<Rightarrow> None
                       | Inr (_, s) \<Rightarrow> Some (a\<lparr>a_store := s\<rparr>)))"

section \<open>The gate\<close>

text \<open>The bodies of a login (loginReq) and of SaveEnv.\<close>

record login_req =
  lr_Username :: string
  lr_Password :: string
  lr_Provider :: string

record env_req =
  eq_Name :: string
  eq_Vars :: "(string, string) gomap"

text \<open>
  An HTTP request: the body is kept per struct it may be decoded into, and the user is
  the context value the gate sets. A missing header is the empty string.
\<close>

record http_request =
  rq_Method :: string
  rq_Path :: string
  rq_Origin :: string
  rq_Cookies :: "(string \<times> string) list"
  rq_RemoteAddr :: string
  rq_UserAgent :: string
  rq_body :: "request body"
  rq_login :: "login_req body"
  rq_env :: "env_req body"
  rq_user :: "user option"

definition publicPaths :: "string list" where
  "publicPaths = [''/api/v1/login'', ''/help'']"

definition auth_cors :: "http_request \<Rightarrow> response \<Rightarrow> response" where
  "auth_cors r w =
     (let origin = (if rq_Origin r = [] then ''*'' else rq_Origin r)
      in set_header ''Vary'' ''Origin''
           (set_header ''Access-Control-Allow-Credentials'' ''true''
             (set_header ''Access-Control-Allow-Origin'' origin w)))"

definition unauthorized :: "response \<Rightarrow> response" where
  "unauthorized w =
     write_chunk (Plain (''{'' @ [CHR 0x22] @ ''code'' @ [CHR 0x22] @ '':40100,'' @
         [CHR 0x22] @ ''data'' @ [CHR 0x22] @ '':null,'' @ [CHR 0x22] @ ''error'' @ [CHR 0x22] @
         '':{'' @ [CHR 0x22] @ ''code'' @ [CHR 0x22] @ '':401,'' @ [CHR 0x22] @ ''message'' @
         [CHR 0x22] @ '':'' @ [CHR 0x22] @ ''unauthorized'' @ [CHR 0x22] @ ''}}''))
       (write_header 401 (set_header ''Content-Type'' ''application/json'' w))"

text \<open>
  Middleware around a handler: the handler works on the state of the server, of which
  the gate reads the sessions.
\<close>

type_synonym 's handler = "http_request \<Rightarrow> response \<Rightarrow> 's \<Rightarrow> response \<times> 's"

definition Middleware :: "crypto \<Rightarrow> int \<Rightarrow> ('s \<Rightarrow> auth) \<Rightarrow> 's handler \<Rightarrow> 's handler" where
  "Middleware cr now get_auth next_handler r w s =
     (let a = get_auth s; w = auth_cors r w
      in if rq_Method r = ''OPTIONS'' then
           (write_header 204
             (set_header ''Access-Control-Allow-Headers''
               ''Content-Type, Authorization, Content-Length, X-Requested-With''
               (set_header ''Access-Control-Allow-Methods'' ''GET,PUT,POST,DELETE,OPTIONS'' w)), s)
         else if rq_Path r \<in> set publicPaths then next_handler r w s
         else case map_of (rq_Cookies r) (a_cookieName a) of
                None \<Rightarrow> (unauthorized w, s)
              | Some v \<Rightarrow>
                  if v = [] then (unauthorized w, s)
                  else case Validate cr now a v of
                         None \<Rightarrow> (unauthorized w, s)
                       | Some u \<Rightarrow> next_handler (r\<lparr>rq_user := Some u\<rparr>) w s)"

section \<open>Tokens are faithful\<close>

lemma url_char_inj: "m < 64 \<Longrightarrow> n < 64 \<Longrightarrow> url_char m = url_char n \<longleftrightarrow> m = n"
  unfolding url_char_def
  by (rule nth_eq_iff_index_eq) (simp_all add: url_alphabet_def)

lemma url_char_in: "n < 64 \<Longrightarrow> url_char n \<in> set url_alphabet"
  unfolding url_char_def by (rule nth_mem) (simp add: url_alphabet_def)

lemma six_bits:
  assumes "a < 256" and "b < 256" and "c < (256 :: nat)"
  shows "a div 4 < 64" and "a mod 4 * 16 < 64" and "a mod 4 * 16 + b div 16 < 64"
    and "b mod 16 * 4 < 64" and "b mod 16 * 4 + c div 64 < 64" and "c mod 64 < 64"
  using assms by (auto simp: less_mult_imp_div_less)

lemma base64url_alphabet: "set (base64url s) \<subseteq> set url_alphabet"
  by (induction s rule: base64url.induct)
    (simp_all add: url_char_in six_bits [OF byte_less byte_less byte_less])

lemma length_base64url: "length (base64url s) = (4 * length s + 2) div 3"
  by (induction s rule: base64url.induct) auto

lemma two_digits:
  "x * n + y = x' * n + y' \<Longrightarrow> y < n \<Longrightarrow> y' < n \<Longrightarrow> x = x' \<and> y = y'" for x y n :: nat
  by (metis div_mult_self3 div_less add.commute add_cancel_right_left mod_less mod_mult_self3 not_less_zero)

lemma same_div_mod: "a div n = a' div n \<Longrightarrow> a mod n = a' mod n \<Longrightarrow> a = a'" for a n :: nat
  by (metis div_mult_mod_eq)

lemma base64url_step:
  assumes "b < 256" "c < 256" "b' < 256" "c' < (256 :: nat)"
    and "a div 4 = a' div 4" and "a mod 4 * 16 + b div 16 = a' mod 4 * 16 + b' div 16"
    and "b mod 16 * 4 + c div 64 = b' mod 16 * 4 + c' div 64" and "c mod 64 = c' mod 64"
  shows "a = a' \<and> b = b' \<and> c = c'"
proof -
  have "b div 16 < 16" "b' div 16 < 16" "c div 64 < 4" "c' div 64 < 4"
    using assms(1-4) by (simp_all add: less_mult_imp_div_less)
  with two_digits [OF assms(6)] two_digits [OF assms(7)]
  have "a mod 4 = a' mod 4" "b div 16 = b' div 16" "b mod 16 = b' mod 16" "c div 64 = c' div 64" by auto
  with assms same_div_mod show ?thesis by metis
qed

lemma base64url_inj: "length s = length t \<Longrightarrow> base64url s = base64url t \<Longrightarrow> s = t"
proof (induction s arbitrary: t rule: base64url.induct)
  case 1
  then show ?case by simp
next
  case (2 a)
  then obtain a' where t: "t = [a']" by (cases t) auto
  have "byte a = byte a' \<and> (0 :: nat) = 0 \<and> (0 :: nat) = 0"
    by (rule base64url_step)
      (use 2(2) six_bits [OF byte_less byte_less byte_less] in \<open>simp_all add: t url_char_inj\<close>)
  with t show ?case by (simp add: byte_inj)
next
  case (3 a b)
  then obtain a' b' where t: "t = [a', b']" by (cases t rule: base64url.cases) auto
  have "byte a = byte a' \<and> byte b = byte b' \<and> (0 :: nat) = 0"
    by (rule base64url_step)
      (use 3(2) byte_less six_bits [OF byte_less byte_less byte_less] in \<open>simp_all add: t url_char_inj\<close>)
  with t show ?case by (simp add: byte_inj)
next
  case (4 a b c s)
  then obtain a' b' c' s' where t: "t = a' # b' # c' # s'" "length s = length s'"
    by (cases t rule: base64url.cases) auto
  have "byte a = byte a' \<and> byte b = byte b' \<and> byte c = byte c'"
    by (rule base64url_step)
      (use 4(3) byte_less six_bits [OF byte_less byte_less byte_less] in \<open>simp_all add: t url_char_inj\<close>)
  moreover have "s = s'" by (rule 4(1)) (use 4(3) t in simp_all)
  ultimately show ?case using t by (simp add: byte_inj)
qed

lemma hex_digit_inj: "m < 16 \<Longrightarrow> n < 16 \<Longrightarrow> hex_digit m = hex_digit n \<longleftrightarrow> m = n"
  unfolding hex_digit_def by (rule nth_eq_iff_index_eq) simp_all

lemma hex_encode_inj: "hex_encode s = hex_encode t \<longleftrightarrow> s = t"
proof
  show "hex_encode s = hex_encode t \<Longrightarrow> s = t"
  proof (induction s arbitrary: t)
    case Nil
    then show ?case by (cases t) (auto simp: hex_encode_def)
  next
    case (Cons c s)
    then obtain d t' where t: "t = d # t'" by (cases t) (auto simp: hex_encode_def)
    have "byte x div 16 < 16" "byte x mod 16 < 16" for x
      using byte_less [of x] by (simp_all add: less_mult_imp_div_less)
    with Cons.prems t have "byte c div 16 = byte d div 16" "byte c mod 16 = byte d mod 16"
      and rest: "hex_encode s = hex_encode t'"
      by (auto simp: hex_encode_def hex_digit_inj)
    then have "byte c = byte d" using same_div_mod by blast
    with Cons.IH [OF rest] t show ?case by (simp add: byte_inj)
  qed
qed simp

section \<open>The contract of the session table\<close>

text \<open>
  What the session layer relies on: opening a session under a fresh key makes it live
  until it expires, closing it ends it, and neither touches any other key.
\<close>

locale session_table =
  fixes live :: "'s \<Rightarrow> string \<Rightarrow> int \<Rightarrow> user option"
    and open_session :: "string \<Rightarrow> user \<Rightarrow> int \<Rightarrow> int \<Rightarrow> 's \<Rightarrow> 's option"
    and close_session :: "string \<Rightarrow> 's \<Rightarrow> 's option"
    and known :: "'s \<Rightarrow> user \<Rightarrow> bool"
  assumes live_open: "known s u \<Longrightarrow> open_session h u c e s = Some s' \<Longrightarrow>
      live s' k now = (if k = h then if now < e then Some u else None else live s k now)"
    and live_close: "close_session h s = Some s' \<Longrightarrow>
      live s' k now = (if k = h then None else live s k now)"
    and live_earlier: "live s k now = Some u \<Longrightarrow> before \<le> now \<Longrightarrow> live s k before = Some u"
    and known_open: "open_session h u c e s = Some s' \<Longrightarrow> known s v \<Longrightarrow> known s' v"
begin

lemma open_then_live: "known s u \<Longrightarrow> open_session h u c e s = Some s' \<Longrightarrow> live s' h now = Some u \<longleftrightarrow> now < e"
  by (simp add: live_open)

lemma open_close: "known s u \<Longrightarrow> open_session h u c e s = Some s' \<Longrightarrow> close_session h s' = Some s'' \<Longrightarrow>
    live s'' h now = None \<and> (k \<noteq> h \<longrightarrow> live s'' k now = live s k now)"
  by (simp add: live_open live_close)

lemma two_sessions:
  assumes "known s u" and "open_session h u c e s = Some s'" and "known s v"
    and "open_session k v d f s' = Some s''" and "h \<noteq> k" and "now < e" and "now < f"
  shows "live s'' h now = Some u \<and> live s'' k now = Some v"
  using assms live_open [OF known_open [OF assms(2,3)] assms(4)] live_open [OF assms(1,2)] by simp

lemma expired_stays: "live s k now = None \<Longrightarrow> now \<le> later \<Longrightarrow> live s k later = None"
  using live_earlier by (metis not_None_eq)

end

definition live_session :: "store \<Rightarrow> string \<Rightarrow> int \<Rightarrow> user option" where
  "live_session s h now = (case GetValidSession s h now of Inl _ \<Rightarrow> None | Inr u \<Rightarrow> Some u)"

definition insert_session :: "string \<Rightarrow> string \<Rightarrow> string \<Rightarrow> user \<Rightarrow> int \<Rightarrow> int \<Rightarrow> store \<Rightarrow> store option" where
  "insert_session ip ua h u c e s =
     (case CreateSession h (u_ID u) c e ip ua s of Inl _ \<Rightarrow> None | Inr s' \<Rightarrow> Some s')"

definition delete_session :: "string \<Rightarrow> store \<Rightarrow> store option" where
  "delete_session h s = (case DeleteSession h s of Inl _ \<Rightarrow> None | Inr s' \<Rightarrow> Some s')"

text \<open>The user has its row, and the driver answers queries for sessions.\<close>

definition known_user :: "store \<Rightarrow> user \<Rightarrow> bool" where
  "known_user s u \<longleftrightarrow> user_by_id s (u_ID u) = Some u \<and> \<not> db_refuses s GetValidSessionQ"

lemmas session_defs = live_session_def insert_session_def delete_session_def known_user_def
  GetValidSession_def CreateSession_def DeleteSession_def

interpretation tbl: session_table live_session "insert_session ip ua" delete_session known_user
  by unfold_locales
    (auto simp: session_defs framed split: if_splits option.splits sum.splits)

end
