(* ===== verification/AuthProps.thy ===== *)
theory AuthProps
  imports Auth
begin

text \<open>
  What the login layer guarantees: tokens, the life of a session, the gate in front of
  the API, the first user, and the tables behind them.
\<close>

section \<open>Sessions as table entries\<close>

lemma Validate_live:
  "Validate cr now a raw =
     (if raw = [] then None else live_session (a_store a) (hashToken cr raw) (Unix now))"
  by (simp add: Validate_def live_session_def)

lemma Issue_insert:
  "Issue cr rnd now u ip ua a = Some (raw, expiry, a') \<longleftrightarrow>
     (\<exists>bytes s. rnd = Some bytes \<and> raw = base64url bytes \<and> expiry = now + a_ttl a \<and>
        insert_session ip ua (hashToken cr raw) u (Unix now) (Unix expiry) (a_store a) = Some s \<and>
        a' = a\<lparr>a_store := s\<rparr>)"
  by (auto simp: Issue_def genToken_def insert_session_def Let_def split: option.splits sum.splits)

lemma Revoke_delete:
  "delete_session (hashToken cr raw) (a_store a) = Some s \<Longrightarrow> raw \<noteq> [] \<Longrightarrow>
   Revoke cr raw a = a\<lparr>a_store := s\<rparr>"
  by (auto simp: Revoke_def delete_session_def split: sum.splits)

section \<open>A small database\<close>

definition plain_crypto :: crypto where
  "plain_crypto = \<lparr>sha256 = (\<lambda>s. s), bcrypt_hash = (\<lambda>p. Some (CHR ''$'' # p)),
     bcrypt_matches = (\<lambda>h p. h = CHR ''$'' # p)\<rparr>"

definition ada :: user where
  "ada = \<lparr>u_ID = 1, u_Email = ''ada'', u_Name = ''Ada'', u_Provider = ''local'', u_PasswordHash = ''$pw'',
     u_ProviderSubject = [], u_CreatedAt = 0\<rparr>"

definition ada_auth :: auth where
  "ada_auth = New_auth (empty_store\<lparr>users := [ada], next_user_id := 2\<rparr>) (60 * second) True"

definition ada_bytes :: string where "ada_bytes = replicate 32 (CHR ''x'')"

lemmas ada_defs = plain_crypto_def ada_def ada_auth_def ada_bytes_def New_auth_def empty_store_def

lemma ada_known: "known_user (a_store ada_auth) ada"
  by (simp add: known_user_def ada_defs user_by_id_def)

lemma ada_issue:
  "\<exists>a. Issue plain_crypto (Some ada_bytes) 0 ada [] [] ada_auth = Some (base64url ada_bytes, 60 * second, a)"
  unfolding Issue_insert insert_session_def CreateSession_def
  by (simp add: ada_defs user_by_id_def)

section \<open>Tokens\<close>

text \<open>A token is 43 characters that a cookie value may hold, and two different draws of 32
  random bytes never give the same token.\<close>

theorem token_faithful:
  assumes "length bytes = 32" and "length bytes' = 32" and "genToken (Some bytes) = Some t"
  shows "length t = 43 \<and> set t \<subseteq> set url_alphabet \<and> (genToken (Some bytes') = Some t \<longleftrightarrow> bytes' = bytes)"
  using assms base64url_inj [of bytes' bytes] base64url_alphabet [of bytes]
  by (auto simp: genToken_def length_base64url)

theorem token_faithful_witness:
  "\<exists>t. genToken (Some ada_bytes) = Some t \<and> length t = 43 \<and>
     genToken (Some (replicate 32 (CHR ''y''))) \<noteq> Some t"
  using token_faithful [of ada_bytes "replicate 32 (CHR ''y'')" "base64url ada_bytes"]
  by (simp add: genToken_def ada_bytes_def)

section \<open>The life of a session\<close>

text \<open>C21: a login gives a token that is accepted, as that user, exactly until the session's
  lifetime is over, in whole seconds; no other token becomes or stops being valid.\<close>

theorem session_lifetime:
  assumes "known_user (a_store a) u" and "length bytes = 32"
    and "Issue cr (Some bytes) now u ip ua a = Some (raw, expiry, a')"
  shows "expiry = now + a_ttl a \<and> (Validate cr t a' raw = Some u \<longleftrightarrow> Unix t < Unix (now + a_ttl a)) \<and>
    (hashToken cr other \<noteq> hashToken cr raw \<longrightarrow> Validate cr t a' other = Validate cr t a other)"
proof -
  from assms(3) obtain s where raw: "raw = base64url bytes" and e: "expiry = now + a_ttl a"
    and s: "insert_session ip ua (hashToken cr raw) u (Unix now) (Unix expiry) (a_store a) = Some s"
    and a': "a' = a\<lparr>a_store := s\<rparr>"
    by (auto simp: Issue_insert)
  have "raw \<noteq> []" using assms(2) raw length_base64url [of bytes] by auto
  with tbl.open_then_live [OF assms(1) s] tbl.live_open [OF assms(1) s] show ?thesis
    by (simp add: Validate_live a' e)
qed

theorem session_lifetime_witness:
  "\<exists>raw expiry a'. Issue plain_crypto (Some ada_bytes) 0 ada [] [] ada_auth = Some (raw, expiry, a') \<and>
     Validate plain_crypto (59 * second) a' raw = Some ada \<and> Validate plain_crypto (60 * second) a' raw \<noteq> Some ada"
proof -
  obtain a' where issued: "Issue plain_crypto (Some ada_bytes) 0 ada [] [] ada_auth =
      Some (base64url ada_bytes, 60 * second, a')" using ada_issue by blast
  have "length ada_bytes = 32" by (simp add: ada_bytes_def)
  from session_lifetime [OF ada_known this issued] have
    "Validate plain_crypto t a' (base64url ada_bytes) = Some ada \<longleftrightarrow> Unix t < 60" for t
    by (simp add: ada_defs Unix_def second_def)
  with issued show ?thesis by (auto simp: Unix_def second_def)
qed

text \<open>Logging out ends the session at once and no other.\<close>

theorem logout_ends_session:
  assumes "\<not> db_refuses (a_store a) DeleteSessionQ" and "raw \<noteq> []"
  shows "Validate cr t (Revoke cr raw a) raw = None \<and>
    (hashToken cr other \<noteq> hashToken cr raw \<longrightarrow> Validate cr t (Revoke cr raw a) other = Validate cr t a other)"
proof -
  obtain s where s: "delete_session (hashToken cr raw) (a_store a) = Some s"
    using assms(1) by (simp add: delete_session_def DeleteSession_def)
  from tbl.live_close [OF s] Revoke_delete [OF s assms(2)] show ?thesis
    by (simp add: Validate_live)
qed

theorem logout_ends_session_witness:
  "\<exists>raw expiry a'. Issue plain_crypto (Some ada_bytes) 0 ada [] [] ada_auth = Some (raw, expiry, a') \<and>
     Validate plain_crypto 0 (Revoke plain_crypto raw a') raw = None"
proof -
  obtain a' where issued: "Issue plain_crypto (Some ada_bytes) 0 ada [] [] ada_auth =
      Some (base64url ada_bytes, 60 * second, a')" using ada_issue by blast
  then have "\<not> db_refuses (a_store a') DeleteSessionQ"
    by (auto simp: Issue_insert insert_session_def CreateSession_def ada_defs split: if_splits)
  moreover have "base64url ada_bytes \<noteq> []"
    using length_base64url [of ada_bytes] by (auto simp: ada_bytes_def)
  ultimately show ?thesis using logout_ends_session [of a' "base64url ada_bytes"] issued by blast
qed

section \<open>The gate\<close>

text \<open>C7: the gate lets a request through to the handlers only as a public path or with a live
  session, whose user it hands on; a preflight is answered here with 204, everything else
  with 401, and in neither case does anything change.\<close>

theorem middleware_gate:
  assumes "rw_status w = None"
  shows "\<exists>w'. Middleware cr now g h r w s =
    (if rq_Method r = ''OPTIONS'' then (w', s)
     else if rq_Path r \<in> {''/api/v1/login'', ''/help''} then h r (auth_cors r w) s
     else case Option.bind (map_of (rq_Cookies r) (a_cookieName (g s))) (Validate cr now (g s)) of
            None \<Rightarrow> (w', s)
          | Some u \<Rightarrow> h (r\<lparr>rq_user := Some u\<rparr>) (auth_cors r w) s) \<and>
    rw_status w' = Some (if rq_Method r = ''OPTIONS'' then 204 else 401)"
proof (cases "rq_Method r = ''OPTIONS''")
  case True
  with assms show ?thesis by (auto simp: Middleware_def Let_def auth_cors_def)
next
  case False
  have "rw_status (unauthorized (auth_cors r w)) = Some 401"
    using assms by (simp add: unauthorized_def auth_cors_def Let_def)
  with False show ?thesis
    by (intro exI [of _ "unauthorized (auth_cors r w)"])
      (auto simp: Middleware_def Let_def publicPaths_def Validate_def split: option.split)
qed

theorem middleware_gate_witness:
  "\<exists>w'. Middleware plain_crypto 0 (\<lambda>a. a) (\<lambda>r w a. (w, a\<lparr>a_ttl := 0\<rparr>))
      \<lparr>rq_Method = ''POST'', rq_Path = ''/api/v1/start'', rq_Origin = [], rq_Cookies = [(''tsu_session'', ''forged'')],
       rq_RemoteAddr = [], rq_UserAgent = [], rq_body = Eof, rq_login = Eof, rq_env = Eof, rq_user = None\<rparr>
      fresh_response ada_auth = (w', ada_auth) \<and> rw_status w' = Some 401"
proof -
  have "Validate plain_crypto 0 ada_auth ''forged'' = None"
    by (simp add: Validate_def GetValidSession_def ada_defs)
  moreover have "a_cookieName ada_auth = ''tsu_session''" by (simp add: ada_defs)
  ultimately show ?thesis
    using middleware_gate [of fresh_response plain_crypto 0 "\<lambda>a. a" "\<lambda>r w a. (w, a\<lparr>a_ttl := 0\<rparr>)"
      "\<lparr>rq_Method = ''POST'', rq_Path = ''/api/v1/start'', rq_Origin = [], rq_Cookies = [(''tsu_session'', ''forged'')],
       rq_RemoteAddr = [], rq_UserAgent = [], rq_body = Eof, rq_login = Eof, rq_env = Eof, rq_user = None\<rparr>" ada_auth]
    by (simp add: fresh_response_def)
qed

section \<open>Users\<close>

definition or_admin :: "string \<Rightarrow> string" where
  "or_admin s = (if s = [] then ''admin'' else s)"

lemma SeedAdmin_empty:
  assumes "users (a_store a) = []" and "SeedAdmin cr now name pw a = Some a'"
  obtains h s where "bcrypt_hash cr (or_admin pw) = Some h" and "a' = a\<lparr>a_store := s\<rparr>"
    and "users s = [\<lparr>u_ID = next_user_id (a_store a), u_Email = or_admin name, u_Name = or_admin name,
      u_Provider = ''local'', u_PasswordHash = h, u_ProviderSubject = [], u_CreatedAt = Unix now\<rparr>]"
    and "db_refuses s = db_refuses (a_store a)" and "sessions s = sessions (a_store a)"
    and "\<not> db_refuses (a_store a) CountUsersQ" and "store_step (a_store a) s"
proof -
  define u where "u h = \<lparr>u_ID = 0, u_Email = or_admin name, u_Name = or_admin name, u_Provider = ''local'',
    u_PasswordHash = h, u_ProviderSubject = [], u_CreatedAt = Unix now\<rparr>" for h
  have count: "\<not> db_refuses (a_store a) CountUsersQ"
    using assms(2) by (auto simp: SeedAdmin_def CountUsers_def)
  have "SeedAdmin cr now name pw a = (case bcrypt_hash cr (or_admin pw) of None \<Rightarrow> None
      | Some h \<Rightarrow> (case CreateUser (u h) (a_store a) of Inl _ \<Rightarrow> None
                | Inr (_, s) \<Rightarrow> Some (a\<lparr>a_store := s\<rparr>)))"
    unfolding SeedAdmin_def CountUsers_def u_def or_admin_def Let_def using count assms(1) by simp
  with assms(2) obtain h v s where h: "bcrypt_hash cr (or_admin pw) = Some h"
    and s: "CreateUser (u h) (a_store a) = Inr (v, s)" "a' = a\<lparr>a_store := s\<rparr>"
    by (auto split: option.splits sum.splits)
  moreover from s(1) assms(1) have "users s = [(u h)\<lparr>u_ID := next_user_id (a_store a)\<rparr>]"
    "db_refuses s = db_refuses (a_store a)" "sessions s = sessions (a_store a)"
    by (auto simp: CreateUser_def Let_def split: if_splits)
  moreover have "store_step (a_store a) s" using s(1) by (rule store_step.create_user)
  ultimately show thesis using that count by (simp add: u_def)
qed

text \<open>On an empty database SeedAdmin makes the one account its arguments ask for, with admin
  for a missing name or password; that login works and no other does, and seeding again
  changes nothing.\<close>

theorem seeded_admin_logs_in:
  assumes "\<And>p q h. bcrypt_hash cr p = Some h \<Longrightarrow> bcrypt_matches cr h q \<longleftrightarrow> p = q"
    and "users (a_store a) = []" and "SeedAdmin cr now name pw a = Some a'"
    and "\<not> db_refuses (a_store a) GetUserByEmailQ"
  shows "(Authenticate cr (a_store a') n p \<noteq> None \<longleftrightarrow> n = or_admin name \<and> p = or_admin pw) \<and>
    (\<forall>now' name' pw'. SeedAdmin cr now' name' pw' a' = Some a')"
proof (rule SeedAdmin_empty [OF assms(2,3)])
  fix h s
  assume h: "bcrypt_hash cr (or_admin pw) = Some h" and a': "a' = a\<lparr>a_store := s\<rparr>"
    and users: "users s = [\<lparr>u_ID = next_user_id (a_store a), u_Email = or_admin name, u_Name = or_admin name,
      u_Provider = ''local'', u_PasswordHash = h, u_ProviderSubject = [], u_CreatedAt = Unix now\<rparr>]"
    and same: "db_refuses s = db_refuses (a_store a)" "\<not> db_refuses (a_store a) CountUsersQ"
  have "Authenticate cr s n p \<noteq> None \<longleftrightarrow> n = or_admin name \<and> p = or_admin pw"
    using assms(1) [OF h] assms(4) by (auto simp: Authenticate_def GetUserByEmail_def users same)
  with users same a' show ?thesis by (simp add: SeedAdmin_def CountUsers_def)
qed

theorem seeded_admin_logs_in_witness:
  "\<exists>a'. SeedAdmin plain_crypto 0 [] ''secret'' (New_auth empty_store 60 True) = Some a' \<and>
     Authenticate plain_crypto (a_store a') ''admin'' ''secret'' \<noteq> None \<and>
     Authenticate plain_crypto (a_store a') ''admin'' ''admin'' = None"
proof -
  let ?a = "New_auth empty_store 60 True"
  obtain a' where a': "SeedAdmin plain_crypto 0 [] ''secret'' ?a = Some a'"
    by (auto simp: SeedAdmin_def CountUsers_def CreateUser_def user_conflict_def ada_defs Let_def)
  have law: "bcrypt_matches plain_crypto h q \<longleftrightarrow> p = q" if "bcrypt_hash plain_crypto p = Some h" for p q h
    using that by (auto simp: plain_crypto_def)
  have empty: "users (a_store ?a) = []" "\<not> db_refuses (a_store ?a) GetUserByEmailQ"
    by (simp_all add: ada_defs)
  note logins = seeded_admin_logs_in [OF law empty(1) a' empty(2), THEN conjunct1]
  show ?thesis using a' logins [of "''admin''" "''secret''"] logins [of "''admin''" "''admin''"]
    by (simp add: or_admin_def)
qed

text \<open>The schema admits one local account only: the pair of provider and subject is unique,
  and every local account has the empty subject.\<close>

theorem one_local_account:
  assumes "u \<in> set (users s)" and "u_Provider u = u_Provider v" and "u_ProviderSubject u = u_ProviderSubject v"
  shows "CreateUser v s = Inl Constraint \<or> CreateUser v s = Inl DriverError"
  using assms by (auto simp: CreateUser_def user_conflict_iff)

theorem one_local_account_witness:
  "CreateUser (ada\<lparr>u_Email := ''bob''\<rparr>) (a_store ada_auth) = Inl Constraint"
proof -
  have "CreateUser v (a_store ada_auth) \<noteq> Inl DriverError" for v
    by (simp add: CreateUser_def Let_def ada_auth_def New_auth_def empty_store_def)
  then show ?thesis
    using one_local_account [of ada "a_store ada_auth" "ada\<lparr>u_Email := ''bob''\<rparr>"]
    by (auto simp: ada_auth_def New_auth_def)
qed

section \<open>Tables\<close>

text \<open>Whatever statements ran, in any order and with any failures, ids and emails of users
  are unique, every session belongs to a user, and every table has one row a key.\<close>

theorem tables_consistent:
  assumes "reach (\<lambda>s. s = empty_store) store_step s"
  shows "distinct (map u_ID (users s)) \<and> distinct (map u_Email (users s)) \<and>
    (\<forall>h row. map_of (sessions s) h = Some row \<longrightarrow> user_by_id s (se_user_id row) \<noteq> None) \<and>
    wf_map (sessions s) \<and> wf_map (bookmarks s) \<and> wf_map (envs s) \<and> wf_map (app_settings s)"
  using db.reach_inv [OF assms] by (simp add: store_ok_def)

theorem tables_consistent_witness:
  "\<exists>u s. CreateUser ada empty_store = Inr (u, s) \<and> distinct (map u_ID (users s))"
proof -
  obtain u s where made: "CreateUser ada empty_store = Inr (u, s)"
    by (auto simp: CreateUser_def empty_store_def user_conflict_def Let_def)
  have "reach (\<lambda>s. s = empty_store) store_step empty_store" by (rule reach_init) simp
  then have "reach (\<lambda>s. s = empty_store) store_step s"
    by (rule reach_step) (rule store_step.create_user [OF made])
  from tables_consistent [OF this] made show ?thesis by blast
qed

text \<open>A saved test is read back as it was saved, under its name only, and is listed once; the
  same holds of an environment.\<close>

theorem saved_test_read_back:
  assumes "SaveBookmark now b s = Inr s'" and "\<not> db_refuses s' GetBookmarkQ"
    and "SaveEnv now e t = Inr t'" and "\<not> db_refuses t' GetEnvQ"
  shows "GetBookmark s' n = (if n = b_Name b then Inr (b\<lparr>b_UpdatedAt := now\<rparr>) else GetBookmark s n) \<and>
    GetEnv t' m = (if m = env_Name e then Inr (e\<lparr>env_UpdatedAt := now\<rparr>) else GetEnv t m)"
  using GetBookmark_SaveBookmark [OF assms(1,2)] GetEnv_SaveEnv [OF assms(3,4)] by simp

theorem saved_test_read_back_witness:
  "\<exists>s' t'. SaveBookmark 7 (bookmark_of_row ''t'' \<lparr>br_url = ''u'', br_method = ''GET'', br_concurrence = 3,
       br_body = [], br_headers = [], br_verbose = 1, br_created_at = 0, br_updated_at = 0\<rparr>) empty_store = Inr s' \<and>
     SaveEnv 7 \<lparr>env_Name = ''e'', env_Vars = [], env_UpdatedAt = 0\<rparr> empty_store = Inr t' \<and>
     map_option b_Concurrence (case GetBookmark s' ''t'' of Inl _ \<Rightarrow> None | Inr b \<Rightarrow> Some b) = Some 3"
proof -
  let ?b = "bookmark_of_row ''t'' \<lparr>br_url = ''u'', br_method = ''GET'', br_concurrence = 3,
       br_body = [], br_headers = [], br_verbose = 1, br_created_at = 0, br_updated_at = 0\<rparr>"
  let ?e = "\<lparr>env_Name = ''e'', env_Vars = [], env_UpdatedAt = 0\<rparr>"
  obtain s' t' where saved: "SaveBookmark 7 ?b empty_store = Inr s'" "SaveEnv 7 ?e empty_store = Inr t'"
    and "\<not> db_refuses s' GetBookmarkQ" "\<not> db_refuses t' GetEnvQ"
    by (auto simp: SaveBookmark_def SaveEnv_def empty_store_def Let_def)
  with saved_test_read_back [of 7 ?b empty_store s' ?e empty_store t' "''t''" "''e''"]
  have "GetBookmark s' ''t'' = Inr (?b\<lparr>b_UpdatedAt := 7\<rparr>)" by (simp add: bookmark_of_row_def)
  with saved show ?thesis by (simp add: bookmark_of_row_def)
qed

end
