(* ===== verification/Json.thy ===== *)
theory Json
  imports Libs
begin

text \<open>
  The part of encoding/json that the discovery records use: Marshal of a struct gives an
  object with the tagged keys in order; Unmarshal of an object goes through its members
  in order, matches a key to a field by the tag up to letter case, leaves unknown members
  and nulls aside, and fails on a value of the wrong kind or an integer out of range.
\<close>

section \<open>Member names\<close>

text \<open>
  Folding of a key for the comparison with an ASCII tag: the two letters with a third
  form beyond ASCII are S (U+017F) and K (U+212A).
\<close>

fun fold_name :: "string \<Rightarrow> string" where
  "fold_name (a # b # c # s) =
     (if byte a = 0xC5 \<and> byte b = 0xBF then CHR ''S'' # fold_name (c # s)
      else if byte a = 0xE2 \<and> byte b = 0x84 \<and> byte c = 0xAA then CHR ''K'' # fold_name s
      else upper_char a # fold_name (b # c # s))"
| "fold_name [a, b] =
     (if byte a = 0xC5 \<and> byte b = 0xBF then ''S'' else [upper_char a, upper_char b])"
| "fold_name [a] = [upper_char a]"
| "fold_name [] = []"

definition names_field :: "string \<Rightarrow> string \<Rightarrow> bool" where
  "names_field key tag \<longleftrightarrow> fold_name key = fold_name tag"

section \<open>Values\<close>

fun json_string :: "json \<Rightarrow> string \<Rightarrow> string option" where
  "json_string (JStr s) _ = Some s"
| "json_string JNull old = Some old"
| "json_string _ _ = None"

fun json_int :: "json \<Rightarrow> int \<Rightarrow> int option" where
  "json_int (JInt i) _ = (if int64_min \<le> i \<and> i \<le> int64_max then Some i else None)"
| "json_int JNull old = Some old"
| "json_int _ _ = None"

text \<open>
  A struct type is a table of its fields: the tag and what a value does to the struct.
  The members are applied in order; an error makes the whole result an error.
\<close>

type_synonym 'r fields = "(string \<times> (json \<Rightarrow> 'r \<Rightarrow> 'r option)) list"

definition set_member :: "'r fields \<Rightarrow> string \<times> json \<Rightarrow> 'r \<Rightarrow> 'r option" where
  "set_member fs m r =
     (case find (\<lambda>f. names_field (fst m) (fst f)) fs of
        None \<Rightarrow> Some r
      | Some f \<Rightarrow> snd f (snd m) r)"

fun set_members :: "'r fields \<Rightarrow> (string \<times> json) list \<Rightarrow> 'r \<Rightarrow> 'r option" where
  "set_members fs [] r = Some r"
| "set_members fs (m # ms) r = Option.bind (set_member fs m r) (set_members fs ms)"

fun unmarshal :: "'r fields \<Rightarrow> 'r \<Rightarrow> json \<Rightarrow> 'r option" where
  "unmarshal fs zero (JObj ms) = set_members fs ms zero"
| "unmarshal fs zero JNull = Some zero"
| "unmarshal fs zero _ = None"

text \<open>A slice: null leaves it nil, an array replaces it element by element.\<close>

fun json_list :: "(json \<Rightarrow> 'a option) \<Rightarrow> json list \<Rightarrow> 'a list option" where
  "json_list f [] = Some []"
| "json_list f (j # js) = Option.bind (f j) (\<lambda>x. map_option (Cons x) (json_list f js))"

fun json_slice :: "(json \<Rightarrow> 'a option) \<Rightarrow> json \<Rightarrow> 'a list \<Rightarrow> 'a list option" where
  "json_slice f (JArr js) _ = json_list f js"
| "json_slice f JNull _ = Some []"
| "json_slice f _ _ = None"

lemma json_list_map: "(\<And>x. x \<in> set xs \<Longrightarrow> f (g x) = Some x) \<Longrightarrow> json_list f (map g xs) = Some xs"
  by (induction xs) auto

end
