(* ===== verification/Discovery.thy ===== *)
theory Discovery
  imports OceanProps Json
begin

text \<open>
  Discovery through etcd: what an ocean publishes and reads (master/discovery.go) and how
  a worker picks an ocean (worker/discovery.go). etcd itself is not under src/: the result
  of a prefix read is an argument, a list of values in key order (None where the bytes are
  not JSON), or None for an error.
\<close>

type_synonym kvs = "json option list option"

section \<open>The registration of an ocean\<close>

record ocean_reg =
  o_ID :: string
  o_Name :: string
  o_GRPC :: string
  o_HTTP :: string
  o_MaxConnections :: int
  o_Workers :: int
  o_MaxCap :: int
  o_FreeCap :: int

definition zero_reg :: ocean_reg where
  "zero_reg = \<lparr>o_ID = [], o_Name = [], o_GRPC = [], o_HTTP = [], o_MaxConnections = 0,
     o_Workers = 0, o_MaxCap = 0, o_FreeCap = 0\<rparr>"

definition reg_json :: "ocean_reg \<Rightarrow> json" where
  "reg_json r = JObj
     [(''id'', JStr (o_ID r)), (''name'', JStr (o_Name r)), (''grpc'', JStr (o_GRPC r)),
      (''http'', JStr (o_HTTP r)), (''maxConnections'', JInt (o_MaxConnections r)),
      (''workers'', JInt (o_Workers r)), (''maxCap'', JInt (o_MaxCap r)),
      (''freeCap'', JInt (o_FreeCap r))]"

definition reg_fields :: "ocean_reg fields" where
  "reg_fields =
     [(''id'', \<lambda>j r. map_option (\<lambda>x. r\<lparr>o_ID := x\<rparr>) (json_string j (o_ID r))),
      (''name'', \<lambda>j r. map_option (\<lambda>x. r\<lparr>o_Name := x\<rparr>) (json_string j (o_Name r))),
      (''grpc'', \<lambda>j r. map_option (\<lambda>x. r\<lparr>o_GRPC := x\<rparr>) (json_string j (o_GRPC r))),
      (''http'', \<lambda>j r. map_option (\<lambda>x. r\<lparr>o_HTTP := x\<rparr>) (json_string j (o_HTTP r))),
      (''maxConnections'', \<lambda>j r. map_option (\<lambda>x. r\<lparr>o_MaxConnections := x\<rparr>) (json_int j (o_MaxConnections r))),
      (''workers'', \<lambda>j r. map_option (\<lambda>x. r\<lparr>o_Workers := x\<rparr>) (json_int j (o_Workers r))),
      (''maxCap'', \<lambda>j r. map_option (\<lambda>x. r\<lparr>o_MaxCap := x\<rparr>) (json_int j (o_MaxCap r))),
      (''freeCap'', \<lambda>j r. map_option (\<lambda>x. r\<lparr>o_FreeCap := x\<rparr>) (json_int j (o_FreeCap r)))]"

definition oceanPrefix :: string where "oceanPrefix = ''/tsunami/oceans/''"
definition fleetPrefix :: string where "fleetPrefix = ''/tsunami/fleet/''"

text \<open>
  publishOcean: the key and the value that are put; nothing without an etcd client, which
  a running ocean has exactly when discovery is on.
\<close>

definition ocean_registration :: "ocean \<Rightarrow> ocean_reg" where
  "ocean_registration oc =
     (let maxCap = msum w_maxCap (oc_workers oc); used = msum w_used (oc_workers oc)
      in \<lparr>o_ID = oc_id oc, o_Name = oc_name oc, o_GRPC = oc_advertiseGRPC oc, o_HTTP = oc_httpAddr oc,
          o_MaxConnections = oc_maxConnections oc, o_Workers = int (length (oc_workers oc)),
          o_MaxCap = maxCap, o_FreeCap = maxCap - used\<rparr>)"

definition publishOcean :: "ocean \<Rightarrow> (string \<times> json) option" where
  "publishOcean oc =
     (if \<not> oc_discovery oc then None
      else Some (oceanPrefix @ oc_id oc, reg_json (ocean_registration oc)))"

definition allOceans :: "bool \<Rightarrow> kvs \<Rightarrow> ocean_reg list" where
  "allOceans discovery kvs =
     (if \<not> discovery then []
      else case kvs of
             None \<Rightarrow> []
           | Some vs \<Rightarrow> concat (map (\<lambda>v.
               case Option.bind v (unmarshal reg_fields zero_reg) of
                 None \<Rightarrow> []
               | Some r \<Rightarrow> if o_ID r \<noteq> [] then [r] else []) vs))"

section \<open>The jobs of the fleet\<close>

record fleet_job =
  fj_Name :: string
  fj_Target :: string
  fj_Concurrency :: int
  fj_Ocean :: string

record fleet_summary =
  fs_Ocean :: string
  fs_Jobs :: "fleet_job list"

definition zero_fleet_job :: fleet_job where
  "zero_fleet_job = \<lparr>fj_Name = [], fj_Target = [], fj_Concurrency = 0, fj_Ocean = []\<rparr>"

definition fleet_job_json :: "fleet_job \<Rightarrow> json" where
  "fleet_job_json f = JObj
     [(''name'', JStr (fj_Name f)), (''target'', JStr (fj_Target f)),
      (''concurrency'', JInt (fj_Concurrency f)), (''ocean'', JStr (fj_Ocean f))]"

definition fleet_job_fields :: "fleet_job fields" where
  "fleet_job_fields =
     [(''name'', \<lambda>j r. map_option (\<lambda>x. r\<lparr>fj_Name := x\<rparr>) (json_string j (fj_Name r))),
      (''target'', \<lambda>j r. map_option (\<lambda>x. r\<lparr>fj_Target := x\<rparr>) (json_string j (fj_Target r))),
      (''concurrency'', \<lambda>j r. map_option (\<lambda>x. r\<lparr>fj_Concurrency := x\<rparr>) (json_int j (fj_Concurrency r))),
      (''ocean'', \<lambda>j r. map_option (\<lambda>x. r\<lparr>fj_Ocean := x\<rparr>) (json_string j (fj_Ocean r)))]"

text \<open>A nil slice is null in JSON.\<close>

definition fleet_json :: "fleet_summary \<Rightarrow> json" where
  "fleet_json f = JObj
     [(''ocean'', JStr (fs_Ocean f)),
      (''jobs'', if fs_Jobs f = [] then JNull else JArr (map fleet_job_json (fs_Jobs f)))]"

definition fleet_fields :: "fleet_summary fields" where
  "fleet_fields =
     [(''ocean'', \<lambda>j r. map_option (\<lambda>x. r\<lparr>fs_Ocean := x\<rparr>) (json_string j (fs_Ocean r))),
      (''jobs'', \<lambda>j r. map_option (\<lambda>x. r\<lparr>fs_Jobs := x\<rparr>)
         (json_slice (unmarshal fleet_job_fields zero_fleet_job) j (fs_Jobs r)))]"

definition fleet_of :: "ocean \<Rightarrow> fleet_summary" where
  "fleet_of oc = \<lparr>fs_Ocean = oc_id oc, fs_Jobs = map (\<lambda>(name, j).
     \<lparr>fj_Name = name, fj_Target = URL (j_conf j), fj_Concurrency = msum (\<lambda>c. c) (j_assignments j),
      fj_Ocean = oc_id oc\<rparr>) (oc_jobs oc)\<rparr>"

definition publishFleet :: "ocean \<Rightarrow> (string \<times> json) option" where
  "publishFleet oc =
     (if \<not> oc_discovery oc then None else Some (fleetPrefix @ oc_id oc, fleet_json (fleet_of oc)))"

definition allFleetJobs :: "bool \<Rightarrow> kvs \<Rightarrow> fleet_job list" where
  "allFleetJobs discovery kvs =
     (if \<not> discovery then []
      else case kvs of
             None \<Rightarrow> []
           | Some vs \<Rightarrow> concat (map (\<lambda>v.
               case Option.bind v (unmarshal fleet_fields \<lparr>fs_Ocean = [], fs_Jobs = []\<rparr>) of
                 None \<Rightarrow> []
               | Some f \<Rightarrow> fs_Jobs f) vs))"

section \<open>The worker's choice\<close>

text \<open>The fields of a registration that the worker reads.\<close>

record worker_reg =
  wo_ID :: string
  wo_Name :: string
  wo_GRPC :: string
  wo_MaxConnections :: int
  wo_Workers :: int
  wo_MaxCap :: int
  wo_FreeCap :: int

definition zero_worker_reg :: worker_reg where
  "zero_worker_reg = \<lparr>wo_ID = [], wo_Name = [], wo_GRPC = [], wo_MaxConnections = 0,
     wo_Workers = 0, wo_MaxCap = 0, wo_FreeCap = 0\<rparr>"

definition worker_reg_fields :: "worker_reg fields" where
  "worker_reg_fields =
     [(''id'', \<lambda>j r. map_option (\<lambda>x. r\<lparr>wo_ID := x\<rparr>) (json_string j (wo_ID r))),
      (''name'', \<lambda>j r. map_option (\<lambda>x. r\<lparr>wo_Name := x\<rparr>) (json_string j (wo_Name r))),
      (''grpc'', \<lambda>j r. map_option (\<lambda>x. r\<lparr>wo_GRPC := x\<rparr>) (json_string j (wo_GRPC r))),
      (''maxConnections'', \<lambda>j r. map_option (\<lambda>x. r\<lparr>wo_MaxConnections := x\<rparr>) (json_int j (wo_MaxConnections r))),
      (''workers'', \<lambda>j r. map_option (\<lambda>x. r\<lparr>wo_Workers := x\<rparr>) (json_int j (wo_Workers r))),
      (''maxCap'', \<lambda>j r. map_option (\<lambda>x. r\<lparr>wo_MaxCap := x\<rparr>) (json_int j (wo_MaxCap r))),
      (''freeCap'', \<lambda>j r. map_option (\<lambda>x. r\<lparr>wo_FreeCap := x\<rparr>) (json_int j (wo_FreeCap r)))]"

text \<open>What the choice compares: free connection slots first, free load capacity second.\<close>

datatype score = Score (slots: int) (spare: int)

instantiation score :: linorder
begin

definition less_score :: "score \<Rightarrow> score \<Rightarrow> bool" where
  "less_score a b \<longleftrightarrow> slots a < slots b \<or> (slots a = slots b \<and> spare a < spare b)"

definition less_eq_score :: "score \<Rightarrow> score \<Rightarrow> bool" where
  "less_eq_score a b \<longleftrightarrow> a < b \<or> a = (b :: score)"

instance
  by standard (auto simp: less_score_def less_eq_score_def intro: score.expand)

end

definition reg_slots :: "worker_reg \<Rightarrow> int" where
  "reg_slots o1 = wo_MaxConnections o1 - wo_Workers o1"

text \<open>One turn of the loop over the registrations.\<close>

definition consider_ocean :: "json option \<Rightarrow> string \<times> score \<Rightarrow> string \<times> score" where
  "consider_ocean v best =
     (case Option.bind v (unmarshal worker_reg_fields zero_worker_reg) of
        None \<Rightarrow> best
      | Some o1 \<Rightarrow>
          if wo_GRPC o1 = [] then best
          else if wo_MaxConnections o1 > 0 \<and> reg_slots o1 \<le> 0 then best
          else if reg_slots o1 > slots (snd best) \<or>
                  (reg_slots o1 = slots (snd best) \<and> wo_FreeCap o1 > spare (snd best))
               then (wo_GRPC o1, Score (reg_slots o1) (wo_FreeCap o1))
               else best)"

definition selectOcean :: "kvs \<Rightarrow> string" where
  "selectOcean kvs =
     (case kvs of
        None \<Rightarrow> []
      | Some vs \<Rightarrow> fst (fold consider_ocean vs ([], Score (- 1) (- 1))))"

section \<open>What is published is what is read\<close>

definition int64_ok :: "int \<Rightarrow> bool" where
  "int64_ok i \<longleftrightarrow> int64_min \<le> i \<and> i \<le> int64_max"

definition reg_ok :: "ocean_reg \<Rightarrow> bool" where
  "reg_ok r \<longleftrightarrow> int64_ok (o_MaxConnections r) \<and> int64_ok (o_Workers r) \<and>
     int64_ok (o_MaxCap r) \<and> int64_ok (o_FreeCap r)"

definition worker_view :: "ocean_reg \<Rightarrow> worker_reg" where
  "worker_view r = \<lparr>wo_ID = o_ID r, wo_Name = o_Name r, wo_GRPC = o_GRPC r,
     wo_MaxConnections = o_MaxConnections r, wo_Workers = o_Workers r, wo_MaxCap = o_MaxCap r,
     wo_FreeCap = o_FreeCap r\<rparr>"

lemma fold_member_names:
  "fold_name ''id'' = ''ID''" "fold_name ''name'' = ''NAME''" "fold_name ''grpc'' = ''GRPC''"
  "fold_name ''http'' = ''HTTP''" "fold_name ''maxConnections'' = ''MAXCONNECTIONS''"
  "fold_name ''workers'' = ''WORKERS''" "fold_name ''maxCap'' = ''MAXCAP''"
  "fold_name ''freeCap'' = ''FREECAP''" "fold_name ''ocean'' = ''OCEAN''" "fold_name ''jobs'' = ''JOBS''"
  "fold_name ''target'' = ''TARGET''" "fold_name ''concurrency'' = ''CONCURRENCY''"
  by (simp_all add: upper_char_def byte_def char_of_def bit_0)

declare fold_name.simps [simp del]

lemmas member_simps = names_field_def fold_member_names set_member_def Let_def

lemma unmarshal_reg: "reg_ok r \<Longrightarrow> unmarshal reg_fields zero_reg (reg_json r) = Some r"
  by (simp add: reg_json_def reg_fields_def zero_reg_def member_simps reg_ok_def int64_ok_def)

lemma unmarshal_worker_reg:
  "reg_ok r \<Longrightarrow> unmarshal worker_reg_fields zero_worker_reg (reg_json r) = Some (worker_view r)"
  by (simp add: reg_json_def worker_reg_fields_def zero_worker_reg_def member_simps reg_ok_def
      int64_ok_def worker_view_def)

lemma unmarshal_fleet_job:
  "int64_ok (fj_Concurrency f) \<Longrightarrow> unmarshal fleet_job_fields zero_fleet_job (fleet_job_json f) = Some f"
  by (simp add: fleet_job_json_def fleet_job_fields_def zero_fleet_job_def member_simps int64_ok_def)

lemma unmarshal_fleet:
  "list_all (\<lambda>f. int64_ok (fj_Concurrency f)) (fs_Jobs s) \<Longrightarrow>
   unmarshal fleet_fields \<lparr>fs_Ocean = [], fs_Jobs = []\<rparr> (fleet_json s) = Some s"
  by (simp add: fleet_json_def fleet_fields_def member_simps json_list_map unmarshal_fleet_job list_all_iff)

section \<open>The choice is the maximum\<close>

definition decoded :: "json option list \<Rightarrow> worker_reg list" where
  "decoded vs = List.map_filter (\<lambda>v. Option.bind v (unmarshal worker_reg_fields zero_worker_reg)) vs"

text \<open>A registration that can be chosen: it names an address, and it has a connection left.\<close>

definition eligible :: "worker_reg \<Rightarrow> bool" where
  "eligible r \<longleftrightarrow> wo_GRPC r \<noteq> [] \<and> (wo_MaxConnections r > 0 \<longrightarrow> wo_Workers r < wo_MaxConnections r)"

definition score_of :: "worker_reg \<Rightarrow> score" where
  "score_of r = Score (reg_slots r) (wo_FreeCap r)"

lemma consider_ocean_eq:
  "consider_ocean v (g, sc) =
     (case Option.bind v (unmarshal worker_reg_fields zero_worker_reg) of
        None \<Rightarrow> (g, sc)
      | Some r \<Rightarrow> if eligible r \<and> sc < score_of r then (wo_GRPC r, score_of r) else (g, sc))"
  by (auto simp: consider_ocean_def eligible_def score_of_def reg_slots_def less_score_def
      split: option.split)

text \<open>The loop keeps the first of the best: a left-to-right maximum over the eligible ones.\<close>

definition best_of :: "worker_reg list \<Rightarrow> string \<times> score \<Rightarrow> string \<times> score \<Rightarrow> bool" where
  "best_of rs start res \<longleftrightarrow>
     (\<forall>r\<in>set rs. eligible r \<longrightarrow> score_of r \<le> snd res) \<and> snd start \<le> snd res \<and>
     (res = start \<or> (\<exists>r\<in>set rs. eligible r \<and> snd start < score_of r \<and> res = (wo_GRPC r, score_of r)))"

lemma best_of_fold: "best_of (decoded vs) start (fold consider_ocean vs start)"
proof (induction vs arbitrary: start)
  case Nil
  then show ?case by (simp add: best_of_def decoded_def map_filter_simps)
next
  case (Cons v vs)
  obtain g sc where start: "start = (g, sc)" by force
  show ?case
  proof (cases "Option.bind v (unmarshal worker_reg_fields zero_worker_reg)")
    case None
    with Cons.IH [of start] show ?thesis
      by (simp add: start consider_ocean_eq decoded_def map_filter_simps)
  next
    case (Some r)
    show ?thesis
    proof (cases "eligible r \<and> sc < score_of r")
      case True
      with Cons.IH [of "(wo_GRPC r, score_of r)"] Some show ?thesis
        by (fastforce simp: start consider_ocean_eq decoded_def map_filter_simps best_of_def)
    next
      case False
      then have low: "eligible r \<Longrightarrow> score_of r \<le> snd start" by (auto simp: start)
      have "fold consider_ocean (v # vs) start = fold consider_ocean vs start"
        using False Some by (auto simp: start consider_ocean_eq)
      moreover have "decoded (v # vs) = r # decoded vs" using Some by (simp add: decoded_def map_filter_simps)
      ultimately show ?thesis using Cons.IH [of start] low by (auto simp: best_of_def)
    qed
  qed
qed

lemma selectOcean_best:
  "selectOcean (Some vs) = fst (fold consider_ocean vs ([], Score (- 1) (- 1)))"
  by (simp add: selectOcean_def)

lemma selectOcean_cases:
  obtains (none) "selectOcean (Some vs) = []"
      and "\<forall>r\<in>set (decoded vs). eligible r \<longrightarrow> score_of r \<le> Score (- 1) (- 1)"
  | (some) r where "r \<in> set (decoded vs)" and "eligible r" and "selectOcean (Some vs) = wo_GRPC r"
      and "Score (- 1) (- 1) < score_of r"
      and "\<forall>q\<in>set (decoded vs). eligible q \<longrightarrow> score_of q \<le> score_of r"
  using best_of_fold [of vs "([], Score (- 1) (- 1))"]
  unfolding best_of_def selectOcean_best by auto

section \<open>Properties\<close>

text \<open>What an ocean publishes is read back unchanged by the other oceans, and a worker sees
  the fields it selects on; likewise the summary of its jobs.\<close>

theorem registration_roundtrip:
  assumes "reg_ok (ocean_registration oc)" and "oc_id oc \<noteq> []" and "publishOcean oc = Some (k, v)"
    and "list_all (\<lambda>f. int64_ok (fj_Concurrency f)) (fs_Jobs (fleet_of oc))" and "publishFleet oc = Some (k', v')"
  shows "k = ''/tsunami/oceans/'' @ oc_id oc \<and> allOceans True (Some [Some v]) = [ocean_registration oc] \<and>
    decoded [Some v] = [worker_view (ocean_registration oc)] \<and>
    k' = ''/tsunami/fleet/'' @ oc_id oc \<and> allFleetJobs True (Some [Some v']) = fs_Jobs (fleet_of oc)"
proof -
  have kv: "k = oceanPrefix @ oc_id oc" "v = reg_json (ocean_registration oc)"
    "k' = fleetPrefix @ oc_id oc" "v' = fleet_json (fleet_of oc)"
    using assms(3,5) by (auto simp: publishOcean_def publishFleet_def split: if_splits)
  have "o_ID (ocean_registration oc) = oc_id oc" by (simp add: ocean_registration_def Let_def)
  with kv assms(2) show ?thesis
    by (simp add: allOceans_def allFleetJobs_def decoded_def map_filter_simps oceanPrefix_def fleetPrefix_def
        unmarshal_reg [OF assms(1)] unmarshal_worker_reg [OF assms(1)] unmarshal_fleet [OF assms(4)])
qed

text \<open>A worker attaches to an ocean with the most free connection slots among those that have
  one, and the most spare capacity among those; it finds none only when no registered ocean
  with a limit has a slot left.\<close>

theorem selectOcean_maximal:
  shows "if \<exists>r\<in>set (decoded vs). eligible r \<and> wo_MaxConnections r > 0
    then \<exists>r\<in>set (decoded vs). eligible r \<and> selectOcean (Some vs) = wo_GRPC r \<and>
      (\<forall>q\<in>set (decoded vs). eligible q \<longrightarrow>
         wo_MaxConnections q - wo_Workers q < wo_MaxConnections r - wo_Workers r \<or>
         (wo_MaxConnections q - wo_Workers q = wo_MaxConnections r - wo_Workers r \<and> wo_FreeCap q \<le> wo_FreeCap r))
    else selectOcean (Some vs) = [] \<or>
      (\<exists>r\<in>set (decoded vs). wo_MaxConnections r \<le> 0 \<and> selectOcean (Some vs) = wo_GRPC r)"
proof (cases rule: selectOcean_cases [of vs])
  case none
  have "\<not> (eligible r \<and> wo_MaxConnections r > 0)" if "r \<in> set (decoded vs)" for r
    using none(2) that by (auto simp: eligible_def score_of_def reg_slots_def less_eq_score_def less_score_def)
  with none(1) show ?thesis by auto
next
  case (some r)
  have "wo_MaxConnections q - wo_Workers q < wo_MaxConnections r - wo_Workers r \<or>
      (wo_MaxConnections q - wo_Workers q = wo_MaxConnections r - wo_Workers r \<and> wo_FreeCap q \<le> wo_FreeCap r)"
    if "q \<in> set (decoded vs)" "eligible q" for q
    using some(5) that by (fastforce simp: score_of_def reg_slots_def less_eq_score_def less_score_def)
  with some(1-3) show ?thesis
    by (cases "\<exists>r\<in>set (decoded vs). eligible r \<and> wo_MaxConnections r > 0") (simp, blast, force)
qed

theorem selectOcean_maximal_witness:
  "selectOcean (Some [None, Some (reg_json (zero_reg\<lparr>o_GRPC := ''a'', o_MaxConnections := 3, o_Workers := 3\<rparr>)),
     Some (reg_json (zero_reg\<lparr>o_GRPC := ''b'', o_MaxConnections := 5, o_Workers := 3\<rparr>))]) = ''b''"
proof -
  let ?vs = "[None, Some (reg_json (zero_reg\<lparr>o_GRPC := ''a'', o_MaxConnections := 3, o_Workers := 3\<rparr>)),
     Some (reg_json (zero_reg\<lparr>o_GRPC := ''b'', o_MaxConnections := 5, o_Workers := 3\<rparr>))]"
  have "decoded ?vs = map worker_view [zero_reg\<lparr>o_GRPC := ''a'', o_MaxConnections := 3, o_Workers := 3\<rparr>,
      zero_reg\<lparr>o_GRPC := ''b'', o_MaxConnections := 5, o_Workers := 3\<rparr>]"
    by (simp add: decoded_def map_filter_simps unmarshal_worker_reg reg_ok_def int64_ok_def zero_reg_def
        int64_min_def int64_max_def)
  with selectOcean_maximal [of ?vs] show ?thesis
    by (auto simp: eligible_def worker_view_def zero_reg_def)
qed

text \<open>An ocean without a connection limit, whose slots come out negative, is passed over
  by every worker as soon as it has two.\<close>

theorem unlimited_ocean_never_chosen:
  assumes "o_MaxConnections r \<le> 0" and "o_Workers r \<ge> 2" and "reg_ok r"
  shows "selectOcean (Some [Some (reg_json r)]) = []"
proof -
  have dec: "decoded [Some (reg_json r)] = [worker_view r]"
    by (simp add: decoded_def map_filter_simps unmarshal_worker_reg [OF assms(3)])
  show ?thesis
    by (cases rule: selectOcean_cases [of "[Some (reg_json r)]"])
      (use assms(1,2) in \<open>auto simp: dec score_of_def reg_slots_def worker_view_def less_score_def\<close>)
qed

theorem unlimited_ocean_never_chosen_witness:
  "selectOcean (Some [Some (reg_json (zero_reg\<lparr>o_GRPC := ''a'', o_Workers := 2, o_FreeCap := 100\<rparr>))]) = []"
  by (rule unlimited_ocean_never_chosen)
    (simp_all add: zero_reg_def reg_ok_def int64_ok_def int64_min_def int64_max_def)

theorem registration_roundtrip_witness:
  "\<exists>k v. publishOcean (run_started\<lparr>oc_discovery := True\<rparr>) = Some (k, v) \<and>
     map o_Workers (allOceans True (Some [Some v])) = [2]"
proof -
  let ?oc = "run_started\<lparr>oc_discovery := True\<rparr>"
  obtain k v k' v' where kv: "publishOcean ?oc = Some (k, v)" "publishFleet ?oc = Some (k', v')"
    by (simp add: publishOcean_def publishFleet_def)
  have ok: "reg_ok (ocean_registration ?oc)" "oc_id ?oc \<noteq> []"
    "list_all (\<lambda>f. int64_ok (fj_Concurrency f)) (fs_Jobs (fleet_of ?oc))"
    "o_Workers (ocean_registration ?oc) = 2" by code_simp+
  from registration_roundtrip [OF ok(1,2) kv(1) ok(3) kv(2)] kv(1) ok(4) show ?thesis by auto
qed

end
