(* ===== verification/Api.thy ===== *)
theory Api
  imports Auth Discovery
begin

text \<open>
  The handlers of the client-facing HTTP API (master/services.go). A handler maps the
  request, the response so far and the server's state to the response and the state; its
  critical section is the operation of the scheduler. What a request reads from outside
  the process is a record: random bytes, the clock, the host's address, etcd's answers.
\<close>

record server =
  sv_ocean :: ocean
  sv_auth :: auth

record outside =
  x_crypto :: crypto
  x_rand :: "string option"
  x_now :: int
  x_ip :: string
  x_oceans :: kvs
  x_fleet :: kvs

abbreviation sv_store :: "server \<Rightarrow> store" where
  "sv_store s \<equiv> a_store (sv_auth s)"

definition put_store :: "store \<Rightarrow> server \<Rightarrow> server" where
  "put_store db s = s\<lparr>sv_auth := (sv_auth s)\<lparr>a_store := db\<rparr>\<rparr>"

section \<open>Shared steps of the handlers\<close>

definition AllowOrigin :: string where "AllowOrigin = ''*''"

definition cors :: "http_request \<Rightarrow> response \<Rightarrow> response" where
  "cors r w =
     (let origin = rq_Origin r
      in if origin \<noteq> [] then set_header ''Access-Control-Allow-Origin'' origin w
         else set_header ''Access-Control-Allow-Origin'' AllowOrigin w)"

definition Options :: "http_request \<Rightarrow> response \<Rightarrow> response" where
  "Options r w =
     WriteSuccess None None
       (set_header ''Access-Control-Allow-Credentials'' ''true''
         (set_header ''Access-Control-Allow-Headers''
           ''Content-Type, Authorization, Content-Length, X-Requested-With''
           (set_header ''Access-Control-Allow-Methods'' ''GET,PUT,POST,DELETE,OPTIONS'' (cors r w))))"

text \<open>Every handler starts with the preflight and the CORS header.\<close>

definition preflight ::
    "http_request \<Rightarrow> response \<Rightarrow> 's \<Rightarrow> (response \<Rightarrow> response \<times> 's) \<Rightarrow> response \<times> 's" where
  "preflight r w s k = (if rq_Method r = ''OPTIONS'' then (Options r w, s) else k (cors r w))"

text \<open>\<open>if err := Decoder(w, r, &req); err != nil { return }\<close>\<close>

definition decoding ::
    "'a \<Rightarrow> 'a body \<Rightarrow> response \<Rightarrow> 's \<Rightarrow> ('a \<Rightarrow> response \<Rightarrow> response \<times> 's) \<Rightarrow> response \<times> 's" where
  "decoding zero b w s k =
     (case Decoder zero b w of (w, Inl _) \<Rightarrow> (w, s) | (w, Inr v) \<Rightarrow> k v w)"

definition refuse :: "int \<Rightarrow> int \<Rightarrow> string \<Rightarrow> response \<Rightarrow> response" where
  "refuse status code msg w =
     WriteSuccess None (Some \<lparr>Code = code, Message = msg\<rparr>)
       (write_header status (set_header ''Content-Type'' ''application/json'' w))"

definition succeed :: "(string, entry) gomap option \<Rightarrow> response \<Rightarrow> response" where
  "succeed data w = WriteSuccess data None w"

section \<open>Login, logout, session\<close>

definition zero_login :: login_req where
  "zero_login = \<lparr>lr_Username = [], lr_Password = [], lr_Provider = []\<rparr>"

definition user_data :: "user \<Rightarrow> (string, entry) gomap" where
  "user_data u = [(''email'', Text (u_Email u)), (''name'', Text (u_Name u))]"

definition Login :: "outside \<Rightarrow> server handler" where
  "Login x r w s = preflight r w s (\<lambda>w. decoding zero_login (rq_login r) w s (\<lambda>req w.
     let provName = (if lr_Provider req = [] then ''local'' else lr_Provider req)
     in case Provider (sv_auth s) provName of
          None \<Rightarrow> (refuse 400 400 ''unknown auth provider'' w, s)
        | Some LocalProvider \<Rightarrow>
            (case Authenticate (x_crypto x) (sv_store s) (lr_Username req) (lr_Password req) of
               None \<Rightarrow> (refuse 401 401 ''invalid username or password'' w, s)
             | Some u \<Rightarrow>
                 (case Issue (x_crypto x) (x_rand x) (x_now x) u (rq_RemoteAddr r) (rq_UserAgent r) (sv_auth s) of
                    None \<Rightarrow> (refuse 500 500 ''could not create session'' w, s)
                  | Some (raw, expiry, a) \<Rightarrow>
                      (succeed (Some (user_data u)) (SetCookie (Cookie a raw expiry) w), s\<lparr>sv_auth := a\<rparr>)))))"

definition Logout :: "outside \<Rightarrow> server handler" where
  "Logout x r w s = preflight r w s (\<lambda>w.
     let a = sv_auth s;
         a = (case map_of (rq_Cookies r) (a_cookieName a) of
                None \<Rightarrow> a | Some v \<Rightarrow> Revoke (x_crypto x) v a)
     in (succeed None (SetCookie (ClearCookie a) w), s\<lparr>sv_auth := a\<rparr>))"

definition Session :: "server handler" where
  "Session r w s = preflight r w s (\<lambda>w.
     case rq_user r of
       None \<Rightarrow> (refuse 401 401 ''unauthorized'' w, s)
     | Some u \<Rightarrow> (succeed (Some (user_data u)) w, s))"

section \<open>Saved tests\<close>

text \<open>json.Marshal sorts the keys of a map.\<close>

definition map_json :: "(string, string) gomap \<Rightarrow> json" where
  "map_json m = JObj (map (\<lambda>(k, v). (k, JStr v)) (sort_key fst m))"

definition bookmark_json :: "bookmark \<Rightarrow> json" where
  "bookmark_json b = JObj
     [(''name'', JStr (b_Name b)), (''url'', JStr (b_URL b)), (''method'', JStr (b_Method b)),
      (''concurrence'', JInt (b_Concurrence b)), (''body'', JStr (b_Body b)),
      (''headers'', map_json (b_Headers b)), (''verbose'', JBool (b_Verbose b)),
      (''updated_at'', JInt (b_UpdatedAt b))]"

definition GetBookmarks :: "server handler" where
  "GetBookmarks r w s = preflight r w s (\<lambda>w.
     case ListBookmarks (sv_store s) of
       Inl _ \<Rightarrow> (refuse 500 500 ''could not read bookmarks'' w, s)
     | Inr list \<Rightarrow> (succeed (Some [(''bookmarks'', Json (JArr (map bookmark_json list)))]) w, s))"

text \<open>A name alone saves the configuration of the running test of that name.\<close>

definition fill_from_job :: "ocean \<Rightarrow> cmd_conf \<Rightarrow> cmd_conf" where
  "fill_from_job oc c =
     (if q_URL c = [] then
        (case map_of (oc_jobs oc) (q_Name c) of
           None \<Rightarrow> c
         | Some j \<Rightarrow> c\<lparr>q_URL := URL (j_rawConf j), q_Method := Method (j_rawConf j),
             q_Concurrence := Concurrence (j_rawConf j), q_Body := Body (j_rawConf j),
             q_Headers := Headers (j_rawConf j), q_Verbose := Verbose (j_rawConf j)\<rparr>)
      else c)"

definition bookmark_from :: "cmd_conf \<Rightarrow> bookmark" where
  "bookmark_from c =
     \<lparr>b_Name = q_Name c, b_URL = q_URL c, b_Method = q_Method c, b_Concurrence = q_Concurrence c,
      b_Body = q_Body c, b_Headers = q_Headers c, b_Verbose = q_Verbose c, b_UpdatedAt = 0\<rparr>"

definition SaveBookmark_api :: "outside \<Rightarrow> server handler" where
  "SaveBookmark_api x r w s = preflight r w s (\<lambda>w. decoding zero_request (rq_body r) w s (\<lambda>req w.
     if q_Name (Conf req) = [] then (refuse 400 400 ''name is required'' w, s)
     else case SaveBookmark (Unix (x_now x)) (bookmark_from (fill_from_job (sv_ocean s) (Conf req))) (sv_store s) of
            Inl _ \<Rightarrow> (refuse 500 500 ''could not save bookmark'' w, s)
          | Inr db \<Rightarrow> (succeed None w, put_store db s)))"

definition DeleteBookmark_api :: "server handler" where
  "DeleteBookmark_api r w s = preflight r w s (\<lambda>w. decoding zero_request (rq_body r) w s (\<lambda>req w.
     if q_Name (Conf req) = [] then (refuse 400 400 ''name is required'' w, s)
     else case DeleteBookmark (q_Name (Conf req)) (sv_store s) of
            Inl _ \<Rightarrow> (refuse 500 500 ''could not delete bookmark'' w, s)
          | Inr db \<Rightarrow> (succeed None w, put_store db s)))"

section \<open>Environments\<close>

definition env_json :: "env \<Rightarrow> json" where
  "env_json e = JObj [(''name'', JStr (env_Name e)), (''vars'', map_json (env_Vars e)),
     (''updated_at'', JInt (env_UpdatedAt e))]"

definition GetEnvs :: "server handler" where
  "GetEnvs r w s = preflight r w s (\<lambda>w.
     case ListEnvs (sv_store s) of
       Inl _ \<Rightarrow> (refuse 500 500 ''could not read envs'' w, s)
     | Inr list \<Rightarrow>
         (let active = or_zero [] (GetSetting (sv_store s) ''active_env'')
          in (succeed (Some [(''envs'', Json (JArr (map env_json list))), (''active'', Text active)]) w, s)))"

definition SetActiveEnv :: "server handler" where
  "SetActiveEnv r w s = preflight r w s (\<lambda>w. decoding zero_request (rq_body r) w s (\<lambda>req w.
     case SetSetting ''active_env'' (TrimSpace (q_Name (Conf req))) (sv_store s) of
       Inl _ \<Rightarrow> (refuse 500 500 ''could not set active env'' w, s)
     | Inr db \<Rightarrow> (succeed None w, put_store db s)))"

definition SaveEnv_api :: "outside \<Rightarrow> server handler" where
  "SaveEnv_api x r w s = preflight r w s (\<lambda>w. decoding \<lparr>eq_Name = [], eq_Vars = []\<rparr> (rq_env r) w s (\<lambda>req w.
     let name = TrimSpace (eq_Name req)
     in if name = [] then (refuse 400 400 ''env name is required'' w, s)
        else case SaveEnv (Unix (x_now x)) \<lparr>env_Name = name, env_Vars = eq_Vars req, env_UpdatedAt = 0\<rparr> (sv_store s) of
               Inl _ \<Rightarrow> (refuse 500 500 ''could not save env'' w, s)
             | Inr db \<Rightarrow> (succeed None w, put_store db s)))"

definition DeleteEnv_api :: "server handler" where
  "DeleteEnv_api r w s = preflight r w s (\<lambda>w. decoding zero_request (rq_body r) w s (\<lambda>req w.
     if q_Name (Conf req) = [] then (refuse 400 400 ''name is required'' w, s)
     else case DeleteEnv (q_Name (Conf req)) (sv_store s) of
            Inl _ \<Rightarrow> (refuse 500 500 ''could not delete env'' w, s)
          | Inr db \<Rightarrow> (succeed None w, put_store db s)))"

section \<open>Start, stop, pause, resume\<close>

text \<open>The answer is 200 whatever the outcome; a refusal is in the envelope.\<close>

definition answer :: "server \<Rightarrow> response \<Rightarrow> api_error option \<times> ocean \<Rightarrow> response \<times> server" where
  "answer s w out = (WriteSuccess None (fst out) w, s\<lparr>sv_ocean := snd out\<rparr>)"

definition Start :: "server handler" where
  "Start r w s = preflight r w s (\<lambda>w. decoding zero_request (rq_body r) w s (\<lambda>req w.
     answer s w (start_job (sv_store s) (Conf req) (sv_ocean s))))"

definition Stop :: "server handler" where
  "Stop r w s = preflight r w s (\<lambda>w. decoding zero_request (rq_body r) w s (\<lambda>req w.
     answer s w (stop_job (q_Name (Conf req)) (sv_ocean s))))"

definition Pause :: "server handler" where
  "Pause r w s = preflight r w s (\<lambda>w. decoding zero_request (rq_body r) w s (\<lambda>req w.
     answer s w (pause_job (q_Name (Conf req)) (sv_ocean s))))"

definition Resume :: "server handler" where
  "Resume r w s = preflight r w s (\<lambda>w. decoding zero_request (rq_body r) w s (\<lambda>req w.
     answer s w (resume_job (sv_store s) (q_Name (Conf req)) (sv_ocean s))))"

end
