(* ===== verification/ApiView.thy ===== *)
theory ApiView
  imports Api
begin

text \<open>
  The handlers that report (master/services.go: GetMetrics, GetSample, GetInfo): the
  fleet-wide aggregate of a test, the last captured exchange of each worker, and the
  state and topology of the cluster. Doubles are exact reals.
\<close>

section \<open>GetMetrics\<close>

record lib_metric =
  mt_Name :: string
  mt_WorkerCount :: int
  mt_ErrorCount :: int
  mt_Avg :: real
  mt_Min :: real
  mt_Max :: real
  mt_ElapedTime :: real
  mt_RequestCount :: int
  mt_Rps :: real

definition zero_lib_metric :: lib_metric where
  "zero_lib_metric = \<lparr>mt_Name = [], mt_WorkerCount = 0, mt_ErrorCount = 0, mt_Avg = 0, mt_Min = 0,
     mt_Max = 0, mt_ElapedTime = 0, mt_RequestCount = 0, mt_Rps = 0\<rparr>"

text \<open>The merged histogram grows to the longest one seen.\<close>

fun add_buckets :: "int list \<Rightarrow> int list \<Rightarrow> int list" where
  "add_buckets merged [] = merged"
| "add_buckets [] (c # cs) = c # add_buckets [] cs"
| "add_buckets (b # bs) (c # cs) = (b + c) # add_buckets bs cs"

text \<open>The locals of the loop: the aggregate, the weighted sum, the weight, the histogram.\<close>

record gather =
  g_agg :: lib_metric
  g_avgWeighted :: real
  g_weight :: real
  g_merged :: "int list"

definition gather_init :: "string \<Rightarrow> gather" where
  "gather_init name = \<lparr>g_agg = zero_lib_metric\<lparr>mt_Name := name\<rparr>, g_avgWeighted = 0, g_weight = 0,
     g_merged = []\<rparr>"

definition gather_metric :: "metric \<Rightarrow> gather \<Rightarrow> gather" where
  "gather_metric m g =
     (let agg = g_agg g;
          agg = agg\<lparr>mt_WorkerCount := mt_WorkerCount agg + m_worker_count m,
            mt_RequestCount := mt_RequestCount agg + m_request_count m,
            mt_ErrorCount := mt_ErrorCount agg + m_error_count m,
            mt_Rps := mt_Rps agg + m_rps m\<rparr>;
          agg = (if m_max m > mt_Max agg then agg\<lparr>mt_Max := m_max m\<rparr> else agg);
          agg = (if m_min m > 0 \<and> (mt_Min agg = 0 \<or> m_min m < mt_Min agg)
                 then agg\<lparr>mt_Min := m_min m\<rparr> else agg);
          agg = (if m_elapsed_time m > mt_ElapedTime agg
                 then agg\<lparr>mt_ElapedTime := m_elapsed_time m\<rparr> else agg);
          wgt = real_of_int (m_request_count m - m_error_count m)
      in g\<lparr>g_agg := agg, g_merged := add_buckets (g_merged g) (m_bucket m),
           g_avgWeighted := (if wgt > 0 then g_avgWeighted g + m_avg m * wgt else g_avgWeighted g),
           g_weight := (if wgt > 0 then g_weight g + wgt else g_weight g)\<rparr>)"

text \<open>The metrics the loop sees: the latest of the test from each worker still assigned.\<close>

definition job_metrics :: "string \<Rightarrow> job \<Rightarrow> workers \<Rightarrow> metric list" where
  "job_metrics name j ws = List.map_filter
     (\<lambda>(i, _). Option.bind (map_of ws i) (\<lambda>w. map_of (w_metrics w) name)) (j_assignments j)"

definition aggregate :: "string \<Rightarrow> metric list \<Rightarrow> lib_metric \<times> int list" where
  "aggregate name ms =
     (let g = fold gather_metric ms (gather_init name); agg = g_agg g
      in (if g_weight g > 0 then agg\<lparr>mt_Avg := g_avgWeighted g / g_weight g\<rparr> else agg, g_merged g))"

definition metricxToSlice :: "lib_metric \<Rightarrow> (string, entry) gomap" where
  "metricxToSlice m =
     [(''name'', Text (mt_Name m)), (''avg'', Fixed (mt_Avg m)), (''min'', Fixed (mt_Min m)),
      (''max'', Fixed (mt_Max m)), (''error_count'', Text (int_str (mt_ErrorCount m))),
      (''workerCount'', Text (int_str (mt_WorkerCount m))),
      (''ElapedTime'', Fixed (mt_ElapedTime m)),
      (''RequestCount'', Text (int_str (mt_RequestCount m))), (''rps'', Fixed (mt_Rps m))]"

definition GetMetrics :: "server handler" where
  "GetMetrics r w s = preflight r w s (\<lambda>w. decoding zero_request (rq_body r) w s (\<lambda>req w.
     let name = q_Name (Conf req); oc = sv_ocean s
     in case map_of (oc_jobs oc) name of
          None \<Rightarrow> (WriteSuccess None (Some \<lparr>Code = 404, Message = name @ '' not running''\<rparr>) w, s)
        | Some j \<Rightarrow>
            let (agg, merged) = aggregate name (job_metrics name j (oc_workers oc));
                data = mput ''buckets'' (Json (if merged = [] then JNull else JArr (map JInt merged)))
                         (metricxToSlice agg)
            in (succeed (Some data) w, s)))"

section \<open>GetSample\<close>

definition headerMap :: "http_header list \<Rightarrow> (string, string) gomap" where
  "headerMap hs = headers_of_list hs"

definition sample_view :: "attached_worker \<Rightarrow> sample \<Rightarrow> json" where
  "sample_view w p = JObj
     [(''worker'', JStr (w_name w)), (''workerID'', JStr (w_id w)), (''method'', JStr (s_method p)),
      (''url'', JStr (s_url p)), (''requestHeaders'', map_json (headerMap (s_request_header p))),
      (''requestBody'', JStr (s_request_body p)), (''status'', JInt (s_status_code p)),
      (''responseHeaders'', map_json (headerMap (s_response_header p))),
      (''responseBody'', JStr (s_response_body p)), (''latencyMs'', JReal (s_latency_ms p)),
      (''error'', JStr (s_error p)), (''ts'', JInt (s_ts p))]"

definition sample_views :: "string \<Rightarrow> workers \<Rightarrow> json list" where
  "sample_views jb ws = List.map_filter
     (\<lambda>(_, w). map_option (sample_view w) (map_of (w_samples w) jb)) ws"

definition GetSample :: "server handler" where
  "GetSample r w s = preflight r w s (\<lambda>w. decoding zero_request (rq_body r) w s (\<lambda>req w.
     let jb = q_Name (Conf req)
     in (succeed (Some [(''job'', Text jb),
           (''samples'', Json (JArr (sample_views jb (oc_workers (sv_ocean s)))))]) w, s)))"

section \<open>GetInfo\<close>

record topo_node =
  n_ID :: string
  n_Name :: string
  n_Kind :: string
  n_IP :: string
  n_Endpoint :: string

record topo_edge =
  e_From :: string
  e_To :: string
  e_Kind :: string
  e_Job :: string

definition node_json :: "topo_node \<Rightarrow> json" where
  "node_json n = JObj [(''id'', JStr (n_ID n)), (''name'', JStr (n_Name n)), (''kind'', JStr (n_Kind n)),
     (''ip'', JStr (n_IP n)), (''endpoint'', JStr (n_Endpoint n))]"

text \<open>The key job is omitted where it is empty.\<close>

definition edge_json :: "topo_edge \<Rightarrow> json" where
  "edge_json e = JObj ([(''from'', JStr (e_From e)), (''to'', JStr (e_To e)), (''kind'', JStr (e_Kind e))] @
     (if e_Job e = [] then [] else [(''job'', JStr (e_Job e))]))"

definition graph_json :: "topo_node list \<Rightarrow> topo_edge list \<Rightarrow> json" where
  "graph_json ns es = JObj
     [(''nodes'', if ns = [] then JNull else JArr (map node_json ns)),
      (''edges'', if es = [] then JNull else JArr (map edge_json es))]"

text \<open>The locals that the loops of GetInfo fill.\<close>

record info =
  i_data :: "(string, entry) gomap"
  i_nodes :: "topo_node list"
  i_edges :: "topo_edge list"
  i_names :: "string list"
  i_paused :: "string list"
  i_targets :: "string list"

definition target_node :: "string \<Rightarrow> topo_node" where
  "target_node url = \<lparr>n_ID = ''target:'' @ url, n_Name = url, n_Kind = ''target'', n_IP = [], n_Endpoint = url\<rparr>"

text \<open>A target is shown once, however many tests hit it.\<close>

definition see_target :: "string \<Rightarrow> info \<Rightarrow> info" where
  "see_target url g =
     (if url \<in> set (i_targets g) then g
      else g\<lparr>i_targets := url # i_targets g, i_nodes := i_nodes g @ [target_node url]\<rparr>)"

definition info_worker :: "ocean \<Rightarrow> string \<times> attached_worker \<Rightarrow> info \<Rightarrow> info" where
  "info_worker oc p g =
     (let (i, w) = p;
          data = mput (''worker_'' @ i @ ''_max_qouta'') (Text (int_str (w_maxCap w))) (i_data g);
          data = mput (''worker_'' @ i @ ''_remain_qouta'') (Text (int_str (w_maxCap w - w_used w))) data
      in g\<lparr>i_data := data,
           i_nodes := i_nodes g @ [\<lparr>n_ID = i, n_Name = w_name w, n_Kind = ''worker'', n_IP = w_ip w, n_Endpoint = w_ip w\<rparr>],
           i_edges := i_edges g @ [\<lparr>e_From = ''master:'' @ oc_id oc, e_To = i, e_Kind = ''control'', e_Job = []\<rparr>]\<rparr>)"

definition info_job :: "string \<times> job \<Rightarrow> info \<Rightarrow> info" where
  "info_job p g =
     (let (name, j) = p; url = URL (j_conf j);
          g = g\<lparr>i_names := i_names g @ [name],
                i_paused := (if j_paused j then i_paused g @ [name] else i_paused g)\<rparr>
      in if url = [] then g
         else let g = see_target url g
              in g\<lparr>i_edges := i_edges g @ map (\<lambda>(i, _). \<lparr>e_From = i, e_To = ''target:'' @ url, e_Kind = ''load'', e_Job = name\<rparr>)
                     (j_assignments j)\<rparr>)"

definition info_peer :: "ocean \<Rightarrow> ocean_reg \<Rightarrow> info \<Rightarrow> info" where
  "info_peer oc p g =
     (if o_ID p = oc_id oc then g
      else g\<lparr>i_nodes := i_nodes g @ [\<lparr>n_ID = ''master:'' @ o_ID p, n_Name = o_Name p, n_Kind = ''master'',
               n_IP = o_GRPC p, n_Endpoint = o_HTTP p\<rparr>]\<rparr>)"

definition info_fleet_job :: "ocean \<Rightarrow> fleet_job \<Rightarrow> info \<Rightarrow> info" where
  "info_fleet_job oc f g =
     (if fj_Ocean f = oc_id oc then g
      else let g = (if fj_Name f \<in> set (i_names g) then g else g\<lparr>i_names := i_names g @ [fj_Name f]\<rparr>)
           in if fj_Target f = [] then g else see_target (fj_Target f) g)"

definition local_info :: "string \<Rightarrow> ocean \<Rightarrow> info" where
  "local_info ip oc =
     (let g = \<lparr>i_data = [], i_nodes = [\<lparr>n_ID = ''master:'' @ oc_id oc, n_Name = oc_name oc, n_Kind = ''master'',
                 n_IP = ip, n_Endpoint = oc_httpAddr oc\<rparr>], i_edges = [], i_names = [], i_paused = [], i_targets = []\<rparr>;
          g = fold (info_worker oc) (oc_workers oc) g;
          g = fold info_job (oc_jobs oc) g;
          maxConcurrent = msum w_maxCap (oc_workers oc);
          used = msum w_used (oc_workers oc)
      in g\<lparr>i_data := fold (\<lambda>(k, v). mput k v)
           [(''name'', Text (oc_name oc)), (''id'', Text (oc_id oc)),
            (''workers'', Text (int_str (int (length (oc_workers oc))))),
            (''max_connections'', Text (int_str (oc_maxConnections oc))),
            (''max_concurrent'', Text (int_str maxConcurrent)),
            (''remaining_Concurrent'', Text (int_str (maxConcurrent - used))),
            (''paused_jobs'', Text (join '','' (i_paused g)))] (i_data g)\<rparr>)"

definition fleet_info :: "outside \<Rightarrow> ocean \<Rightarrow> info \<Rightarrow> info" where
  "fleet_info x oc g =
     (if oc_discovery oc
      then fold (info_fleet_job oc) (allFleetJobs True (x_fleet x))
             (fold (info_peer oc) (allOceans True (x_oceans x)) g)
      else g)"

definition info_data :: "info \<Rightarrow> (string, entry) gomap" where
  "info_data g = mput ''topology'' (Json (graph_json (i_nodes g) (i_edges g)))
     (mput ''jobs'' (Text (join '','' (i_names g))) (i_data g))"

definition GetInfo :: "outside \<Rightarrow> server handler" where
  "GetInfo x r w s = preflight r w s (\<lambda>w. decoding zero_request (rq_body r) w s (\<lambda>req w.
     let oc = sv_ocean s
     in (succeed (Some (info_data (fleet_info x oc (local_info (x_ip x) oc)))) w, s)))"

end
