(* ===== verification/WorkerStat.thy ===== *)
theory WorkerStat
  imports Proto Libs
begin

text \<open>
  The statistics of one request loop (worker/worker.go: Stat, record and the getters) and
  the snapshot of a whole service (worker/server.go: serviceMetric). Times are in
  nanoseconds; doubles are exact reals. The counters are int64 in the code and cannot
  wrap within the life of a process.
\<close>

section \<open>State\<close>

definition latencyBucketBoundsMs :: "real list" where
  "latencyBucketBoundsMs = [1, 2, 5, 10, 25, 50, 100, 250, 500, 1000, 2500, 5000]"

definition nLatencyBuckets :: nat where "nLatencyBuckets = 13"

record stat =
  numReq :: int
  numErr :: int
  numRes :: int
  sumResTime :: int
  minResTime :: int
  maxResTime :: int
  buckets :: "int list"

definition zero_stat :: stat where
  "zero_stat = \<lparr>numReq = 0, numErr = 0, numRes = 0, sumResTime = 0, minResTime = 0, maxResTime = 0,
     buckets = replicate nLatencyBuckets 0\<rparr>"

section \<open>Getters\<close>

definition GetMaxRes :: "stat \<Rightarrow> real" where
  "GetMaxRes w = real_of_int (maxResTime w) / 1000000"

definition GetMinRes :: "stat \<Rightarrow> real" where
  "GetMinRes w = real_of_int (minResTime w) / 1000000"

definition GetAvgRes :: "stat \<Rightarrow> real" where
  "GetAvgRes w =
     (if numRes w = 0 then 0
      else real_of_int (sumResTime w) / real_of_int (numRes w) / 1000000)"

section \<open>record\<close>

text \<open>The first bucket whose bound is not exceeded, or the overflow bucket.\<close>

fun bucket_from :: "nat \<Rightarrow> real list \<Rightarrow> real \<Rightarrow> nat" where
  "bucket_from i [] ms = i"
| "bucket_from i (b # bs) ms = (if ms \<le> b then i else bucket_from (i + 1) bs ms)"

definition bucket_index :: "int \<Rightarrow> nat" where
  "bucket_index resTime = bucket_from 0 latencyBucketBoundsMs (real_of_int resTime / 1000000)"

definition record_attempt :: "bool \<Rightarrow> int \<Rightarrow> stat \<Rightarrow> stat" where
  "record_attempt ok resTime w =
     (let w = w\<lparr>numReq := numReq w + 1\<rparr>
      in if \<not> ok then w\<lparr>numErr := numErr w + 1\<rparr>
         else let w = w\<lparr>numRes := numRes w + 1, sumResTime := sumResTime w + resTime\<rparr>;
                  w = (if minResTime w = 0 \<or> resTime < minResTime w then w\<lparr>minResTime := resTime\<rparr> else w);
                  w = (if resTime > maxResTime w then w\<lparr>maxResTime := resTime\<rparr> else w);
                  bi = bucket_index resTime
              in w\<lparr>buckets := (buckets w)[bi := buckets w ! bi + 1]\<rparr>)"

section \<open>serviceMetric\<close>

text \<open>The locals of the loop over the workers of a service.\<close>

record totals =
  t_req :: int
  t_err :: int
  t_res :: int
  t_nanos :: int
  t_min :: real
  t_max :: real
  t_buckets :: "int list"

definition zero_totals :: totals where
  "zero_totals = \<lparr>t_req = 0, t_err = 0, t_res = 0, t_nanos = 0, t_min = 0, t_max = 0,
     t_buckets = replicate nLatencyBuckets 0\<rparr>"

definition add_stat :: "stat \<Rightarrow> totals \<Rightarrow> totals" where
  "add_stat w t =
     (let t = t\<lparr>t_req := t_req t + numReq w, t_err := t_err t + numErr w,
            t_res := t_res t + numRes w, t_nanos := t_nanos t + sumResTime w,
            t_buckets := map2 (+) (t_buckets t) (buckets w)\<rparr>;
          t = (if GetMaxRes w > t_max t then t\<lparr>t_max := GetMaxRes w\<rparr> else t);
          t = (if GetMinRes w > 0 \<and> (t_min t = 0 \<or> GetMinRes w < t_min t)
               then t\<lparr>t_min := GetMinRes w\<rparr> else t)
      in t)"

definition serviceMetric :: "string \<Rightarrow> stat list \<Rightarrow> real \<Rightarrow> metric" where
  "serviceMetric name ws elapsed =
     (let t = fold add_stat ws zero_totals;
          avg = (if t_res t > 0
                 then real_of_int (t_nanos t) / real_of_int (t_res t) / 1000000 else 0);
          rps = (if elapsed > 0 then real_of_int (t_req t) / elapsed else 0)
      in \<lparr>m_job = name, m_worker_count = to_int32 (int (length ws)), m_request_count = t_req t,
          m_error_count = t_err t, m_avg = avg, m_min = t_min t, m_max = t_max t, m_rps = rps,
          m_elapsed_time = elapsed, m_bucket = t_buckets t\<rparr>)"

section \<open>What a worker's counters mean\<close>

text \<open>The attempts of one request loop: the outcome and the time taken, in order.\<close>

type_synonym attempts = "(bool \<times> int) list"

definition run_attempts :: "attempts \<Rightarrow> stat \<Rightarrow> stat" where
  "run_attempts as w = fold (\<lambda>(ok, t). record_attempt ok t) as w"

definition successes :: "attempts \<Rightarrow> int list" where
  "successes as = map snd (filter fst as)"

lemma bucket_from_le: "bucket_from i bs ms \<le> i + length bs"
proof (induction bs arbitrary: i)
  case (Cons b bs)
  from Cons.IH [of "i + 1"] show ?case by simp
qed simp

lemma bucket_from_range:
  "sorted bs \<Longrightarrow> k \<le> length bs \<Longrightarrow>
   bucket_from i bs ms = i + k \<longleftrightarrow> (k < length bs \<longrightarrow> ms \<le> bs ! k) \<and> (0 < k \<longrightarrow> bs ! (k - 1) < ms)"
proof (induction bs arbitrary: i k)
  case (Cons b bs)
  show ?case
  proof (cases "ms \<le> b")
    case True
    have "bs ! (k - 1) \<ge> b" if "0 < k" "k \<le> length bs" for k using Cons.prems(1) that by auto
    moreover have "b \<le> (b # bs) ! (k - 1)" if "0 < k"
      using Cons.prems that by (cases "k = 1") (auto simp: nth_Cons')
    ultimately show ?thesis using True by (cases k) force+
  next
    case False
    then have "bucket_from i (b # bs) ms = bucket_from (i + 1) bs ms" by simp
    moreover have "bucket_from (i + 1) bs ms \<noteq> i"
    proof -
      have "j \<le> bucket_from j bs ms" for j bs by (induction bs arbitrary: j) (auto, meson Suc_leD)
      then show ?thesis by (metis Suc_eq_plus1 not_less_eq_eq order_refl)
    qed
    ultimately show ?thesis
      using False Cons.IH [of "k - 1" "i + 1"] Cons.prems
      by (cases k) (auto simp: nth_Cons' split: if_splits)
  qed
qed simp

lemma length_bounds: "length latencyBucketBoundsMs = 12"
  by (simp add: latencyBucketBoundsMs_def)

lemma sorted_bounds: "sorted latencyBucketBoundsMs"
  by (simp add: latencyBucketBoundsMs_def)

lemma bucket_index_less: "bucket_index t < nLatencyBuckets"
  using bucket_from_le [of 0 latencyBucketBoundsMs "real_of_int t / 1000000"]
  by (simp add: bucket_index_def latencyBucketBoundsMs_def nLatencyBuckets_def)

lemma run_attempts_snoc: "run_attempts (as @ [(ok, t)]) w = record_attempt ok t (run_attempts as w)"
  by (simp add: run_attempts_def)

lemma successes_snoc: "successes (as @ [(ok, t)]) = successes as @ (if ok then [t] else [])"
  by (simp add: successes_def)

lemma record_attempt_simps:
  "numReq (record_attempt ok t w) = numReq w + 1"
  "numErr (record_attempt ok t w) = (if ok then numErr w else numErr w + 1)"
  "numRes (record_attempt ok t w) = (if ok then numRes w + 1 else numRes w)"
  "sumResTime (record_attempt ok t w) = (if ok then sumResTime w + t else sumResTime w)"
  "maxResTime (record_attempt ok t w) = (if ok then max (maxResTime w) t else maxResTime w)"
  "minResTime (record_attempt ok t w) =
     (if ok \<and> (minResTime w = 0 \<or> t < minResTime w) then t else minResTime w)"
  "buckets (record_attempt ok t w) =
     (if ok then (buckets w)[bucket_index t := buckets w ! bucket_index t + 1] else buckets w)"
  by (simp_all add: record_attempt_def Let_def)

lemma length_buckets [simp]: "length (buckets (run_attempts as zero_stat)) = nLatencyBuckets"
proof (induction as rule: rev_induct)
  case (snoc a as)
  then show ?case by (cases a) (simp add: run_attempts_snoc record_attempt_simps)
qed (simp add: run_attempts_def zero_stat_def)

lemma run_attempts_counts:
  fixes as defines "w \<equiv> run_attempts as zero_stat"
  shows "numReq w = int (length as)" and "numRes w = int (length (successes as))"
    and "numErr w = int (length as) - int (length (successes as))"
    and "sumResTime w = sum_list (successes as)"
  unfolding w_def
proof (induction as rule: rev_induct)
  case (snoc a as)
  { case 1 with snoc show ?case by (cases a) (simp add: run_attempts_snoc record_attempt_simps) }
  { case 2 with snoc show ?case by (cases a) (simp add: run_attempts_snoc record_attempt_simps successes_snoc) }
  { case 3 with snoc show ?case by (cases a) (simp add: run_attempts_snoc record_attempt_simps successes_snoc) }
  { case 4 with snoc show ?case by (cases a) (simp add: run_attempts_snoc record_attempt_simps successes_snoc) }
qed (simp_all add: run_attempts_def zero_stat_def successes_def)

lemma run_attempts_buckets:
  "i < nLatencyBuckets \<Longrightarrow> buckets (run_attempts as zero_stat) ! i =
     int (length (filter (\<lambda>t. bucket_index t = i) (successes as)))"
proof (induction as rule: rev_induct)
  case (snoc a as)
  then show ?case
    by (cases a) (simp add: run_attempts_snoc record_attempt_simps successes_snoc nth_list_update)
qed (simp add: run_attempts_def zero_stat_def successes_def)

lemma run_attempts_extremes:
  assumes "\<forall>t\<in>set (successes as). 0 < t"
  shows "if successes as = [] then minResTime (run_attempts as zero_stat) = 0 \<and> maxResTime (run_attempts as zero_stat) = 0
    else minResTime (run_attempts as zero_stat) = Min (set (successes as)) \<and>
      maxResTime (run_attempts as zero_stat) = Max (set (successes as))"
  using assms
proof (induction as rule: rev_induct)
  case (snoc a as)
  obtain ok t where a: "a = (ok, t)" by force
  have pos: "\<forall>t\<in>set (successes as). 0 < t" using snoc.prems a by (simp add: successes_snoc)
  show ?case
  proof (cases "successes as = []")
    case True
    with snoc a pos show ?thesis by (auto simp: run_attempts_snoc record_attempt_simps successes_snoc)
  next
    case False
    define m where "m = Min (set (successes as))"
    define M where "M = Max (set (successes as))"
    have m: "0 < m" using False pos by (simp add: m_def)
    have old: "minResTime (run_attempts as zero_stat) = m" "maxResTime (run_attempts as zero_stat) = M"
      using snoc.IH pos False by (simp_all add: m_def M_def)
    have new: "Min (insert t (set (successes as))) = min t m" "Max (insert t (set (successes as))) = max t M"
      using False by (simp_all add: m_def M_def)
    show ?thesis
    proof (cases ok)
      case True
      with a old new m show ?thesis
        by (simp add: run_attempts_snoc record_attempt_simps successes_snoc Un_commute del: Min_insert Max_insert)
    next
      case False
      with \<open>successes as \<noteq> []\<close> a old show ?thesis
        by (simp add: run_attempts_snoc record_attempt_simps successes_snoc m_def M_def)
    qed
  qed
qed (simp add: run_attempts_def zero_stat_def successes_def)

section \<open>A service is the sum of its workers\<close>

text \<open>The totals of a list of attempts, whoever made them.\<close>

definition min0 :: "int list \<Rightarrow> int" where "min0 ts = (if ts = [] then 0 else Min (set ts))"
definition max0 :: "int list \<Rightarrow> int" where "max0 ts = (if ts = [] then 0 else Max (set ts))"

definition totals_of :: "attempts \<Rightarrow> totals" where
  "totals_of as =
     (let ts = successes as
      in \<lparr>t_req = int (length as), t_err = int (length as) - int (length ts), t_res = int (length ts),
          t_nanos = sum_list ts, t_min = real_of_int (min0 ts) / 1000000,
          t_max = real_of_int (max0 ts) / 1000000,
          t_buckets = map (\<lambda>i. int (length (filter (\<lambda>t. bucket_index t = i) ts))) [0..<nLatencyBuckets]\<rparr>)"

abbreviation worker_of :: "attempts \<Rightarrow> stat" where
  "worker_of as \<equiv> run_attempts as zero_stat"

definition positive :: "attempts \<Rightarrow> bool" where
  "positive as \<longleftrightarrow> (\<forall>t\<in>set (successes as). 0 < t)"

lemma worker_extremes:
  "positive as \<Longrightarrow> minResTime (worker_of as) = min0 (successes as) \<and> maxResTime (worker_of as) = max0 (successes as)"
  using run_attempts_extremes [of as] by (simp add: positive_def min0_def max0_def split: if_splits)

lemma worker_buckets:
  "buckets (worker_of as) = map (\<lambda>i. int (length (filter (\<lambda>t. bucket_index t = i) (successes as)))) [0..<nLatencyBuckets]"
  by (rule nth_equalityI) (simp_all add: run_attempts_buckets)

lemma successes_append [simp]: "successes (as @ bs) = successes as @ successes bs"
  by (simp add: successes_def)

lemma min0_append:
  assumes "\<forall>t\<in>set (xs @ ys). 0 < t"
  shows "min0 (xs @ ys) = (if 0 < min0 ys \<and> (min0 xs = 0 \<or> min0 ys < min0 xs) then min0 ys else min0 xs)"
proof (cases "xs = [] \<or> ys = []")
  case True
  then show ?thesis using assms by (cases "ys = []") (auto simp: min0_def)
next
  case False
  define a b where "a = Min (set xs)" and "b = Min (set ys)"
  have "0 < a" "0 < b" using False assms by (auto simp: a_def b_def)
  moreover have "Min (set (xs @ ys)) = min a b" using False by (simp add: Min_Un a_def b_def)
  ultimately show ?thesis using False unfolding min0_def a_def [symmetric] b_def [symmetric] by auto
qed

lemma max0_append:
  assumes "\<forall>t\<in>set (xs @ ys). 0 < t"
  shows "max0 (xs @ ys) = (if max0 xs < max0 ys then max0 ys else max0 xs)"
proof (cases "xs = [] \<or> ys = []")
  case True
  have "ys \<noteq> [] \<Longrightarrow> 0 < Max (set ys)" "xs \<noteq> [] \<Longrightarrow> 0 < Max (set xs)"
    using assms by (auto simp: Max_gr_iff)
  with True show ?thesis unfolding max0_def by (auto simp del: Max_gr_iff Max_less_iff)
next
  case False
  define a b where "a = Max (set xs)" and "b = Max (set ys)"
  have "Max (set (xs @ ys)) = max a b" using False by (simp add: Max_Un a_def b_def)
  then show ?thesis using False unfolding max0_def a_def [symmetric] b_def [symmetric] by auto
qed

lemma add_stat_worker:
  assumes "positive as" and "positive bs"
  shows "add_stat (worker_of bs) (totals_of as) = totals_of (as @ bs)"
proof -
  note ext = worker_extremes [OF assms(2)]
  have pos: "\<forall>t\<in>set (successes as @ successes bs). 0 < t" using assms by (auto simp: positive_def)
  have buckets_sum: "map2 (+) (t_buckets (totals_of as)) (buckets (worker_of bs)) = t_buckets (totals_of (as @ bs))"
    by (rule nth_equalityI) (simp_all add: totals_of_def worker_buckets Let_def)
  have scale: "0 < real_of_int x / 1000000 \<longleftrightarrow> 0 < x"
    "real_of_int x / 1000000 < real_of_int y / 1000000 \<longleftrightarrow> x < y" "real_of_int x / 1000000 = 0 \<longleftrightarrow> x = 0" for x y
    by (simp_all add: divide_less_cancel)
  have fields: "t_req (add_stat w t) = t_req t + numReq w" "t_err (add_stat w t) = t_err t + numErr w"
    "t_res (add_stat w t) = t_res t + numRes w" "t_nanos (add_stat w t) = t_nanos t + sumResTime w"
    "t_buckets (add_stat w t) = map2 (+) (t_buckets t) (buckets w)"
    "t_max (add_stat w t) = (if GetMaxRes w > t_max t then GetMaxRes w else t_max t)"
    "t_min (add_stat w t) = (if GetMinRes w > 0 \<and> (t_min t = 0 \<or> GetMinRes w < t_min t)
       then GetMinRes w else t_min t)" for w t
    by (auto simp: add_stat_def Let_def)
  have totals: "t_req (totals_of as) = int (length as)" "t_err (totals_of as) = int (length as) - int (length (successes as))"
    "t_res (totals_of as) = int (length (successes as))" "t_nanos (totals_of as) = sum_list (successes as)"
    "t_min (totals_of as) = real_of_int (min0 (successes as)) / 1000000"
    "t_max (totals_of as) = real_of_int (max0 (successes as)) / 1000000" for as
    by (simp_all add: totals_of_def Let_def)
  show ?thesis
  proof (rule totals.equality)
    show "t_min (add_stat (worker_of bs) (totals_of as)) = t_min (totals_of (as @ bs))"
      using ext by (auto simp: fields totals GetMinRes_def scale min0_append [OF pos])
    show "t_max (add_stat (worker_of bs) (totals_of as)) = t_max (totals_of (as @ bs))"
      using ext by (simp add: fields totals GetMaxRes_def scale max0_append [OF pos])
  qed (simp_all add: fields totals run_attempts_counts buckets_sum)
qed

lemma add_stat_workers:
  "\<forall>as\<in>set ass. positive as \<Longrightarrow> fold add_stat (map worker_of ass) zero_totals = totals_of (concat ass)"
proof (induction ass rule: rev_induct)
  case Nil
  show ?case
    by (simp add: totals_of_def zero_totals_def successes_def min0_def max0_def map_replicate_const)
next
  case (snoc as ass)
  have "positive (concat ass)" using snoc.prems by (auto simp: positive_def successes_def)
  with snoc show ?case by (simp add: add_stat_worker)
qed

lemma serviceMetric_eq:
  assumes "\<forall>as\<in>set ass. positive as"
  shows "serviceMetric name (map worker_of ass) e =
    (let t = totals_of (concat ass)
     in \<lparr>m_job = name, m_worker_count = to_int32 (int (length ass)), m_request_count = t_req t,
          m_error_count = t_err t,
          m_avg = (if t_res t > 0 then real_of_int (t_nanos t) / real_of_int (t_res t) / 1000000 else 0),
          m_min = t_min t, m_max = t_max t, m_rps = (if e > 0 then real_of_int (t_req t) / e else 0),
          m_elapsed_time = e, m_bucket = t_buckets t\<rparr>)"
  by (simp add: serviceMetric_def add_stat_workers [OF assms] Let_def)

section \<open>Properties\<close>

text \<open>C37: after any sequence of attempts a worker has counted every attempt, put every failure in
  the error count and only there, and kept the exact number, sum, least and greatest time
  of its successes and, in each bucket of the histogram, the number of successes within its
  bounds.\<close>

theorem stat_exact:
  assumes "\<forall>t\<in>set (successes as). 0 < t"
  defines "w \<equiv> run_attempts as zero_stat" and "ts \<equiv> successes as"
  shows "numReq w = int (length as) \<and> numRes w = int (length ts) \<and> numErr w = int (length (filter (Not \<circ> fst) as)) \<and>
    GetAvgRes w = (if ts = [] then 0 else real_of_int (sum_list ts) / real (length ts) / 1000000) \<and>
    GetMinRes w = (if ts = [] then 0 else real_of_int (Min (set ts)) / 1000000) \<and>
    GetMaxRes w = (if ts = [] then 0 else real_of_int (Max (set ts)) / 1000000) \<and>
    (\<forall>i<13. buckets w ! i = int (length (filter (\<lambda>t.
       (i < 12 \<longrightarrow> real_of_int t / 1000000 \<le> latencyBucketBoundsMs ! i) \<and>
       (0 < i \<longrightarrow> latencyBucketBoundsMs ! (i - 1) < real_of_int t / 1000000)) ts)))"
proof -
  have err: "numErr w = int (length (filter (Not \<circ> fst) as))"
    using sum_length_filter_compl [of fst as]
    by (simp add: w_def run_attempts_counts) (simp add: successes_def comp_def)
  have hist: "buckets w ! i = int (length (filter (\<lambda>t.
       (i < 12 \<longrightarrow> real_of_int t / 1000000 \<le> latencyBucketBoundsMs ! i) \<and>
       (0 < i \<longrightarrow> latencyBucketBoundsMs ! (i - 1) < real_of_int t / 1000000)) ts))" if "i < 13" for i
  proof -
    have "(bucket_index t = i) \<longleftrightarrow> (i < 12 \<longrightarrow> real_of_int t / 1000000 \<le> latencyBucketBoundsMs ! i) \<and>
       (0 < i \<longrightarrow> latencyBucketBoundsMs ! (i - 1) < real_of_int t / 1000000)" for t
      using bucket_from_range [OF sorted_bounds, of i 0 "real_of_int t / 1000000"] that
      by (simp add: bucket_index_def length_bounds)
    then show ?thesis
      using run_attempts_buckets [of i as] that by (simp add: w_def ts_def nLatencyBuckets_def)
  qed
  have ext: "minResTime w = min0 ts" "maxResTime w = max0 ts"
    using worker_extremes [of as] assms(1) by (simp_all add: positive_def w_def ts_def)
  show ?thesis
    using err hist ext
    by (simp add: GetAvgRes_def GetMinRes_def GetMaxRes_def min0_def max0_def)
      (simp add: w_def ts_def run_attempts_counts)
qed

theorem stat_exact_witness:
  "buckets (run_attempts [(True, 1000000), (False, 7), (True, 3000000)] zero_stat) ! 0 = 1 \<and>
   GetAvgRes (run_attempts [(True, 1000000), (False, 7), (True, 3000000)] zero_stat) = 2"
  using stat_exact [of "[(True, 1000000), (False, 7), (True, 3000000)]"]
  by (simp add: successes_def latencyBucketBoundsMs_def)

text \<open>The snapshot of a service does not depend on which of its workers made which request:
  it is the snapshot of one worker that made them all, the worker count apart.\<close>

theorem service_is_one_worker:
  assumes "\<forall>as\<in>set ass. \<forall>t\<in>set (successes as). 0 < t"
  shows "serviceMetric name (map (\<lambda>as. run_attempts as zero_stat) ass) e =
    (serviceMetric name [run_attempts (concat ass) zero_stat] e)\<lparr>m_worker_count := to_int32 (int (length ass))\<rparr>"
proof -
  have "\<forall>as\<in>set ass. positive as" using assms by (simp add: positive_def)
  moreover have "\<forall>as\<in>set [concat ass]. positive as" using assms by (auto simp: positive_def successes_def)
  ultimately show ?thesis
    using serviceMetric_eq [of ass name e] serviceMetric_eq [of "[concat ass]" name e] by (simp add: Let_def)
qed

theorem service_is_one_worker_witness:
  "m_avg (serviceMetric ''t'' (map (\<lambda>as. run_attempts as zero_stat)
     [[(True, 1000000), (True, 1000000)], [(True, 4000000)]]) 1) = 2"
proof -
  let ?ass = "[[(True, 1000000), (True, 1000000)], [(True, 4000000)]]"
  have "\<forall>as\<in>set ?ass. \<forall>t\<in>set (successes as). 0 < t" and pos: "\<forall>as\<in>set [concat ?ass]. positive as"
    by (simp_all add: successes_def positive_def)
  from service_is_one_worker [OF this(1), of "''t''" 1]
  have "m_avg (serviceMetric ''t'' (map (\<lambda>as. run_attempts as zero_stat) ?ass) 1) =
      m_avg (serviceMetric ''t'' (map (\<lambda>as. run_attempts as zero_stat) [concat ?ass]) 1)" by simp
  also have "\<dots> = 2" unfolding serviceMetric_eq [OF pos] by (simp add: Let_def totals_of_def successes_def)
  finally show ?thesis .
qed

end
