(* ===== verification/Fleet.thy ===== *)
theory Fleet
  imports ApiView WorkerStat
begin

text \<open>
  From a request to the figure in the web control: the aggregate the ocean shows of a
  test against the attempts its workers made. A report is what serviceMetric makes of the
  attempts of a worker's request loops at some time after the start.
\<close>

section \<open>Closed form of the aggregate\<close>

definition report_of :: "string \<Rightarrow> attempts list \<times> real \<Rightarrow> metric" where
  "report_of name p = serviceMetric name (map worker_of (fst p)) (snd p)"

definition all_attempts :: "(attempts list \<times> real) list \<Rightarrow> attempts" where
  "all_attempts fleet = concat (map (concat \<circ> fst) fleet)"

definition fleet_positive :: "(attempts list \<times> real) list \<Rightarrow> bool" where
  "fleet_positive fleet \<longleftrightarrow> (\<forall>p\<in>set fleet. \<forall>as\<in>set (fst p). positive as)"

lemma add_buckets_map2: "length a = length b \<Longrightarrow> add_buckets a b = map2 (+) a b"
  by (induction a b rule: add_buckets.induct) auto

lemma add_buckets_Nil: "add_buckets [] b = b"
  by (induction b) auto

lemma gather_fields:
  "mt_Name (g_agg (gather_metric m g)) = mt_Name (g_agg g)"
  "mt_WorkerCount (g_agg (gather_metric m g)) = mt_WorkerCount (g_agg g) + m_worker_count m"
  "mt_RequestCount (g_agg (gather_metric m g)) = mt_RequestCount (g_agg g) + m_request_count m"
  "mt_ErrorCount (g_agg (gather_metric m g)) = mt_ErrorCount (g_agg g) + m_error_count m"
  "mt_Rps (g_agg (gather_metric m g)) = mt_Rps (g_agg g) + m_rps m"
  "mt_Avg (g_agg (gather_metric m g)) = mt_Avg (g_agg g)"
  "mt_Max (g_agg (gather_metric m g)) = (if m_max m > mt_Max (g_agg g) then m_max m else mt_Max (g_agg g))"
  "mt_Min (g_agg (gather_metric m g)) =
     (if m_min m > 0 \<and> (mt_Min (g_agg g) = 0 \<or> m_min m < mt_Min (g_agg g)) then m_min m else mt_Min (g_agg g))"
  "mt_ElapedTime (g_agg (gather_metric m g)) =
     (if m_elapsed_time m > mt_ElapedTime (g_agg g) then m_elapsed_time m else mt_ElapedTime (g_agg g))"
  "g_merged (gather_metric m g) = add_buckets (g_merged g) (m_bucket m)"
  "g_avgWeighted (gather_metric m g) = (if m_error_count m < m_request_count m
     then g_avgWeighted g + m_avg m * real_of_int (m_request_count m - m_error_count m) else g_avgWeighted g)"
  "g_weight (gather_metric m g) = (if m_error_count m < m_request_count m
     then g_weight g + real_of_int (m_request_count m - m_error_count m) else g_weight g)"
  by (auto simp: gather_metric_def Let_def)

text \<open>The totals behind the gathered values.\<close>

definition gathered :: "attempts \<Rightarrow> gather \<Rightarrow> bool" where
  "gathered as g \<longleftrightarrow>
     mt_RequestCount (g_agg g) = int (length as) \<and>
     mt_ErrorCount (g_agg g) = int (length as) - int (length (successes as)) \<and>
     mt_Min (g_agg g) = real_of_int (min0 (successes as)) / 1000000 \<and>
     mt_Max (g_agg g) = real_of_int (max0 (successes as)) / 1000000 \<and>
     g_weight g = real (length (successes as)) \<and>
     g_avgWeighted g = real_of_int (sum_list (successes as)) / 1000000 \<and>
     mt_Avg (g_agg g) = 0 \<and>
     (g_merged g = t_buckets (totals_of as) \<or> (as = [] \<and> g_merged g = []))"

lemma gathered_init: "gathered [] (gather_init name)"
  by (simp add: gathered_def gather_init_def zero_lib_metric_def successes_def min0_def max0_def)

lemma report_fields:
  assumes "\<forall>as\<in>set ass. positive as"
  defines "as \<equiv> concat ass"
  shows "m_request_count (report_of name (ass, e)) = int (length as)"
    and "m_error_count (report_of name (ass, e)) = int (length as) - int (length (successes as))"
    and "m_min (report_of name (ass, e)) = real_of_int (min0 (successes as)) / 1000000"
    and "m_max (report_of name (ass, e)) = real_of_int (max0 (successes as)) / 1000000"
    and "m_bucket (report_of name (ass, e)) = t_buckets (totals_of as)"
    and "m_avg (report_of name (ass, e)) * real (length (successes as)) = real_of_int (sum_list (successes as)) / 1000000"
  unfolding report_of_def fst_conv snd_conv serviceMetric_eq [OF assms(1)] as_def
  by (simp_all add: Let_def totals_of_def)

lemma positive_concat: "\<forall>as\<in>set ass. positive as \<Longrightarrow> positive (concat ass)"
  by (auto simp: positive_def successes_def)

lemma scale6:
  "0 < real_of_int x / 1000000 \<longleftrightarrow> 0 < x" "real_of_int x / 1000000 = 0 \<longleftrightarrow> x = 0"
  "real_of_int x / 1000000 < real_of_int y / 1000000 \<longleftrightarrow> x < y"
  by (simp_all add: divide_less_cancel)

lemma buckets_append:
  "map2 (+) (t_buckets (totals_of as)) (t_buckets (totals_of bs)) = t_buckets (totals_of (as @ bs))"
  by (rule nth_equalityI) (simp_all add: totals_of_def Let_def)

lemma t_buckets_Nil: "t_buckets (totals_of []) = replicate nLatencyBuckets 0"
  by (simp add: totals_of_def successes_def map_replicate_const)

lemma length_t_buckets [simp]: "length (t_buckets (totals_of as)) = nLatencyBuckets"
  by (simp add: totals_of_def Let_def)

lemma gathered_report:
  assumes "gathered as g" and "positive as" and ass: "\<forall>as\<in>set ass. positive as"
  shows "gathered (as @ concat ass) (gather_metric (report_of name (ass, e)) g)"
proof -
  let ?bs = "concat ass" and ?m = "report_of name (ass, e)"
  note rep = report_fields [OF ass, of name e]
  have pos: "\<forall>t\<in>set (successes as @ successes ?bs). 0 < t"
    using assms(2) positive_concat [OF ass] by (auto simp: positive_def)
  have g: "mt_Min (g_agg g) = real_of_int (min0 (successes as)) / 1000000"
    "mt_Max (g_agg g) = real_of_int (max0 (successes as)) / 1000000"
    using assms(1) by (simp_all only: gathered_def)
  have "add_buckets (g_merged g) (m_bucket ?m) = t_buckets (totals_of (as @ ?bs))"
    using assms(1) by (auto simp: gathered_def rep add_buckets_map2 buckets_append add_buckets_Nil)
  moreover have "mt_Min (g_agg (gather_metric ?m g)) = real_of_int (min0 (successes (as @ ?bs))) / 1000000"
    by (auto simp: gather_fields rep g scale6 min0_append [OF pos])
  moreover have "mt_Max (g_agg (gather_metric ?m g)) = real_of_int (max0 (successes (as @ ?bs))) / 1000000"
    by (auto simp: gather_fields rep g scale6 max0_append [OF pos])
  moreover have "g_avgWeighted (gather_metric ?m g) = real_of_int (sum_list (successes (as @ ?bs))) / 1000000"
    using assms(1) rep(6) by (auto simp: gathered_def gather_fields rep(1,2) add_divide_distrib)
  moreover have "g_weight (gather_metric ?m g) = real (length (successes (as @ ?bs)))"
    using assms(1) by (simp add: gathered_def gather_fields rep(1,2))
  ultimately show ?thesis
    using assms(1) by (simp add: gathered_def gather_fields rep(1,2))
qed

lemma gathered_fleet:
  "fleet_positive fleet \<Longrightarrow>
   positive (all_attempts fleet) \<and>
   gathered (all_attempts fleet) (fold gather_metric (map (report_of name) fleet) (gather_init name))"
proof (induction fleet rule: rev_induct)
  case Nil
  then show ?case by (simp add: all_attempts_def gathered_init positive_def successes_def)
next
  case (snoc p fleet)
  obtain ass e where p: "p = (ass, e)" by force
  have ass: "\<forall>as\<in>set ass. positive as" and "fleet_positive fleet"
    using snoc.prems p by (simp_all add: fleet_positive_def)
  with snoc.IH gathered_report [OF _ _ ass] positive_concat [OF ass] p show ?case
    by (auto simp: all_attempts_def positive_def)
qed

text \<open>The histogram is there as soon as one worker has reported.\<close>

lemma gathered_merged:
  assumes "fleet_positive fleet" and "fleet \<noteq> []"
  shows "g_merged (fold gather_metric (map (report_of name) fleet) (gather_init name)) =
    t_buckets (totals_of (all_attempts fleet))"
proof -
  obtain ass e rest where fleet: "fleet = rest @ [(ass, e)]"
    using assms(2) by (metis old.prod.exhaust rev_exhaust)
  have ass: "\<forall>as\<in>set ass. positive as" and "fleet_positive rest"
    using assms(1) fleet by (simp_all add: fleet_positive_def)
  let ?g = "fold gather_metric (map (report_of name) rest) (gather_init name)"
  define bs where "bs = all_attempts rest"
  have "gathered bs ?g" using gathered_fleet [OF \<open>fleet_positive rest\<close>] by (simp add: bs_def)
  then have "g_merged ?g = t_buckets (totals_of bs) \<or> bs = [] \<and> g_merged ?g = []"
    by (simp only: gathered_def)
  moreover have "all_attempts fleet = bs @ concat ass" by (simp add: fleet bs_def all_attempts_def)
  ultimately show ?thesis
    by (auto simp: fleet gather_fields report_fields [OF ass] add_buckets_map2 buckets_append add_buckets_Nil)
qed

section \<open>Properties\<close>

lemma aggregate_fields:
  "fst (aggregate name ms) = (let g = fold gather_metric ms (gather_init name) in
     if g_weight g > 0 then (g_agg g)\<lparr>mt_Avg := g_avgWeighted g / g_weight g\<rparr> else g_agg g)"
  "snd (aggregate name ms) = g_merged (fold gather_metric ms (gather_init name))"
  by (simp_all add: aggregate_def Let_def)

text \<open>C18: the figures the ocean shows of a test are those of all requests of all workers taken
  together: the counts, the least, greatest and mean response time of the successes (a true
  mean, however unevenly the workers are loaded), and the histogram.\<close>

theorem fleet_metric_exact:
  fixes name :: string
  assumes "\<forall>p\<in>set fleet. \<forall>as\<in>set (fst p). \<forall>t\<in>set (successes as). 0 < t" and "fleet \<noteq> []"
  defines "as \<equiv> concat (map (concat \<circ> fst) fleet)"
    and "res \<equiv> aggregate name (map (\<lambda>(ass, e). serviceMetric name (map (\<lambda>as. run_attempts as zero_stat) ass) e) fleet)"
  shows "mt_RequestCount (fst res) = int (length as) \<and>
    mt_ErrorCount (fst res) = int (length (filter (Not \<circ> fst) as)) \<and>
    mt_Avg (fst res) = (if successes as = [] then 0
      else real_of_int (sum_list (successes as)) / real (length (successes as)) / 1000000) \<and>
    mt_Min (fst res) = (if successes as = [] then 0 else real_of_int (Min (set (successes as))) / 1000000) \<and>
    mt_Max (fst res) = (if successes as = [] then 0 else real_of_int (Max (set (successes as))) / 1000000) \<and>
    snd res = map (\<lambda>i. int (length (filter (\<lambda>t. bucket_index t = i) (successes as)))) [0..<13]"
proof -
  have pos: "fleet_positive fleet" using assms(1) by (simp add: fleet_positive_def positive_def)
  define g where "g = fold gather_metric (map (report_of name) fleet) (gather_init name)"
  have reports: "map (\<lambda>(ass, e). serviceMetric name (map (\<lambda>as. run_attempts as zero_stat) ass) e) fleet =
      map (report_of name) fleet"
    by (simp add: report_of_def case_prod_unfold)
  have as: "as = all_attempts fleet" by (simp add: as_def all_attempts_def)
  have G: "gathered as g" using gathered_fleet [OF pos] by (simp add: as g_def)
  have err: "int (length as) - int (length (successes as)) = int (length (filter (Not \<circ> fst) as))"
    using sum_length_filter_compl [of fst as] by (simp add: successes_def comp_def)
  have "g_merged g = t_buckets (totals_of as)"
    using G gathered_merged [OF pos assms(2)] by (simp add: g_def as)
  then have merged: "g_merged g = map (\<lambda>i. int (length (filter (\<lambda>t. bucket_index t = i) (successes as)))) [0..<13]"
    by (simp add: totals_of_def Let_def nLatencyBuckets_def del: upt_Suc)
  have vals: "mt_RequestCount (g_agg g) = int (length as)"
    "mt_ErrorCount (g_agg g) = int (length as) - int (length (successes as))"
    "mt_Min (g_agg g) = real_of_int (min0 (successes as)) / 1000000"
    "mt_Max (g_agg g) = real_of_int (max0 (successes as)) / 1000000"
    "g_weight g = real (length (successes as))"
    "g_avgWeighted g = real_of_int (sum_list (successes as)) / 1000000" "mt_Avg (g_agg g) = 0"
    using G by (simp_all only: gathered_def)
  show ?thesis
    unfolding res_def reports aggregate_fields g_def [symmetric] merged
    using err by (auto simp: vals Let_def min0_def max0_def simp del: upt_Suc)
qed

theorem fleet_metric_exact_witness:
  "mt_Avg (fst (aggregate ''t'' [serviceMetric ''t'' [run_attempts [(True, 1000000), (False, 9)] zero_stat] 1,
     serviceMetric ''t'' [run_attempts [(True, 1000000), (True, 4000000)] zero_stat] 1])) = 2"
proof -
  let ?fleet = "[([[(True, 1000000), (False, 9)]], 1), ([[(True, 1000000), (True, 4000000)]], 1 :: real)]"
  have "\<forall>p\<in>set ?fleet. \<forall>as\<in>set (fst p). \<forall>t\<in>set (successes as). 0 < t" by (auto simp: successes_def)
  from fleet_metric_exact [OF this, of "''t''"] show ?thesis by (simp add: successes_def)
qed

end
