(* ===== verification/Routes.thy ===== *)
theory Routes
  imports ApiView AuthProps
begin

text \<open>
  The HTTP server of an ocean: the application wrapper (libs/web.go), the part of
  http.ServeMux that it uses, and the routes that main registers behind the gate
  (master/ocean.go). A request is served by the wrapped router on a fresh response.
\<close>

type_synonym api_handler = "outside \<Rightarrow> server handler"

section \<open>The router\<close>

text \<open>
  http.ServeMux with patterns that are plain paths: a path is cleaned first (empty and dot
  elements dropped, a double dot takes the element before it away), and a request whose
  path is not clean is redirected. The text of the redirect's body and the escaping of its
  location are not modelled. Registering a pattern twice panics.
\<close>

fun split_path :: "string \<Rightarrow> string list" where
  "split_path [] = [[]]"
| "split_path (c # s) =
     (if c = CHR ''/'' then [] # split_path s
      else case split_path s of [] \<Rightarrow> [[c]] | e # es \<Rightarrow> (c # e) # es)"

fun clean_elems :: "string list \<Rightarrow> string list \<Rightarrow> string list" where
  "clean_elems acc [] = rev acc"
| "clean_elems acc (e # es) =
     (if e = [] \<or> e = ''.'' then clean_elems acc es
      else if e = ''..'' then clean_elems (tl acc) es
      else clean_elems (e # acc) es)"

definition clean_path :: "string \<Rightarrow> string" where
  "clean_path p =
     (if p = [] then ''/''
      else let p = (if hd p \<noteq> CHR ''/'' then CHR ''/'' # p else p);
               np = CHR ''/'' # join ''/'' (clean_elems [] (split_path p))
           in if last p = CHR ''/'' \<and> np \<noteq> ''/'' then np @ ''/'' else np)"

definition redirect :: "string \<Rightarrow> http_request \<Rightarrow> response \<Rightarrow> response" where
  "redirect path r w =
     (let ct = (if map_of (rw_header w) ''Content-Type'' = None \<and> rq_Method r \<in> {''GET'', ''HEAD''}
                then set_header ''Content-Type'' ''text/html; charset=utf-8'' else id)
      in write_header 301 (ct (set_header ''Location'' path w)))"

definition mux_serve :: "(string \<times> api_handler) list \<Rightarrow> api_handler" where
  "mux_serve mux x r w s =
     (let path = (if rq_Method r = ''CONNECT'' then rq_Path r else clean_path (rq_Path r))
      in if path \<noteq> rq_Path r then (redirect path r w, s)
         else case map_of mux path of
                None \<Rightarrow> (http_error ''404 page not found'' 404 w, s)
              | Some h \<Rightarrow> h x r w s)"

section \<open>The application\<close>

record app =
  ap_Addr :: string
  ap_mux :: "(string \<times> api_handler) list"
  ap_Handler :: "(api_handler \<Rightarrow> api_handler) option"

definition help_page :: api_handler where
  "help_page x r w s = (write_chunk (Plain ''{}'') w, s)"

definition setRoute :: "app \<Rightarrow> app" where
  "setRoute a = a\<lparr>ap_mux := [(''/help'', help_page)]\<rparr>"

definition Init_app :: "string \<Rightarrow> app" where
  "Init_app addr = setRoute \<lparr>ap_Addr = addr, ap_mux = [], ap_Handler = None\<rparr>"

text \<open>AddAPI: None where HandleFunc panics.\<close>

definition AddAPI :: "string \<Rightarrow> api_handler \<Rightarrow> app \<Rightarrow> app option" where
  "AddAPI pat h a =
     (if pat = [] \<or> pat \<in> mkeys (ap_mux a) then None else Some (a\<lparr>ap_mux := ap_mux a @ [(pat, h)]\<rparr>))"

definition Use :: "(api_handler \<Rightarrow> api_handler) \<Rightarrow> app \<Rightarrow> app" where
  "Use mw a = a\<lparr>ap_Handler := Some mw\<rparr>"

text \<open>What the server calls for a request: the wrapper around the router, or the router.\<close>

definition app_serve :: "app \<Rightarrow> api_handler" where
  "app_serve a = (case ap_Handler a of None \<Rightarrow> mux_serve (ap_mux a) | Some mw \<Rightarrow> mw (mux_serve (ap_mux a)))"

section \<open>The routes of an ocean\<close>

definition APIVersion :: string where "APIVersion = ''/api/v1''"

definition ocean_routes :: "(string \<times> api_handler) list" where
  "ocean_routes =
     [(APIVersion @ ''/login'', Login),
      (APIVersion @ ''/logout'', Logout),
      (APIVersion @ ''/session'', \<lambda>_. Session),
      (APIVersion @ ''/start'', \<lambda>_. Start),
      (APIVersion @ ''/stop'', \<lambda>_. Stop),
      (APIVersion @ ''/pause'', \<lambda>_. Pause),
      (APIVersion @ ''/resume'', \<lambda>_. Resume),
      (APIVersion @ ''/metrics'', \<lambda>_. GetMetrics),
      (APIVersion @ ''/info'', GetInfo),
      (APIVersion @ ''/sample'', \<lambda>_. GetSample),
      (APIVersion @ ''/bookmarks'', \<lambda>_. GetBookmarks),
      (APIVersion @ ''/bookmark'', SaveBookmark_api),
      (APIVersion @ ''/unbookmark'', \<lambda>_. DeleteBookmark_api),
      (APIVersion @ ''/envs'', \<lambda>_. GetEnvs),
      (APIVersion @ ''/env'', SaveEnv_api),
      (APIVersion @ ''/env-delete'', \<lambda>_. DeleteEnv_api),
      (APIVersion @ ''/env-active'', \<lambda>_. SetActiveEnv)]"

definition gate :: "api_handler \<Rightarrow> api_handler" where
  "gate inner x = Middleware (x_crypto x) (x_now x) sv_auth (inner x)"

fun add_all :: "(string \<times> api_handler) list \<Rightarrow> app \<Rightarrow> app option" where
  "add_all [] a = Some a"
| "add_all ((p, h) # hs) a = Option.bind (AddAPI p h a) (add_all hs)"

definition ocean_app :: "string \<Rightarrow> app option" where
  "ocean_app addr = map_option (Use gate) (add_all ocean_routes (Init_app addr))"

text \<open>One request to a running ocean.\<close>

definition serve :: "outside \<Rightarrow> http_request \<Rightarrow> server \<Rightarrow> response \<times> server" where
  "serve x r s =
     (case ocean_app (oc_httpAddr (sv_ocean s)) of
        None \<Rightarrow> (fresh_response, s)
      | Some a \<Rightarrow> app_serve a x r fresh_response s)"

lemma ocean_app_built:
  "ocean_app addr = Some \<lparr>ap_Addr = addr, ap_mux = (''/help'', help_page) # ocean_routes, ap_Handler = Some gate\<rparr>"
  by (simp add: ocean_app_def ocean_routes_def APIVersion_def Init_app_def setRoute_def AddAPI_def Use_def)

lemma serve_gated: "serve x r s = gate (mux_serve ((''/help'', help_page) # ocean_routes)) x r fresh_response s"
  by (simp add: serve_def ocean_app_built app_serve_def)

section \<open>What a request does\<close>

text \<open>
  The effect of a request on the server: nothing, one operation of the scheduler, or one
  statement on the database.
\<close>

definition one_operation :: "server \<Rightarrow> server \<Rightarrow> bool" where
  "one_operation s s' \<longleftrightarrow> s' = s \<or>
     (\<exists>oc'. ocean_step True (sv_ocean s) oc' \<and> s' = s\<lparr>sv_ocean := oc'\<rparr>) \<or>
     (\<exists>db'. store_step (sv_store s) db' \<and> users db' = users (sv_store s) \<and> s' = put_store db' s)"

lemma one_refl [simp]: "one_operation s s"
  by (simp add: one_operation_def)

lemma one_ocean: "ocean_step True (sv_ocean s) oc' \<Longrightarrow> one_operation s (s\<lparr>sv_ocean := oc'\<rparr>)"
  by (auto simp: one_operation_def)

lemma one_store:
  "store_step (sv_store s) db' \<Longrightarrow> users db' = users (sv_store s) \<Longrightarrow> one_operation s (put_store db' s)"
  by (auto simp: one_operation_def)

lemma users_kept:
  "CreateSession h i c e ip ua db = Inr db' \<Longrightarrow> users db' = users db"
  "DeleteSession h db = Inr db' \<Longrightarrow> users db' = users db"
  "SaveBookmark now b db = Inr db' \<Longrightarrow> users db' = users db"
  "DeleteBookmark n db = Inr db' \<Longrightarrow> users db' = users db"
  "SaveEnv now v db = Inr db' \<Longrightarrow> users db' = users db"
  "DeleteEnv n db = Inr db' \<Longrightarrow> users db' = users db"
  "SetSetting k x db = Inr db' \<Longrightarrow> users db' = users db"
  by (auto simp: CreateSession_def DeleteSession_def SaveBookmark_def DeleteBookmark_def SaveEnv_def
      DeleteEnv_def SetSetting_def Let_def split: if_splits)

definition answered :: "int set \<Rightarrow> response \<Rightarrow> bool" where
  "answered S w \<longleftrightarrow> (\<exists>c \<in> S. rw_status w = Some c)"

text \<open>A handler that answers with one of the API's codes and does at most one operation.\<close>

definition proper :: "api_handler \<Rightarrow> bool" where
  "proper h \<longleftrightarrow> (\<forall>x r w s. rw_status w = None \<longrightarrow>
     answered {200, 400, 401, 500} (fst (h x r w s)) \<and> one_operation s (snd (h x r w s)))"

lemma cors_status [simp]: "rw_status (cors r w) = rw_status w"
  by (simp add: cors_def Let_def)

lemma SetCookie_status [simp]: "rw_status (SetCookie c w) = rw_status w"
  by (simp add: SetCookie_def)

lemma properI:
  "(\<And>x r w s. rw_status w = None \<Longrightarrow>
     answered {200, 400, 401, 500} (fst (h x r w s)) \<and> one_operation s (snd (h x r w s))) \<Longrightarrow> proper h"
  by (simp add: proper_def)

lemma preflight_proper:
  assumes "rw_status w = None"
    and "\<And>w. rw_status w = None \<Longrightarrow> answered {200, 400, 401, 500} (fst (k w)) \<and> one_operation s (snd (k w))"
  shows "answered {200, 400, 401, 500} (fst (preflight r w s k)) \<and> one_operation s (snd (preflight r w s k))"
  using assms(1) assms(2) [of "cors r w"] by (simp add: preflight_def Options_def answered_def)

lemma decoding_proper:
  assumes "rw_status w = None"
    and "\<And>v w. rw_status w = None \<Longrightarrow> answered {200, 400, 401, 500} (fst (k v w)) \<and> one_operation s (snd (k v w))"
  shows "answered {200, 400, 401, 500} (fst (decoding zero b w s k)) \<and> one_operation s (snd (decoding zero b w s k))"
  using assms by (cases b) (simp_all add: decoding_def Decoder_def http_error_def answered_def)

lemma refuse_answered [simp]:
  "rw_status w = None \<Longrightarrow> answered S (refuse st code msg w) \<longleftrightarrow> st \<in> S"
  by (simp add: refuse_def answered_def)

lemma succeed_answered [simp]: "rw_status w = None \<Longrightarrow> answered S (succeed d w) \<longleftrightarrow> 200 \<in> S"
  by (simp add: succeed_def answered_def)

lemma answer_answered [simp]: "rw_status w = None \<Longrightarrow> answered S (fst (answer s w out)) \<longleftrightarrow> 200 \<in> S"
  by (simp add: answer_def answered_def)

lemma answer_operation:
  "ocean_step True (sv_ocean s) (snd out) \<Longrightarrow> one_operation s (snd (answer s w out))"
  by (simp add: answer_def one_ocean)

lemmas proper_rules = properI preflight_proper decoding_proper

lemma proper_scheduler: "proper (\<lambda>_. Start)" "proper (\<lambda>_. Stop)" "proper (\<lambda>_. Pause)" "proper (\<lambda>_. Resume)"
  unfolding Start_def Stop_def Pause_def Resume_def
  by (intro proper_rules; simp; intro answer_operation;
      rule ocean_step.start ocean_step.stop ocean_step.pause ocean_step.resume, rule prod.collapse [symmetric])+

lemma proper_views: "proper (\<lambda>_. Session)" "proper (\<lambda>_. GetMetrics)" "proper GetInfo" "proper (\<lambda>_. GetSample)"
  "proper (\<lambda>_. GetBookmarks)" "proper (\<lambda>_. GetEnvs)"
  unfolding Session_def GetMetrics_def GetInfo_def GetSample_def GetBookmarks_def GetEnvs_def
  by (intro proper_rules; simp add: Let_def case_prod_unfold answered_def refuse_def succeed_def split: option.split sum.split)+

lemma proper_store: "proper SaveBookmark_api" "proper (\<lambda>_. DeleteBookmark_api)" "proper SaveEnv_api"
  "proper (\<lambda>_. DeleteEnv_api)" "proper (\<lambda>_. SetActiveEnv)"
  unfolding SaveBookmark_api_def DeleteBookmark_api_def SaveEnv_api_def DeleteEnv_api_def SetActiveEnv_def
  by (intro proper_rules; auto simp: Let_def split: sum.split intro!: one_store intro: store_step.intros users_kept)+

lemma Issue_operation:
  "Issue cr rnd now u ip ua (sv_auth s) = Some (raw, expiry, a) \<Longrightarrow> one_operation s (s\<lparr>sv_auth := a\<rparr>)"
  by (auto simp: Issue_def Let_def one_operation_def put_store_def split: option.splits sum.splits
      intro: store_step.create_session users_kept)

lemma Revoke_operation: "one_operation s (s\<lparr>sv_auth := Revoke cr raw (sv_auth s)\<rparr>)"
  by (auto simp: Revoke_def one_operation_def put_store_def split: sum.split intro: store_step.delete_session users_kept)

lemma proper_sessions: "proper Login" "proper Logout"
proof -
  show "proper Login"
    unfolding Login_def
    by (intro proper_rules)
      (auto simp: Let_def split: option.split provider.split intro: Issue_operation)
  show "proper Logout"
    unfolding Logout_def
    by (intro proper_rules) (auto simp: Let_def Revoke_operation split: option.split)
qed

lemmas proper_handlers = proper_scheduler proper_views proper_store proper_sessions

lemma proper_routes: "(p, h) \<in> set ocean_routes \<Longrightarrow> proper h"
  using proper_handlers by (auto simp: ocean_routes_def)

lemma gate_cases:
  obtains (preflight) "rq_Method r = ''OPTIONS''" and "snd (gate g x r fresh_response s) = s"
      and "rw_status (fst (gate g x r fresh_response s)) = Some 204"
  | (public) "rq_Method r \<noteq> ''OPTIONS''" and "rq_Path r \<in> set publicPaths"
      and "gate g x r fresh_response s = g x r (auth_cors r fresh_response) s"
  | (denied) "rq_Method r \<noteq> ''OPTIONS''" and "rq_Path r \<notin> set publicPaths"
      and "Option.bind (map_of (rq_Cookies r) (a_cookieName (sv_auth s))) (Validate (x_crypto x) (x_now x) (sv_auth s)) = None"
      and "snd (gate g x r fresh_response s) = s"
      and "rw_status (fst (gate g x r fresh_response s)) = Some 401"
  | (let_in) u where "rq_Method r \<noteq> ''OPTIONS''" and "rq_Path r \<notin> set publicPaths"
      and "Option.bind (map_of (rq_Cookies r) (a_cookieName (sv_auth s))) (Validate (x_crypto x) (x_now x) (sv_auth s)) = Some u"
      and "gate g x r fresh_response s = g x (r\<lparr>rq_user := Some u\<rparr>) (auth_cors r fresh_response) s"
proof -
  let ?v = "Option.bind (map_of (rq_Cookies r) (a_cookieName (sv_auth s))) (Validate (x_crypto x) (x_now x) (sv_auth s))"
  consider "rq_Method r = ''OPTIONS''" | "rq_Method r \<noteq> ''OPTIONS''" "rq_Path r \<in> set publicPaths"
    | "rq_Method r \<noteq> ''OPTIONS''" "rq_Path r \<notin> set publicPaths" "?v = None"
    | u where "rq_Method r \<noteq> ''OPTIONS''" "rq_Path r \<notin> set publicPaths" "?v = Some u" by fastforce
  then show thesis
  proof cases
    case 1
    then show ?thesis
      by (intro preflight) (simp_all add: gate_def Middleware_def auth_cors_def fresh_response_def Let_def)
  next
    case 2
    then show ?thesis by (intro public) (simp_all add: gate_def Middleware_def Let_def)
  next
    case 3
    then have "gate g x r fresh_response s = (unauthorized (auth_cors r fresh_response), s)"
      by (auto simp: gate_def Middleware_def Let_def Validate_def split: option.split)
    with 3 show ?thesis
      by (intro denied) (simp_all add: unauthorized_def auth_cors_def fresh_response_def Let_def)
  next
    case 4
    then have "gate g x r fresh_response s = g x (r\<lparr>rq_user := Some u\<rparr>) (auth_cors r fresh_response) s"
      by (auto simp: gate_def Middleware_def Let_def Validate_def split: option.split bind_splits)
    with 4 show ?thesis by (intro let_in)
  qed
qed

lemma mux_answer:
  assumes "rw_status w = None"
  shows "answered {200, 301, 400, 401, 404, 500} (fst (mux_serve ((''/help'', help_page) # ocean_routes) x r w s)) \<and>
    one_operation s (snd (mux_serve ((''/help'', help_page) # ocean_routes) x r w s))"
    (is "answered ?S (fst ?m) \<and> one_operation s (snd ?m)")
proof (cases "(if rq_Method r = ''CONNECT'' then rq_Path r else clean_path (rq_Path r)) = rq_Path r")
  case False
  then have "?m = (redirect (clean_path (rq_Path r)) r w, s)" by (auto simp: mux_serve_def)
  with assms show ?thesis by (simp add: redirect_def answered_def Let_def)
next
  case True
  show ?thesis
  proof (cases "map_of ((''/help'', help_page) # ocean_routes) (rq_Path r)")
    case None
    then have "?m = (http_error ''404 page not found'' 404 w, s)" using True by (simp add: mux_serve_def)
    with assms show ?thesis by (simp add: http_error_def answered_def)
  next
    case (Some h)
    then have m: "?m = h x r w s" using True by (simp add: mux_serve_def)
    show ?thesis
    proof (cases "rq_Path r = ''/help''")
      case True
      with Some have "h = help_page" by simp
      with m assms show ?thesis by (simp add: help_page_def answered_def)
    next
      case False
      with Some have "(rq_Path r, h) \<in> set ocean_routes" by (auto dest: map_of_SomeD)
      with proper_routes assms have "answered {200, 400, 401, 500} (fst (h x r w s)) \<and> one_operation s (snd (h x r w s))"
        by (simp add: proper_def)
      with m show ?thesis by (auto simp: answered_def)
    qed
  qed
qed

lemma route_login: "map_of ((''/help'', help_page) # ocean_routes) ''/api/v1/login'' = Some Login"
  by (simp add: ocean_routes_def APIVersion_def)

lemma mux_found:
  "map_of mux (rq_Path r) = Some h \<Longrightarrow>
   snd (mux_serve mux x r w s) = s \<or> snd (mux_serve mux x r w s) = snd (h x r w s)"
  by (simp add: mux_serve_def Let_def)

lemma preflight_snd: "snd (preflight r w s k) = (if rq_Method r = ''OPTIONS'' then s else snd (k (cors r w)))"
  by (simp add: preflight_def)

lemma decoding_snd:
  "snd (decoding zero b w s k) = (case b of Eof \<Rightarrow> snd (k zero w) | Malformed _ \<Rightarrow> s | Value v \<Rightarrow> snd (k v w))"
  by (simp add: decoding_def Decoder_def split: body.split)

text \<open>What a login does to the server.\<close>

definition login_outcome :: "outside \<Rightarrow> http_request \<Rightarrow> server \<Rightarrow> server \<Rightarrow> bool" where
  "login_outcome x r s s' \<longleftrightarrow> s' = s \<or>
     (\<exists>name pw u raw expiry a. Authenticate (x_crypto x) (sv_store s) name pw = Some u \<and>
       Issue (x_crypto x) (x_rand x) (x_now x) u (rq_RemoteAddr r) (rq_UserAgent r) (sv_auth s) = Some (raw, expiry, a) \<and>
       s' = s\<lparr>sv_auth := a\<rparr>)"

lemma login_same: "login_outcome x r s s"
  by (simp add: login_outcome_def)

lemma login_opens:
  "Authenticate (x_crypto x) (sv_store s) name pw = Some u \<Longrightarrow>
   Issue (x_crypto x) (x_rand x) (x_now x) u (rq_RemoteAddr r) (rq_UserAgent r) (sv_auth s) = Some (raw, expiry, a) \<Longrightarrow>
   login_outcome x r s (s\<lparr>sv_auth := a\<rparr>)"
  unfolding login_outcome_def by blast

lemma Login_outcome: "login_outcome x r s (snd (Login x r w s))"
  unfolding Login_def preflight_snd decoding_snd
  by (simp add: Let_def login_same split: body.split option.split provider.split prod.split)
    (blast intro: login_opens)

lemma auth_cors_fresh: "rw_status (auth_cors r fresh_response) = None"
  by (simp add: auth_cors_def fresh_response_def Let_def)

lemma serve_operation:
  "one_operation s (snd (serve x r s)) \<and> answered {200, 204, 301, 400, 401, 404, 500} (fst (serve x r s))"
proof -
  let ?mux = "mux_serve ((''/help'', help_page) # ocean_routes)"
  show ?thesis
    unfolding serve_gated
  proof (cases rule: gate_cases [where g = ?mux and x = x and r = r and s = s])
    case preflight
    then show "one_operation s (snd (gate ?mux x r fresh_response s)) \<and>
        answered {200, 204, 301, 400, 401, 404, 500} (fst (gate ?mux x r fresh_response s))"
      by (simp add: answered_def)
  next
    case public
    with mux_answer [OF auth_cors_fresh, where x = x and s = s] show "one_operation s (snd (gate ?mux x r fresh_response s)) \<and>
        answered {200, 204, 301, 400, 401, 404, 500} (fst (gate ?mux x r fresh_response s))"
      by (auto simp: answered_def)
  next
    case denied
    then show "one_operation s (snd (gate ?mux x r fresh_response s)) \<and>
        answered {200, 204, 301, 400, 401, 404, 500} (fst (gate ?mux x r fresh_response s))"
      by (simp add: answered_def)
  next
    case (let_in u)
    with mux_answer [of "auth_cors r fresh_response" x "r\<lparr>rq_user := Some u\<rparr>" s] auth_cors_fresh
    show "one_operation s (snd (gate ?mux x r fresh_response s)) \<and>
        answered {200, 204, 301, 400, 401, 404, 500} (fst (gate ?mux x r fresh_response s))"
      by (auto simp: answered_def)
  qed
qed

section \<open>Properties\<close>


text \<open>A server of a small cluster: one running test, one user.\<close>

definition web_server :: server where
  "web_server = \<lparr>sv_ocean = run_started, sv_auth = ada_auth\<rparr>"

definition web_outside :: outside where
  "web_outside = \<lparr>x_crypto = plain_crypto, x_rand = Some ada_bytes, x_now = 0, x_ip = [], x_oceans = None, x_fleet = None\<rparr>"

definition web_request :: "string \<Rightarrow> (string \<times> string) list \<Rightarrow> cmd_conf \<Rightarrow> http_request" where
  "web_request path cookies c =
     \<lparr>rq_Method = ''POST'', rq_Path = path, rq_Origin = [], rq_Cookies = cookies, rq_RemoteAddr = [],
      rq_UserAgent = [], rq_body = Value \<lparr>Cmd = [], Conf = c\<rparr>, rq_login = Eof, rq_env = Eof, rq_user = None\<rparr>"

text \<open>C11: Without a live session a request changes nothing, whatever its path, method and body, with
  one exception: a login whose user name and password the local provider accepts, and that
  only opens a session for that user. In particular no such request starts, stops, pauses
  or resumes a test, or reads or writes a saved test or an environment.\<close>
theorem no_session_no_change:
  assumes "Option.bind (map_of (rq_Cookies r) (a_cookieName (sv_auth s)))
      (Validate (x_crypto x) (x_now x) (sv_auth s)) = None"
  shows "snd (serve x r s) = s \<or>
    rq_Path r = ''/api/v1/login'' \<and>
    (\<exists>name pw u raw expiry a. Authenticate (x_crypto x) (sv_store s) name pw = Some u \<and>
       Issue (x_crypto x) (x_rand x) (x_now x) u (rq_RemoteAddr r) (rq_UserAgent r) (sv_auth s) = Some (raw, expiry, a) \<and>
       snd (serve x r s) = s\<lparr>sv_auth := a\<rparr>)"
proof -
  let ?mux = "mux_serve ((''/help'', help_page) # ocean_routes)"
  have served: "snd (?mux x r w s) = s \<or> rq_Path r = ''/api/v1/login'' \<and> snd (?mux x r w s) = snd (Login x r w s)"
    if "rq_Path r \<in> set publicPaths" for w
  proof (cases "rq_Path r = ''/help''")
    case True
    then have "map_of ((''/help'', help_page) # ocean_routes) (rq_Path r) = Some help_page" by simp
    from mux_found [OF this, of x w s] show ?thesis by (auto simp: help_page_def)
  next
    case False
    then have path: "rq_Path r = ''/api/v1/login''" using that by (simp add: publicPaths_def)
    then have "map_of ((''/help'', help_page) # ocean_routes) (rq_Path r) = Some Login" using route_login by simp
    from mux_found [OF this, of x w s] path show ?thesis by blast
  qed
  show ?thesis
    unfolding serve_gated
  proof (cases rule: gate_cases [where g = ?mux and x = x and r = r and s = s])
    case public
    with served [of "auth_cors r fresh_response"] Login_outcome [of x r s "auth_cors r fresh_response"]
    show "snd (gate ?mux x r fresh_response s) = s \<or> rq_Path r = ''/api/v1/login'' \<and>
      (\<exists>name pw u raw expiry a. Authenticate (x_crypto x) (sv_store s) name pw = Some u \<and>
         Issue (x_crypto x) (x_rand x) (x_now x) u (rq_RemoteAddr r) (rq_UserAgent r) (sv_auth s) = Some (raw, expiry, a) \<and>
         snd (gate ?mux x r fresh_response s) = s\<lparr>sv_auth := a\<rparr>)"
      unfolding login_outcome_def by metis
  qed (use assms in simp_all)
qed

theorem no_session_no_change_witness:
  "snd (serve web_outside (web_request ''/api/v1/stop'' [(''tsu_session'', ''forged'')] (run_conf ''t'' 0)) web_server) = web_server"
proof -
  let ?r = "web_request ''/api/v1/stop'' [(''tsu_session'', ''forged'')] (run_conf ''t'' 0)"
  have "Option.bind (map_of (rq_Cookies ?r) (a_cookieName (sv_auth web_server)))
      (Validate (x_crypto web_outside) (x_now web_outside) (sv_auth web_server)) = None"
    by (simp add: web_request_def web_server_def web_outside_def ada_defs Validate_def GetValidSession_def)
  from no_session_no_change [OF this] show ?thesis by (auto simp: web_request_def)
qed

section \<open>The scheduler behind the API\<close>

text \<open>The four routes that drive the scheduler, and the operation that each stands for.\<close>

definition scheduler_routes :: "(string \<times> (store \<Rightarrow> cmd_conf \<Rightarrow> ocean \<Rightarrow> api_error option \<times> ocean)) list" where
  "scheduler_routes =
     [(''/api/v1/start'', start_job),
      (''/api/v1/stop'', \<lambda>_ c. stop_job (q_Name c)),
      (''/api/v1/pause'', \<lambda>_ c. pause_job (q_Name c)),
      (''/api/v1/resume'', \<lambda>db c. resume_job db (q_Name c))]"

definition scheduler_handler :: "(store \<Rightarrow> cmd_conf \<Rightarrow> ocean \<Rightarrow> api_error option \<times> ocean) \<Rightarrow> server handler" where
  "scheduler_handler f r w s = preflight r w s (\<lambda>w. decoding zero_request (rq_body r) w s (\<lambda>req w.
     answer s w (f (sv_store s) (Conf req) (sv_ocean s))))"

lemma scheduler_handlers:
  "Start = scheduler_handler start_job"
  "Stop = scheduler_handler (\<lambda>_ c. stop_job (q_Name c))"
  "Pause = scheduler_handler (\<lambda>_ c. pause_job (q_Name c))"
  "Resume = scheduler_handler (\<lambda>db c. resume_job db (q_Name c))"
  by (simp_all add: fun_eq_iff scheduler_handler_def Start_def Stop_def Pause_def Resume_def)

lemma clean_api:
  "clean_path ''/api/v1/start'' = ''/api/v1/start''" "clean_path ''/api/v1/stop'' = ''/api/v1/stop''"
  "clean_path ''/api/v1/pause'' = ''/api/v1/pause''" "clean_path ''/api/v1/resume'' = ''/api/v1/resume''"
  "clean_path ''/api/v1/login'' = ''/api/v1/login''"
  by code_simp+

lemma scheduler_dispatch:
  assumes "(rq_Path r, f) \<in> set scheduler_routes"
  shows "rq_Path r \<notin> set publicPaths \<and>
    mux_serve ((''/help'', help_page) # ocean_routes) x r w s = scheduler_handler f r w s"
  using assms
  by (auto simp: scheduler_routes_def mux_serve_def clean_api publicPaths_def ocean_routes_def
      APIVersion_def scheduler_handlers)

lemma gate_lets_in:
  assumes "rq_Method r \<noteq> ''OPTIONS''" and "rq_Path r \<notin> set publicPaths"
    and "Option.bind (map_of (rq_Cookies r) (a_cookieName (sv_auth s)))
      (Validate (x_crypto x) (x_now x) (sv_auth s)) = Some u"
  shows "gate g x r fresh_response s = g x (r\<lparr>rq_user := Some u\<rparr>) (auth_cors r fresh_response) s"
  using assms by (cases rule: gate_cases [where g = g and x = x and r = r and s = s]) auto

lemma WriteSuccess_body:
  "rw_body (WriteSuccess d e w) = rw_body w @ [Envelope (case e of
     Some e \<Rightarrow> \<lparr>e_code = 0, e_data = None, e_error_code = Code e, e_error_message = Message e\<rparr>
   | None \<Rightarrow> \<lparr>e_code = ResultSuccess, e_data = d, e_error_code = 0, e_error_message = []\<rparr>)]"
  by (simp add: WriteSuccess_def Let_def split: option.split)

lemma fresh_answer: "rw_status (cors r (auth_cors r' fresh_response)) = None"
  "rw_body (cors r (auth_cors r' fresh_response)) = []"
  by (simp_all add: cors_def auth_cors_def fresh_response_def Let_def)

lemma scheduler_served:
  assumes "Option.bind (map_of (rq_Cookies r) (a_cookieName (sv_auth s)))
      (Validate (x_crypto x) (x_now x) (sv_auth s)) = Some u"
    and "rq_Method r \<noteq> ''OPTIONS''" and "(rq_Path r, f) \<in> set scheduler_routes"
    and "rq_body r = Value req"
  shows "serve x r s = answer s (cors (r\<lparr>rq_user := Some u\<rparr>) (auth_cors r fresh_response))
    (f (sv_store s) (Conf req) (sv_ocean s))"
proof -
  let ?r = "r\<lparr>rq_user := Some u\<rparr>"
  from assms(3) have route: "(rq_Path ?r, f) \<in> set scheduler_routes" by simp
  have "serve x r s = scheduler_handler f ?r (auth_cors r fresh_response) s"
    unfolding serve_gated
    using gate_lets_in [OF assms(2) _ assms(1)] scheduler_dispatch [OF route] by simp
  also have "\<dots> = answer s (cors ?r (auth_cors r fresh_response)) (f (sv_store s) (Conf req) (sv_ocean s))"
    using assms(2,4) by (simp add: scheduler_handler_def preflight_def decoding_def Decoder_def)
  finally show ?thesis .
qed

text \<open>C10: With a live session the four scheduler routes are the scheduler: a request runs exactly
  the operation of its path on the decoded configuration, the rest of the server stays as
  it is, and the answer is one envelope. The HTTP status is 200 even when the operation
  refuses: its code (409, 503 or 404) is only in the envelope.\<close>
theorem scheduler_over_http:
  assumes "Option.bind (map_of (rq_Cookies r) (a_cookieName (sv_auth s)))
      (Validate (x_crypto x) (x_now x) (sv_auth s)) = Some u"
    and "rq_Method r \<noteq> ''OPTIONS''" and "(rq_Path r, f) \<in> set scheduler_routes"
    and "rq_body r = Value req"
  shows "case f (sv_store s) (Conf req) (sv_ocean s) of (e, oc') \<Rightarrow>
    snd (serve x r s) = s\<lparr>sv_ocean := oc'\<rparr> \<and>
    rw_status (fst (serve x r s)) = Some 200 \<and>
    rw_body (fst (serve x r s)) = [Envelope (case e of
      None \<Rightarrow> \<lparr>e_code = 20000, e_data = None, e_error_code = 0, e_error_message = []\<rparr>
    | Some e \<Rightarrow> \<lparr>e_code = 0, e_data = None, e_error_code = Code e, e_error_message = Message e\<rparr>)]"
  using scheduler_served [OF assms]
  by (simp add: answer_def WriteSuccess_body case_prod_unfold ResultSuccess_def fresh_answer auth_cors_fresh
      split: option.split)

text \<open>Ada logs in.\<close>

definition ada_cookie :: "(string \<times> string) list" where
  "ada_cookie = [(''tsu_session'', base64url ada_bytes)]"

lemma ada_session:
  obtains a where "Issue plain_crypto (Some ada_bytes) 0 ada [] [] ada_auth = Some (base64url ada_bytes, 60 * second, a)"
    and "Option.bind (map_of ada_cookie (a_cookieName a)) (Validate plain_crypto 0 a) = Some ada"
proof -
  obtain a where a: "Issue plain_crypto (Some ada_bytes) 0 ada [] [] ada_auth = Some (base64url ada_bytes, 60 * second, a)"
    using ada_issue by blast
  then obtain s where s: "insert_session [] [] (hashToken plain_crypto (base64url ada_bytes)) ada (Unix 0) (Unix (60 * second))
      (a_store ada_auth) = Some s" "a = ada_auth\<lparr>a_store := s\<rparr>"
    by (auto simp: Issue_insert)
  have "base64url ada_bytes \<noteq> []" using length_base64url [of ada_bytes] by (auto simp: ada_bytes_def)
  with tbl.open_then_live [OF ada_known s(1)] have "Validate plain_crypto 0 a (base64url ada_bytes) = Some ada"
    by (simp add: Validate_live s(2) Unix_def second_def)
  moreover have "a_cookieName a = ''tsu_session''" by (simp add: s(2) ada_auth_def New_auth_def)
  ultimately show thesis using a that by (simp add: ada_cookie_def)
qed

theorem scheduler_over_http_witness:
  "\<exists>a w s'. serve web_outside (web_request ''/api/v1/stop'' ada_cookie (run_conf ''u'' 0))
       \<lparr>sv_ocean = run_started, sv_auth = a\<rparr> = (w, s') \<and>
     rw_status w = Some 200 \<and> sv_ocean s' = run_started \<and>
     rw_body w = [Envelope \<lparr>e_code = 0, e_data = None, e_error_code = 404, e_error_message = ''service not found''\<rparr>]"
proof -
  obtain a where a: "Option.bind (map_of ada_cookie (a_cookieName a)) (Validate plain_crypto 0 a) = Some ada"
    by (rule ada_session)
  let ?s = "\<lparr>sv_ocean = run_started, sv_auth = a\<rparr>"
  let ?r = "web_request ''/api/v1/stop'' ada_cookie (run_conf ''u'' 0)"
  have "map_of (oc_jobs run_started) ''u'' = None" by code_simp
  then have refused: "stop_job ''u'' run_started = (Some \<lparr>Code = 404, Message = ''service not found''\<rparr>, run_started)"
    by (simp add: stop_job_def not_found_def)
  have "(rq_Path ?r, \<lambda>_ c. stop_job (q_Name c)) \<in> set scheduler_routes"
    by (simp add: scheduler_routes_def web_request_def)
  moreover have "Option.bind (map_of (rq_Cookies ?r) (a_cookieName (sv_auth ?s)))
      (Validate (x_crypto web_outside) (x_now web_outside) (sv_auth ?s)) = Some ada"
    using a by (simp add: web_outside_def web_request_def)
  moreover have "rq_Method ?r \<noteq> ''OPTIONS''" "rq_body ?r = Value \<lparr>Cmd = [], Conf = run_conf ''u'' 0\<rparr>"
    "q_Name (run_conf ''u'' 0) = ''u''"
    by (simp_all add: web_request_def run_conf_def)
  ultimately show ?thesis
    using scheduler_over_http [of ?r ?s web_outside ada "\<lambda>_ c. stop_job (q_Name c)"] refused
    by (intro exI [of _ a] exI [of _ "fst (serve web_outside ?r ?s)"] exI [of _ "snd (serve web_outside ?r ?s)"])
      (simp add: prod_eq_iff)
qed

end
