(* ===== verification/NetAddr.thy ===== *)
theory NetAddr
  imports GoStrings
begin

text \<open>
  net.SplitHostPort, on which an ocean's advertised address (master/ocean.go) and every
  dial of a worker's HTTP client rest: the host and the port of an address, None where
  the address has no port, too many colons or stray brackets.
\<close>

definition last_index :: "char \<Rightarrow> string \<Rightarrow> nat option" where
  "last_index c s =
     (if c \<in> set s then Some (length s - Suc (length (takeWhile (\<lambda>d. d \<noteq> c) (rev s)))) else None)"

definition first_index :: "char \<Rightarrow> string \<Rightarrow> nat option" where
  "first_index c s = (if c \<in> set s then Some (length (takeWhile (\<lambda>d. d \<noteq> c) s)) else None)"

definition SplitHostPort :: "string \<Rightarrow> (string \<times> string) option" where
  "SplitHostPort hp =
     (case last_index (CHR '':'') hp of
        None \<Rightarrow> None
      | Some i \<Rightarrow>
          let finish = (\<lambda>host j k.
                if CHR ''['' \<in> set (drop j hp) \<or> CHR '']'' \<in> set (drop k hp) then None
                else Some (host, drop (Suc i) hp))
          in if hd hp = CHR ''['' then
               (case first_index (CHR '']'') hp of
                  None \<Rightarrow> None
                | Some e \<Rightarrow> if Suc e = i then finish (drop 1 (take e hp)) 1 (Suc e) else None)
             else if CHR '':'' \<in> set (take i hp) then None
             else finish (take i hp) 0 0)"

lemma last_index_split:
  assumes "c \<notin> set q"
  shows "last_index c (p @ c # q) = Some (length p)"
proof -
  have "takeWhile (\<lambda>d. d \<noteq> c) (rev q @ c # rev p) = rev q"
    using assms by (subst takeWhile_append2) auto
  then show ?thesis by (simp add: last_index_def)
qed

text \<open>A host that is no IPv6 literal: the address splits exactly when the host has no colon.\<close>

lemma SplitHostPort_join:
  assumes "CHR ''['' \<notin> set h" and "CHR '']'' \<notin> set h"
    and "CHR '':'' \<notin> set p" and "CHR ''['' \<notin> set p" and "CHR '']'' \<notin> set p"
  shows "SplitHostPort (h @ '':'' @ p) = (if CHR '':'' \<in> set h then None else Some (h, p))"
proof -
  have i: "last_index (CHR '':'') (h @ CHR '':'' # p) = Some (length h)"
    by (rule last_index_split [OF assms(3)])
  have "hd (h @ CHR '':'' # p) \<noteq> CHR ''[''" using assms(1) by (cases h) auto
  with assms show ?thesis by (simp add: SplitHostPort_def i Let_def)
qed

end
