(* ===== verification/Boot.thy ===== *)
theory Boot
  imports Routes NetAddr
begin

text \<open>
  How an ocean comes up (master/ocean.go: readConf, New, main; master/discovery.go:
  initDiscovery; libs/utils.go: GetIP). The configuration reader (viper), etcd, the
  database file and the network are not under src/: what they answer is an argument.
\<close>

section \<open>The configuration\<close>

text \<open>What the reader answers for a key, after it has read the file.\<close>

record viper =
  GetString :: "string \<Rightarrow> string"
  GetInt :: "string \<Rightarrow> int"
  GetBool :: "string \<Rightarrow> bool"
  GetStringSlice :: "string \<Rightarrow> string list"

datatype setting = SString string | SInt int | SBool bool | SList "string list"

fun reads :: "viper \<Rightarrow> string \<Rightarrow> setting \<Rightarrow> bool" where
  "reads v k (SString s) \<longleftrightarrow> GetString v k = s"
| "reads v k (SInt i) \<longleftrightarrow> GetInt v k = i"
| "reads v k (SBool b) \<longleftrightarrow> GetBool v k = b"
| "reads v k (SList l) \<longleftrightarrow> GetStringSlice v k = l"

text \<open>The defaults that readConf registers.\<close>

definition ocean_defaults :: "(string \<times> setting) list" where
  "ocean_defaults =
     [(''name'', SString ''ocean''), (''id'', SString ''ocean-0''),
      (''endpoints.http'', SString ''0.0.0.0:8080''), (''endpoints.grpc'', SString ''0.0.0.0:8050''),
      (''max_connections'', SInt 1000),
      (''registry.endpoints'', SList []), (''registry.request_timeout'', SInt 2),
      (''registry.dial_timeout'', SInt 2), (''advertise.grpc'', SString []), (''lease.ttl'', SInt 10),
      (''auth.token'', SString []),
      (''auth.db_path'', SString ''/var/lib/tsunami/auth.db''), (''auth.session_ttl'', SInt 3600),
      (''auth.cookie_secure'', SBool False),
      (''auth.bootstrap_admin.username'', SString ''admin''),
      (''auth.bootstrap_admin.password'', SString ''admin'')]"

text \<open>The documented behaviour of a default: it is the answer where nothing else sets the key.\<close>

definition falls_back :: "(string \<times> setting) list \<Rightarrow> string set \<Rightarrow> viper \<Rightarrow> bool" where
  "falls_back ds given v \<longleftrightarrow> (\<forall>(k, d) \<in> set ds. k \<notin> given \<longrightarrow> reads v k d)"

text \<open>The name of the configuration file, without what follows its first dot.\<close>

definition confName :: "string \<Rightarrow> string" where
  "confName file = takeWhile (\<lambda>c. c \<noteq> CHR ''.'') file"

section \<open>New\<close>

text \<open>
  What the process finds: the local address of a UDP socket towards the internet (None:
  no route; the address may be nil), the database at a path with its schema, the clock,
  whether an address can be listened on, and etcd's answers to a connect, a grant and a
  keep-alive.
\<close>

record host =
  h_dial :: "string option option"
  h_open :: "string \<Rightarrow> store option"
  h_crypto :: crypto
  h_now :: int
  h_listen :: "string \<Rightarrow> bool"
  h_connect :: "string list \<Rightarrow> bool"
  h_grant :: "int \<Rightarrow> int option"
  h_keepalive :: "int \<Rightarrow> bool"

text \<open>The calls of log.Fatal; they end the process.\<close>

datatype fatal = NoRoute | NoDatabase | NoAdmin | NoDiscovery | NoListener

definition GetIP :: "host \<Rightarrow> fatal + string option" where
  "GetIP h = (case h_dial h of None \<Rightarrow> Inl NoRoute | Some ip \<Rightarrow> Inr ip)"

definition advertised :: "viper \<Rightarrow> host \<Rightarrow> fatal + string" where
  "advertised v h =
     (let adv = GetString v ''advertise.grpc''
      in if adv \<noteq> [] then Inr adv
         else let port = (case SplitHostPort (GetString v ''endpoints.grpc'') of
                            None \<Rightarrow> ''8050'' | Some (_, p) \<Rightarrow> p)
              in case GetIP h of
                   Inl e \<Rightarrow> Inl e
                 | Inr p \<Rightarrow> Inr ((case p of None \<Rightarrow> ''127.0.0.1'' | Some ip \<Rightarrow> ip) @ '':'' @ port))"

definition session_ttl :: "viper \<Rightarrow> int" where
  "session_ttl v = to_int64 (GetInt v ''auth.session_ttl'' * second)"

definition new_ocean :: "viper \<Rightarrow> string \<Rightarrow> ocean" where
  "new_ocean v adv =
     \<lparr>oc_id = GetString v ''id'', oc_name = GetString v ''name'',
      oc_maxConnections = GetInt v ''max_connections'', oc_workers = [], oc_jobs = [],
      oc_discovery = (length (GetStringSlice v ''registry.endpoints'') > 0),
      oc_advertiseGRPC = adv, oc_httpAddr = GetString v ''endpoints.http'',
      oc_auth_token = GetString v ''auth.token''\<rparr>"

definition New :: "viper \<Rightarrow> host \<Rightarrow> fatal + server" where
  "New v h =
     (case advertised v h of
        Inl e \<Rightarrow> Inl e
      | Inr adv \<Rightarrow>
          (case h_open h (GetString v ''auth.db_path'') of
             None \<Rightarrow> Inl NoDatabase
           | Some db \<Rightarrow>
               (case SeedAdmin (h_crypto h) (h_now h) (GetString v ''auth.bootstrap_admin.username'')
                       (GetString v ''auth.bootstrap_admin.password'')
                       (New_auth db (session_ttl v) (GetBool v ''auth.cookie_secure'')) of
                  None \<Rightarrow> Inl NoAdmin
                | Some a \<Rightarrow> Inr \<lparr>sv_ocean = new_ocean v adv, sv_auth = a\<rparr>)))"

section \<open>Registration in etcd\<close>

text \<open>
  What initDiscovery has done when it returns without an error: the lease and its lifetime
  in seconds, what was put under it, and the period of the refresh.
\<close>

record announced =
  an_ttl :: int
  an_lease :: int
  an_put :: "(string \<times> json) option"
  an_period :: int

definition initDiscovery :: "viper \<Rightarrow> host \<Rightarrow> ocean \<Rightarrow> announced option" where
  "initDiscovery v h oc =
     (let ttl = GetInt v ''lease.ttl''; ttl = (if ttl \<le> 0 then 10 else ttl)
      in if \<not> h_connect h (GetStringSlice v ''registry.endpoints'') then None
         else case h_grant h ttl of
                None \<Rightarrow> None
              | Some lease \<Rightarrow>
                  if \<not> h_keepalive h lease then None
                  else Some \<lparr>an_ttl = ttl, an_lease = lease, an_put = publishOcean oc,
                             an_period = ttl div 3 + 1\<rparr>)"

section \<open>main\<close>

text \<open>
  What runs when main has come up: the server, the registration when discovery is on, and
  the address of the worker streams. The web server's address is the application's.
\<close>

definition main_ocean :: "viper \<Rightarrow> host \<Rightarrow> fatal + server \<times> announced option" where
  "main_ocean v h =
     (case New v h of
        Inl e \<Rightarrow> Inl e
      | Inr s \<Rightarrow>
          if oc_discovery (sv_ocean s) then
            (case initDiscovery v h (sv_ocean s) of
               None \<Rightarrow> Inl NoDiscovery
             | Some an \<Rightarrow>
                 if h_listen h (GetString v ''endpoints.grpc'') then Inr (s, Some an) else Inl NoListener)
          else if h_listen h (GetString v ''endpoints.grpc'') then Inr (s, None)
          else Inl NoListener)"

section \<open>A server that has come up\<close>

lemma New_fields:
  assumes "New v h = Inr s"
  obtains adv db a where "advertised v h = Inr adv" and "h_open h (GetString v ''auth.db_path'') = Some db"
    and "SeedAdmin (h_crypto h) (h_now h) (GetString v ''auth.bootstrap_admin.username'')
      (GetString v ''auth.bootstrap_admin.password'') (New_auth db (session_ttl v) (GetBool v ''auth.cookie_secure'')) = Some a"
    and "s = \<lparr>sv_ocean = new_ocean v adv, sv_auth = a\<rparr>"
  using assms by (auto simp: New_def split: sum.splits option.splits)

lemma main_New: "main_ocean v h = Inr (s, an) \<Longrightarrow> New v h = Inr s"
  by (auto simp: main_ocean_def split: sum.splits option.splits if_splits)

lemma main_announced:
  "main_ocean v h = Inr (s, Some an) \<Longrightarrow> initDiscovery v h (sv_ocean s) = Some an \<and> oc_discovery (sv_ocean s)"
  by (auto simp: main_ocean_def split: sum.splits option.splits if_splits)

lemma New_auth_simps [simp]:
  "a_store (New_auth s t b) = s" "a_ttl (New_auth s t b) = t"
  "a_cookieName (New_auth s t b) = ''tsu_session''" "a_providers (New_auth s t b) = [(''local'', LocalProvider)]"
  by (simp_all add: New_auth_def)

lemma advertised_nonempty: "advertised v h = Inr adv \<Longrightarrow> adv \<noteq> []"
  by (auto simp: advertised_def Let_def GetIP_def split: if_splits option.splits sum.splits)

text \<open>On an empty database New leaves the one account that the configuration names.\<close>

lemma New_seeds:
  assumes "New v h = Inr s" and "h_open h (GetString v ''auth.db_path'') = Some db" and "users db = []"
  obtains a hash where "sv_auth s = a" and "a_ttl a = session_ttl v" and "a_cookieName a = ''tsu_session''"
    and "a_providers a = [(''local'', LocalProvider)]" and "sessions (a_store a) = sessions db"
    and "db_refuses (a_store a) = db_refuses db"
    and "bcrypt_hash (h_crypto h) (or_admin (GetString v ''auth.bootstrap_admin.password'')) = Some hash"
    and "users (a_store a) = [\<lparr>u_ID = next_user_id db, u_Email = or_admin (GetString v ''auth.bootstrap_admin.username''),
       u_Name = or_admin (GetString v ''auth.bootstrap_admin.username''), u_Provider = ''local'', u_PasswordHash = hash,
       u_ProviderSubject = [], u_CreatedAt = Unix (h_now h)\<rparr>]"
  using assms(1)
proof (rule New_fields)
  fix adv db' a
  assume opened: "h_open h (GetString v ''auth.db_path'') = Some db'"
    and seed: "SeedAdmin (h_crypto h) (h_now h) (GetString v ''auth.bootstrap_admin.username'')
      (GetString v ''auth.bootstrap_admin.password'') (New_auth db' (session_ttl v) (GetBool v ''auth.cookie_secure'')) = Some a"
    and s: "s = \<lparr>sv_ocean = new_ocean v adv, sv_auth = a\<rparr>"
  have "db' = db" using opened assms(2) by simp
  then have "users (a_store (New_auth db' (session_ttl v) (GetBool v ''auth.cookie_secure''))) = []" using assms(3) by simp
  from this seed show thesis
    by (rule SeedAdmin_empty) (rule that [where a = a], simp_all add: s \<open>db' = db\<close> New_auth_def)
qed

text \<open>An ocean without workers that is alone in the registry is chosen.\<close>

lemma idle_ocean_chosen:
  assumes "reg_ok r" and "o_GRPC r \<noteq> []" and "o_Workers r = 0" and "0 \<le> o_MaxConnections r"
  shows "selectOcean (Some [Some (reg_json r)]) = o_GRPC r"
  using assms unmarshal_worker_reg [OF assms(1)]
  by (simp add: selectOcean_def consider_ocean_def worker_view_def reg_slots_def)

section \<open>Logging in\<close>

text \<open>Users without sessions: a database in which nobody has an account yet holds no session.\<close>

lemma no_users_no_sessions: "store_ok db \<Longrightarrow> users db = [] \<Longrightarrow> sessions db = []"
proof (cases "sessions db")
  case (Cons p l)
  then have "map_of (sessions db) (fst p) = Some (snd p)" by simp
  moreover assume "store_ok db" and "users db = []"
  ultimately show ?thesis unfolding store_ok_def user_by_id_def by (metis find.simps(1))
qed

lemma login_answer:
  assumes "rq_login r = Value req" and "rq_Method r \<noteq> ''OPTIONS''" and "rq_Path r = ''/api/v1/login''"
    and "Provider (sv_auth s) (if lr_Provider req = [] then ''local'' else lr_Provider req) = Some LocalProvider"
    and "Authenticate (x_crypto x) (sv_store s) (lr_Username req) (lr_Password req) = Some u"
    and "Issue (x_crypto x) (x_rand x) (x_now x) u (rq_RemoteAddr r) (rq_UserAgent r) (sv_auth s) = Some (raw, expiry, a)"
  shows "snd (serve x r s) = s\<lparr>sv_auth := a\<rparr> \<and> rw_status (fst (serve x r s)) = Some 200 \<and>
    rw_sent_cookies (fst (serve x r s)) = [Cookie a raw expiry]"
proof -
  have "rq_Path r \<in> set publicPaths" using assms(3) by (simp add: publicPaths_def)
  then have "serve x r s = mux_serve ((''/help'', help_page) # ocean_routes) x r (auth_cors r fresh_response) s"
    unfolding serve_gated
    using assms(2) by (cases rule: gate_cases [where g = "mux_serve ((''/help'', help_page) # ocean_routes)"
        and x = x and r = r and s = s]) auto
  also have "\<dots> = Login x r (auth_cors r fresh_response) s"
    using assms(3) route_login by (simp add: mux_serve_def clean_api)
  also have "\<dots> = (succeed (Some (user_data u)) (SetCookie (Cookie a raw expiry) (cors r (auth_cors r fresh_response))), s\<lparr>sv_auth := a\<rparr>)"
    using assms by (simp add: Login_def preflight_def decoding_def Decoder_def Let_def)
  finally show ?thesis
    by (simp add: succeed_def WriteSuccess_def write_chunk_def write_header_def SetCookie_def set_header_def
        cors_def auth_cors_def fresh_response_def Let_def)
qed

section \<open>Properties\<close>

text \<open>C8: From start-up to a driven scheduler: an ocean that has come up on an empty database
  answers the configured login (admin where the configuration leaves a blank) with 200 and
  exactly one cookie, and until the session's lifetime is over a scheduler request that
  carries the cookie runs its operation, whatever the fleet has become in between.\<close>
theorem booted_ocean_serves:
  assumes up: "main_ocean v h = Inr (s, an)"
    and db: "h_open h (GetString v ''auth.db_path'') = Some db" "store_ok db" "users db = []"
      "\<And>q. \<not> db_refuses db q"
    and bcrypt: "\<And>p hash. bcrypt_hash (h_crypto h) p = Some hash \<Longrightarrow> bcrypt_matches (h_crypto h) hash p"
    and login: "rq_login r = Value \<lparr>lr_Username = or_admin (GetString v ''auth.bootstrap_admin.username''),
        lr_Password = or_admin (GetString v ''auth.bootstrap_admin.password''), lr_Provider = []\<rparr>"
      "rq_Path r = ''/api/v1/login''" "rq_Method r \<noteq> ''OPTIONS''"
      "x_crypto x = h_crypto h" "x_rand x = Some bytes" "length bytes = 32"
    and drive: "(rq_Path q, f) \<in> set scheduler_routes" "rq_Method q \<noteq> ''OPTIONS''" "rq_body q = Value req"
      "map_of (rq_Cookies q) ''tsu_session'' = Some (base64url bytes)" "x_crypto y = h_crypto h"
      "Unix (x_now y) < Unix (x_now x + session_ttl v)"
  shows "rw_status (fst (serve x r s)) = Some 200 \<and>
    map (\<lambda>c. (ck_Name c, ck_Value c)) (rw_sent_cookies (fst (serve x r s))) = [(''tsu_session'', base64url bytes)] \<and>
    (let t = (snd (serve x r s))\<lparr>sv_ocean := oc\<rparr>
     in sv_ocean (snd (serve y q t)) = snd (f (sv_store t) (Conf req) oc))"
proof (rule New_seeds [OF main_New [OF up] db(1,3)])
  fix a hash
  let ?n = "or_admin (GetString v ''auth.bootstrap_admin.username'')"
  let ?p = "or_admin (GetString v ''auth.bootstrap_admin.password'')"
  let ?u = "\<lparr>u_ID = next_user_id db, u_Email = ?n, u_Name = ?n, u_Provider = ''local'', u_PasswordHash = hash,
       u_ProviderSubject = [], u_CreatedAt = Unix (h_now h)\<rparr>"
  assume a: "sv_auth s = a" "a_ttl a = session_ttl v" "a_cookieName a = ''tsu_session''"
    "a_providers a = [(''local'', LocalProvider)]" "sessions (a_store a) = sessions db"
    "db_refuses (a_store a) = db_refuses db"
    and hash: "bcrypt_hash (h_crypto h) ?p = Some hash" and u: "users (a_store a) = [?u]"
  have known: "known_user (a_store a) ?u" using u a(6) db(4) by (simp add: known_user_def user_by_id_def)
  have "sessions (a_store a) = []" using no_users_no_sessions [OF db(2,3)] a(5) by simp
  with known obtain st where st: "insert_session (rq_RemoteAddr r) (rq_UserAgent r)
      (hashToken (x_crypto x) (base64url bytes)) ?u (Unix (x_now x)) (Unix (x_now x + a_ttl a)) (a_store a) = Some st"
    using db(4) a(6) by (simp add: insert_session_def CreateSession_def known_user_def)
  define b where "b = a\<lparr>a_store := st\<rparr>"
  have issued: "Issue (x_crypto x) (x_rand x) (x_now x) ?u (rq_RemoteAddr r) (rq_UserAgent r) (sv_auth s) =
      Some (base64url bytes, x_now x + a_ttl a, b)"
    unfolding Issue_insert using st login(5) by (auto simp: a(1) b_def)
  have "Authenticate (x_crypto x) (sv_store s) ?n ?p = Some ?u"
    using db(4) u a(6) bcrypt [OF hash] login(4) by (simp add: Authenticate_def GetUserByEmail_def a(1))
  with login_answer [OF login(1,3,2) _ _ issued] a(1,4)
  have served: "snd (serve x r s) = s\<lparr>sv_auth := b\<rparr>" "rw_status (fst (serve x r s)) = Some 200"
    "rw_sent_cookies (fst (serve x r s)) = [Cookie b (base64url bytes) (x_now x + a_ttl a)]"
    by (simp_all add: Provider_def)
  have "base64url bytes \<noteq> []" using login(6) length_base64url [of bytes] by auto
  with tbl.open_then_live [OF known st] drive(6) a(2) login(4) drive(5)
  have "Validate (x_crypto y) (x_now y) b (base64url bytes) = Some ?u"
    by (simp add: Validate_live b_def)
  moreover have "a_cookieName b = ''tsu_session''" using a(3) by (simp add: b_def)
  ultimately show ?thesis
    using scheduler_served [where x = y and r = q and s = "s\<lparr>sv_auth := b, sv_ocean := oc\<rparr>" and u = ?u, OF _ drive(2,1,3)]
      served drive(4)
    by (simp add: answer_def Cookie_def Let_def)
qed

text \<open>A reader that has nothing but the defaults, and a machine on which everything works.\<close>

definition demo_viper :: viper where
  "demo_viper =
     \<lparr>GetString = (\<lambda>k. case map_of ocean_defaults k of Some (SString s) \<Rightarrow> s | _ \<Rightarrow> []),
      GetInt = (\<lambda>k. case map_of ocean_defaults k of Some (SInt i) \<Rightarrow> i | _ \<Rightarrow> 0),
      GetBool = (\<lambda>k. case map_of ocean_defaults k of Some (SBool b) \<Rightarrow> b | _ \<Rightarrow> False),
      GetStringSlice = (\<lambda>k. case map_of ocean_defaults k of Some (SList l) \<Rightarrow> l | _ \<Rightarrow> [])\<rparr>"

definition demo_host :: host where
  "demo_host = \<lparr>h_dial = Some (Some ''10.0.0.1''), h_open = (\<lambda>_. Some empty_store), h_crypto = plain_crypto,
     h_now = 0, h_listen = (\<lambda>_. True), h_connect = (\<lambda>_. True), h_grant = (\<lambda>_. Some 7), h_keepalive = (\<lambda>_. True)\<rparr>"

lemma demo_falls_back: "falls_back ocean_defaults {} demo_viper"
  unfolding falls_back_def by (simp add: demo_viper_def ocean_defaults_def)

lemma demo_viper_simps:
  "GetString demo_viper ''auth.bootstrap_admin.username'' = ''admin''"
  "GetString demo_viper ''auth.bootstrap_admin.password'' = ''admin''"
  "GetString demo_viper ''auth.db_path'' = ''/var/lib/tsunami/auth.db''"
  "session_ttl demo_viper = 3600 * second"
  by (simp_all add: demo_viper_def ocean_defaults_def session_ttl_def to_int64_def second_def)

lemma demo_boots: "\<exists>s. main_ocean demo_viper demo_host = Inr (s, None)"
  by (simp add: main_ocean_def New_def advertised_def GetIP_def SeedAdmin_def CountUsers_def CreateUser_def
      user_conflict_def demo_viper_def demo_host_def ocean_defaults_def empty_store_def plain_crypto_def new_ocean_def
      New_auth_def Let_def split: option.split)

definition demo_login :: http_request where
  "demo_login = \<lparr>rq_Method = ''POST'', rq_Path = ''/api/v1/login'', rq_Origin = [], rq_Cookies = [],
     rq_RemoteAddr = [], rq_UserAgent = [], rq_body = Eof,
     rq_login = Value \<lparr>lr_Username = ''admin'', lr_Password = ''admin'', lr_Provider = []\<rparr>, rq_env = Eof, rq_user = None\<rparr>"

theorem booted_ocean_serves_witness:
  "\<exists>s. main_ocean demo_viper demo_host = Inr (s, None) \<and>
     rw_status (fst (serve web_outside demo_login s)) = Some 200 \<and>
     (let t = (snd (serve web_outside demo_login s))\<lparr>sv_ocean := run_attached\<rparr>
      in sv_ocean (snd (serve web_outside (web_request ''/api/v1/start'' ada_cookie (run_conf ''t'' 5)) t)) =
         snd (start_job (sv_store t) (run_conf ''t'' 5) run_attached))"
proof -
  obtain s where up: "main_ocean demo_viper demo_host = Inr (s, None)" using demo_boots by blast
  let ?q = "web_request ''/api/v1/start'' ada_cookie (run_conf ''t'' 5)"
  have db: "h_open demo_host (GetString demo_viper ''auth.db_path'') = Some empty_store" "users empty_store = []"
    "\<And>q. \<not> db_refuses empty_store q" by (simp_all add: demo_host_def empty_store_def)
  have bcrypt: "bcrypt_matches (h_crypto demo_host) hash p" if "bcrypt_hash (h_crypto demo_host) p = Some hash" for p hash
    using that by (auto simp: demo_host_def plain_crypto_def)
  have login: "rq_login demo_login = Value \<lparr>lr_Username = or_admin (GetString demo_viper ''auth.bootstrap_admin.username''),
        lr_Password = or_admin (GetString demo_viper ''auth.bootstrap_admin.password''), lr_Provider = []\<rparr>"
      "rq_Path demo_login = ''/api/v1/login''" "rq_Method demo_login \<noteq> ''OPTIONS''"
      "x_crypto web_outside = h_crypto demo_host" "x_rand web_outside = Some ada_bytes" "length ada_bytes = 32"
    by (simp_all add: demo_login_def demo_viper_simps or_admin_def web_outside_def demo_host_def ada_bytes_def)
  have drive: "(rq_Path ?q, start_job) \<in> set scheduler_routes" "rq_Method ?q \<noteq> ''OPTIONS''"
      "rq_body ?q = Value \<lparr>Cmd = [], Conf = run_conf ''t'' 5\<rparr>"
      "map_of (rq_Cookies ?q) ''tsu_session'' = Some (base64url ada_bytes)"
      "Unix (x_now web_outside) < Unix (x_now web_outside + session_ttl demo_viper)"
    by (simp_all add: scheduler_routes_def web_request_def ada_cookie_def web_outside_def demo_viper_simps
        Unix_def second_def)
  from booted_ocean_serves [OF up db(1) store_ok_empty db(2,3) bcrypt login drive(1-4) login(4) drive(5), where oc = run_attached]
  show ?thesis using up by (auto simp: Let_def)
qed

text \<open>The default configuration, nothing else set, on a machine with a route and an empty
  database: the ocean comes up on 8080, takes up to 1000 workers without asking for a token,
  advertises its address with the port of the worker streams, keeps sessions for an hour and
  lets admin in with the password admin.\<close>
theorem default_boot:
  assumes "falls_back ocean_defaults {} v" and "h_dial h = Some (Some ip)"
    and "h_open h ''/var/lib/tsunami/auth.db'' = Some db" and "users db = []" and "\<And>q. \<not> db_refuses db q"
    and "h_listen h ''0.0.0.0:8050''" and "bcrypt_hash (h_crypto h) ''admin'' = Some hash"
    and "bcrypt_matches (h_crypto h) hash ''admin''"
  shows "\<exists>s. main_ocean v h = Inr (s, None) \<and>
    sv_ocean s = \<lparr>oc_id = ''ocean-0'', oc_name = ''ocean'', oc_maxConnections = 1000, oc_workers = [], oc_jobs = [],
      oc_discovery = False, oc_advertiseGRPC = ip @ '':8050'', oc_httpAddr = ''0.0.0.0:8080'', oc_auth_token = []\<rparr> \<and>
    a_ttl (sv_auth s) = 3600 * second \<and> Authenticate (h_crypto h) (sv_store s) ''admin'' ''admin'' \<noteq> None"
proof -
  note given = assms(1) [unfolded falls_back_def ocean_defaults_def, simplified]
  have port: "SplitHostPort ''0.0.0.0:8050'' = Some (''0.0.0.0'', ''8050'')" by code_simp
  have adv: "advertised v h = Inr (ip @ '':8050'')"
    using assms(2) by (simp add: advertised_def GetIP_def given port Let_def)
  let ?a = "New_auth db (session_ttl v) False"
  obtain a where seeded: "SeedAdmin (h_crypto h) (h_now h) ''admin'' ''admin'' ?a = Some a"
    using assms(4,5,7) by (auto simp: SeedAdmin_def CountUsers_def CreateUser_def user_conflict_def Let_def)
  have store: "users (a_store ?a) = []" using assms(4) by simp
  obtain st where a: "a = ?a\<lparr>a_store := st\<rparr>" "db_refuses st = db_refuses db"
    "map u_Email (users st) = [''admin'']" "map u_PasswordHash (users st) = [hash]" "map u_Provider (users st) = [''local'']"
    by (rule SeedAdmin_empty [OF store seeded]) (use assms(7) in \<open>simp add: or_admin_def\<close>)
  have "Authenticate (h_crypto h) (a_store a) ''admin'' ''admin'' \<noteq> None"
    using a assms(5,8) by (auto simp: Authenticate_def GetUserByEmail_def map_eq_Cons_conv)
  moreover have "session_ttl v = 3600 * second" by (simp add: session_ttl_def given to_int64_def second_def)
  ultimately show ?thesis
    using seeded assms(3,6) a(1)
    by (simp add: main_ocean_def New_def adv given new_ocean_def New_auth_def)
qed

theorem default_boot_witness:
  "\<exists>s. main_ocean demo_viper demo_host = Inr (s, None) \<and> oc_advertiseGRPC (sv_ocean s) = ''10.0.0.1:8050''"
  using default_boot [OF demo_falls_back, of demo_host "''10.0.0.1''" empty_store "''$admin''"]
  by (auto simp: demo_host_def empty_store_def plain_crypto_def)

text \<open>An ocean that is not given its advertised address needs a route to the internet: without
  one the process ends, even with discovery off, where the address is used for nothing; the
  loopback address that New keeps for this case is never taken.\<close>
theorem offline_host_needs_address:
  assumes "GetString v ''advertise.grpc'' = []" and "h_dial h = None"
  shows "main_ocean v h = Inl NoRoute"
  using assms by (simp add: main_ocean_def New_def advertised_def GetIP_def Let_def)

theorem offline_host_needs_address_witness:
  "main_ocean demo_viper (demo_host\<lparr>h_dial := None\<rparr>) = Inl NoRoute"
  by (rule offline_host_needs_address) (simp_all add: demo_viper_def ocean_defaults_def)

text \<open>C33: Discovery from one end to the other: what an ocean registers when it comes up with
  discovery on, a worker reads back as this ocean and, alone in the registry, chooses it by
  its advertised address; and the refresh comes at least once in the lease's lifetime.\<close>
theorem registered_ocean_is_found:
  assumes "main_ocean v h = Inr (s, Some an)"
    and "0 \<le> GetInt v ''max_connections''" and "GetInt v ''max_connections'' \<le> int64_max"
  shows "(\<exists>k j. an_put an = Some (k, j) \<and> k = ''/tsunami/oceans/'' @ GetString v ''id'' \<and>
      selectOcean (Some [Some j]) = oc_advertiseGRPC (sv_ocean s)) \<and>
    oc_advertiseGRPC (sv_ocean s) \<noteq> [] \<and> 0 < an_period an \<and> an_period an \<le> an_ttl an"
proof (rule New_fields [OF main_New [OF assms(1)]])
  fix adv db a
  assume adv: "advertised v h = Inr adv" and s: "s = \<lparr>sv_ocean = new_ocean v adv, sv_auth = a\<rparr>"
  have an: "initDiscovery v h (sv_ocean s) = Some an" "oc_discovery (sv_ocean s)"
    using main_announced [OF assms(1)] by auto
  let ?r = "ocean_registration (sv_ocean s)"
  have put: "an_put an = Some (oceanPrefix @ oc_id (sv_ocean s), reg_json ?r)"
    and period: "0 < an_period an" "an_period an \<le> an_ttl an"
    using an by (auto simp: initDiscovery_def publishOcean_def Let_def split: if_splits option.splits)
  have r: "?r = \<lparr>o_ID = GetString v ''id'', o_Name = GetString v ''name'', o_GRPC = adv, o_HTTP = GetString v ''endpoints.http'',
      o_MaxConnections = GetInt v ''max_connections'', o_Workers = 0, o_MaxCap = 0, o_FreeCap = 0\<rparr>"
    by (simp add: ocean_registration_def s new_ocean_def Let_def)
  have "reg_ok ?r" using assms(2,3) by (simp add: r reg_ok_def int64_ok_def int64_min_def int64_max_def)
  then have "selectOcean (Some [Some (reg_json ?r)]) = o_GRPC ?r"
    by (rule idle_ocean_chosen) (use assms(2) advertised_nonempty [OF adv] in \<open>simp_all add: r\<close>)
  moreover have "o_GRPC ?r = oc_advertiseGRPC (sv_ocean s)"
    by (simp add: ocean_registration_def Let_def)
  moreover note put period advertised_nonempty [OF adv]
  ultimately show ?thesis by (simp add: oceanPrefix_def s new_ocean_def)
qed

text \<open>The same reader with a registry.\<close>

definition registry_viper :: viper where
  "registry_viper = demo_viper\<lparr>GetStringSlice := (\<lambda>_. [''10.0.0.9:2379''])\<rparr>"

theorem registered_ocean_is_found_witness:
  "\<exists>s an k j. main_ocean registry_viper demo_host = Inr (s, Some an) \<and> an_put an = Some (k, j) \<and>
     selectOcean (Some [Some j]) = ''10.0.0.1:8050''"
proof -
  have "GetStringSlice registry_viper ''registry.endpoints'' \<noteq> []" "GetString registry_viper = GetString demo_viper"
    "GetInt registry_viper = GetInt demo_viper" "GetBool registry_viper = GetBool demo_viper"
    by (simp_all add: registry_viper_def)
  moreover have port: "SplitHostPort ''0.0.0.0:8050'' = Some (''0.0.0.0'', ''8050'')" by code_simp
  have adv: "advertised registry_viper demo_host = Inr ''10.0.0.1:8050''"
    by (simp add: advertised_def registry_viper_def demo_viper_def demo_host_def GetIP_def ocean_defaults_def port)
  moreover obtain a where "SeedAdmin plain_crypto 0 ''admin'' ''admin'' (New_auth empty_store (session_ttl registry_viper) False) = Some a"
    by (auto simp: SeedAdmin_def CountUsers_def CreateUser_def user_conflict_def plain_crypto_def empty_store_def Let_def)
  ultimately obtain s an where up: "main_ocean registry_viper demo_host = Inr (s, Some an)"
    "oc_advertiseGRPC (sv_ocean s) = ''10.0.0.1:8050''"
    by (auto simp: main_ocean_def New_def initDiscovery_def adv demo_host_def new_ocean_def publishOcean_def
        demo_viper_def ocean_defaults_def Let_def)
  have "0 \<le> GetInt registry_viper ''max_connections'' \<and> GetInt registry_viper ''max_connections'' \<le> int64_max"
    by (simp add: registry_viper_def demo_viper_def ocean_defaults_def int64_max_def)
  with registered_ocean_is_found [OF up(1)] up show ?thesis by auto
qed

end
