(* ===== verification/Server.thy ===== *)
theory Server
  imports Boot
begin

text \<open>
  A running ocean as a whole: from the state in which main leaves it, HTTP requests, the
  operations of the workers' streams and changes of mood of the database follow each other
  in any order. The invariants of the scheduler and of the database hold in every state.
\<close>

definition server_init :: "server \<Rightarrow> bool" where
  "server_init s \<longleftrightarrow> (\<exists>v h db an. main_ocean v h = Inr (s, an) \<and>
     h_open h (GetString v ''auth.db_path'') = Some db \<and> store_ok db)"

inductive server_step :: "server \<Rightarrow> server \<Rightarrow> bool" where
  request: "server_step s (snd (serve x r s))"
| stream: "ocean_step True (sv_ocean s) oc' \<Longrightarrow> server_step s (s\<lparr>sv_ocean := oc'\<rparr>)"
| driver: "server_step s (put_store ((sv_store s)\<lparr>db_refuses := f\<rparr>) s)"

definition server_ok :: "server \<Rightarrow> bool" where
  "server_ok s \<longleftrightarrow> wf_ocean (sv_ocean s) \<and> store_ok (sv_store s) \<and> users (sv_store s) \<noteq> []"

lemma put_store_simps [simp]: "sv_store (put_store db s) = db" "sv_ocean (put_store db s) = sv_ocean s"
  by (simp_all add: put_store_def)

text \<open>Whatever a request does, it does to one part.\<close>

lemma one_operation_ok: "one_operation s s' \<Longrightarrow> server_ok s \<Longrightarrow> server_ok s' \<and> users (sv_store s') = users (sv_store s)"
  by (auto simp: one_operation_def server_ok_def intro: ocean_step_wf store_step_ok)

lemma server_step_ok: "server_step s s' \<Longrightarrow> server_ok s \<Longrightarrow> server_ok s' \<and> users (sv_store s') = users (sv_store s)"
proof (induction rule: server_step.induct)
  case (request s x r)
  then show ?case using one_operation_ok serve_operation by blast
next
  case (stream s oc')
  then show ?case using one_operation_ok one_ocean by blast
next
  case (driver s f)
  then show ?case using store_step_ok [OF store_step.driver] by (simp add: server_ok_def)
qed

lemma SeedAdmin_store:
  "SeedAdmin cr now n p a = Some a' \<Longrightarrow> store_ok (a_store a) \<Longrightarrow> store_ok (a_store a') \<and> users (a_store a') \<noteq> []"
proof (cases "users (a_store a) = []")
  case True
  assume seed: "SeedAdmin cr now n p a = Some a'" and ok: "store_ok (a_store a)"
  show ?thesis
    by (rule SeedAdmin_empty [OF True seed]) (use ok store_step_ok in auto)
qed (auto simp: SeedAdmin_def CountUsers_def split: if_splits)

lemma server_init_ok:
  assumes "server_init s"
  shows "server_ok s"
proof -
  from assms obtain v h db an where up: "main_ocean v h = Inr (s, an)"
    "h_open h (GetString v ''auth.db_path'') = Some db" "store_ok db" by (auto simp: server_init_def)
  show ?thesis
  proof (rule New_fields [OF main_New [OF up(1)]])
    fix adv db' a
    assume "h_open h (GetString v ''auth.db_path'') = Some db'"
      and seed: "SeedAdmin (h_crypto h) (h_now h) (GetString v ''auth.bootstrap_admin.username'')
        (GetString v ''auth.bootstrap_admin.password'') (New_auth db' (session_ttl v) (GetBool v ''auth.cookie_secure'')) = Some a"
      and s: "s = \<lparr>sv_ocean = new_ocean v adv, sv_auth = a\<rparr>"
    with up have "store_ok (a_store (New_auth db' (session_ttl v) (GetBool v ''auth.cookie_secure'')))" by simp
    with SeedAdmin_store [OF seed] show ?thesis
      by (simp add: server_ok_def s new_ocean_def ocean_init_def ocean_init_wf)
  qed
qed

interpretation srv: machine server_init server_step server_ok
  by unfold_locales (auto intro: server_init_ok dest: server_step_ok)

lemma users_constant: "server_step\<^sup>*\<^sup>* s t \<Longrightarrow> server_ok s \<Longrightarrow> users (sv_store t) = users (sv_store s)"
proof (induction rule: rtranclp_induct)
  case (step t t')
  then have "server_ok t" using srv.inv_steps by blast
  with server_step_ok [OF step(2)] step show ?case by simp
qed simp

section \<open>Properties\<close>

text \<open>C12: Over the whole life of an ocean, whatever requests come, whatever the workers' streams do
  and whichever statements the database refuses: the accounts stay exactly those of
  start-up, of which there is at least one; a session belongs to one of them; every table
  has one row a key; the connection limit holds; and tests hold shares on attached workers
  only.\<close>
theorem server_consistent:
  assumes "server_init s" and "server_step\<^sup>*\<^sup>* s t"
  shows "users (sv_store t) = users (sv_store s) \<and> users (sv_store s) \<noteq> [] \<and>
    (\<forall>k row. map_of (sessions (sv_store t)) k = Some row \<longrightarrow> se_user_id row \<in> u_ID ` set (users (sv_store s))) \<and>
    wf_map (sessions (sv_store t)) \<and> wf_map (bookmarks (sv_store t)) \<and> wf_map (envs (sv_store t)) \<and>
    (0 < oc_maxConnections (sv_ocean t) \<longrightarrow> int (length (oc_workers (sv_ocean t))) \<le> oc_maxConnections (sv_ocean t)) \<and>
    (\<forall>n j. map_of (oc_jobs (sv_ocean t)) n = Some j \<longrightarrow> mkeys (j_assignments j) \<subseteq> mkeys (oc_workers (sv_ocean t)))"
proof -
  have init: "server_ok s" using assms(1) by (rule server_init_ok)
  have ok: "server_ok t" by (rule srv.inv_steps [OF init assms(2)])
  have users: "users (sv_store t) = users (sv_store s)" by (rule users_constant [OF assms(2) init])
  have "se_user_id row \<in> u_ID ` set (users (sv_store s))" if "map_of (sessions (sv_store t)) k = Some row" for k row
  proof -
    have "user_by_id (sv_store t) (se_user_id row) \<noteq> None"
      using ok that by (auto simp: server_ok_def store_ok_def)
    then show ?thesis by (auto simp: user_by_id_def find_Some_iff users image_iff) (metis nth_mem)
  qed
  moreover have "mkeys (j_assignments j) \<subseteq> mkeys (oc_workers (sv_ocean t))"
    if "map_of (oc_jobs (sv_ocean t)) n = Some j" for n j
  proof
    fix i assume "i \<in> mkeys (j_assignments j)"
    then obtain c where "map_of (j_assignments j) i = Some c" using mkeys_obtain by metis
    with wf_oceanD(4) [OF _ that] ok show "i \<in> mkeys (oc_workers (sv_ocean t))"
      by (auto simp: server_ok_def wf_job_def)
  qed
  moreover have "0 < oc_maxConnections (sv_ocean t) \<longrightarrow> int (length (oc_workers (sv_ocean t))) \<le> oc_maxConnections (sv_ocean t)"
    using ok by (simp add: server_ok_def wf_ocean_def)
  moreover have "wf_map (sessions (sv_store t))" "wf_map (bookmarks (sv_store t))" "wf_map (envs (sv_store t))"
    using ok by (simp_all add: server_ok_def store_ok_def)
  moreover have "users (sv_store s) \<noteq> []" using init by (simp add: server_ok_def)
  ultimately show ?thesis using users by blast
qed

theorem server_consistent_witness:
  "\<exists>s. server_init s \<and> users (sv_store (snd (serve web_outside demo_login s))) = users (sv_store s) \<and> users (sv_store s) \<noteq> []"
proof -
  obtain s where up: "main_ocean demo_viper demo_host = Inr (s, None)" using demo_boots by blast
  have "h_open demo_host (GetString demo_viper ''auth.db_path'') = Some empty_store" by (simp add: demo_host_def)
  with up store_ok_empty have init: "server_init s" by (auto simp: server_init_def)
  have "server_step\<^sup>*\<^sup>* s (snd (serve web_outside demo_login s))"
    by (rule r_into_rtranclp) (rule server_step.request)
  from server_consistent [OF init this] init show ?thesis by blast
qed

end
