(* ===== verification/Attach.thy ===== *)
theory Attach
  imports OceanProps
begin

text \<open>
  The ocean's end of the attach stream (master/client.go: Attach): the token check, the
  registration, the messages that follow, and the clean-up when the stream ends. Every
  open stream is a session, known by a number; several may be open at a time.
\<close>

section \<open>Opening a stream\<close>

text \<open>The metadata values of the key authorization, in order.\<close>

definition token_ok :: "string \<Rightarrow> string list \<Rightarrow> bool" where
  "token_ok tok vals \<longleftrightarrow> tok = [] \<or> \<not> (vals = [] \<or> hd vals \<noteq> ''Bearer '' @ tok)"

definition registered_worker :: "register \<Rightarrow> string \<Rightarrow> attached_worker" where
  "registered_worker reg ip =
     \<lparr>w_id = r_worker_id reg, w_name = r_name reg, w_ip = ip, w_maxCap = r_max_concurrency reg,
      w_used = 0, w_send = [], w_metrics = [], w_samples = []\<rparr>"

definition open_stream ::
    "string list \<Rightarrow> worker_message \<Rightarrow> string \<Rightarrow> ocean \<Rightarrow> (string + string) \<times> ocean" where
  "open_stream vals first ip oc =
     (if \<not> token_ok (oc_auth_token oc) vals
      then (Inl ''unauthorized: missing or invalid attach token'', oc)
      else case GetRegister first of
             None \<Rightarrow> (Inl ''first message must be Register with a worker id'', oc)
           | Some reg \<Rightarrow>
               if r_worker_id reg = []
               then (Inl ''first message must be Register with a worker id'', oc)
               else case addWorker (registered_worker reg ip) oc of
                      (False, oc) \<Rightarrow> (Inl ''ocean is at max_connections'', oc)
                    | (True, oc) \<Rightarrow> (Inr (r_worker_id reg), oc))"

section \<open>Messages and the end\<close>

definition stream_message :: "string \<Rightarrow> worker_message \<Rightarrow> ocean \<Rightarrow> ocean" where
  "stream_message i msg oc =
     (case Option.bind (GetReport msg) (\<lambda>r. map_option (Pair r) (rep_metric r)) of
        None \<Rightarrow> oc
      | Some (r, m) \<Rightarrow>
          (let oc = onReport i m oc
           in case rep_sample r of None \<Rightarrow> oc | Some smp \<Rightarrow> onSample i (m_job m) smp oc))"

definition close_stream :: "string \<Rightarrow> ocean \<Rightarrow> ocean" where
  "close_stream i oc = removeWorker i oc"

section \<open>Streams and the scheduler together\<close>

text \<open>
  The sessions that are open, each with the id its worker registered under, and the
  ocean. A limit on the wire is an int32. The parameter says whether an id may register
  while a session of the same id is open.
\<close>

type_synonym streams = "(nat, string) gomap"

definition int32_message :: "worker_message \<Rightarrow> bool" where
  "int32_message msg \<longleftrightarrow> (case GetRegister msg of None \<Rightarrow> True | Some r \<Rightarrow> r_max_concurrency r < 2 ^ 31)"

inductive stream_step :: "bool \<Rightarrow> streams \<times> ocean \<Rightarrow> streams \<times> ocean \<Rightarrow> bool" for reattach :: bool where
  opened: "k \<notin> mkeys ss \<Longrightarrow> int32_message first \<Longrightarrow> open_stream vals first ip oc = (Inr i, oc') \<Longrightarrow>
    i \<in> ran (map_of ss) \<longrightarrow> reattach \<Longrightarrow> stream_step reattach (ss, oc) (mput k i ss, oc')"
| rejected: "open_stream vals first ip oc = (Inl e, oc') \<Longrightarrow> stream_step reattach (ss, oc) (ss, oc')"
| message: "map_of ss k = Some i \<Longrightarrow> stream_step reattach (ss, oc) (ss, stream_message i msg oc)"
| closed: "map_of ss k = Some i \<Longrightarrow> stream_step reattach (ss, oc) (mdel k ss, close_stream i oc)"
| sender: "map_of ss k = Some i \<Longrightarrow> stream_step reattach (ss, oc) (ss, drain i oc)"
| client: "start_job db c oc = (e, oc') \<or> stop_job n oc = (e, oc') \<or> pause_job n oc = (e, oc') \<or>
    resume_job db n oc = (e, oc') \<Longrightarrow> stream_step reattach (ss, oc) (ss, oc')"

definition streams_init :: "streams \<times> ocean \<Rightarrow> bool" where
  "streams_init s \<longleftrightarrow> fst s = [] \<and> ocean_init (snd s)"

lemma open_stream_cases:
  assumes "open_stream vals first ip oc = (res, oc')"
  obtains (refused) e where "res = Inl e" and "oc' = oc"
  | (admitted) reg where "res = Inr (r_worker_id reg)" and "first = WMRegister reg" and "r_worker_id reg \<noteq> []"
      and "token_ok (oc_auth_token oc) vals" and "addWorker (registered_worker reg ip) oc = (True, oc')"
  using assms
  by (auto simp: open_stream_def addWorker_def split: if_splits option.splits elim!: GetRegister.elims)

lemma registered_worker_fresh: "r_max_concurrency reg < 2 ^ 31 \<Longrightarrow> fresh_worker (registered_worker reg ip)"
  by (simp add: fresh_worker_def registered_worker_def)

lemma keys_add:
  assumes "addWorker w oc = (True, oc')"
  shows "mkeys (oc_workers oc') = insert (w_id w) (mkeys (oc_workers oc))"
proof -
  have "oc' = oc\<lparr>oc_workers := mput (w_id w) w (oc_workers oc)\<rparr>"
    using assms by (simp add: addWorker_def split: if_splits)
  then show ?thesis by simp
qed

lemma keys_report [simp]: "mkeys (oc_workers (onReport i m oc)) = mkeys (oc_workers oc)"
  by (simp add: onReport_def)

lemma keys_sample [simp]: "mkeys (oc_workers (onSample i jb s oc)) = mkeys (oc_workers oc)"
  by (simp add: onSample_def)

lemma keys_drain [simp]: "mkeys (oc_workers (drain i oc)) = mkeys (oc_workers oc)"
  by (simp add: drain_def)

lemma keys_remove [simp]: "mkeys (oc_workers (removeWorker i oc)) = mkeys (oc_workers oc) - {i}"
proof (cases "map_of (oc_workers oc) i")
  case None
  then have "removeWorker i oc = oc" by (simp add: removeWorker_def del: map_of_eq_None_iff)
  moreover have "i \<notin> mkeys (oc_workers oc)" using None by (simp add: map_of_None_iff)
  ultimately show ?thesis by simp
next
  case (Some w)
  then show ?thesis by (simp add: removeWorker_def)
qed

text \<open>No client operation attaches or detaches a worker.\<close>

lemma map_fst_fold_madj [simp]: "map fst (fold (\<lambda>(k, a). madj k (f a)) al m) = map fst m"
  by (induction al arbitrary: m) auto

lemma map_fst_map_snd [simp]: "map fst (map (\<lambda>(k, v). (k, f v)) m) = map fst m"
  by (simp add: case_prod_unfold)

definition same_ids :: "ocean \<Rightarrow> ocean \<Rightarrow> bool" where
  "same_ids oc oc' \<longleftrightarrow> map fst (oc_workers oc') = map fst (oc_workers oc)"

lemma same_idsD: "same_ids oc oc' \<Longrightarrow> mkeys (oc_workers oc') = mkeys (oc_workers oc)"
  by (metis same_ids_def set_map)

lemma same_ids_start: "start_job db c oc = (e, oc') \<Longrightarrow> same_ids oc oc'"
  by (erule start_job_cases) (simp_all add: same_ids_def del: map_map)

lemma same_ids_stop: "wf_ocean oc \<Longrightarrow> stop_job n oc = (e, oc') \<Longrightarrow> same_ids oc oc'"
  by (erule (1) stop_job_cases) (simp_all add: same_ids_def)

lemma same_ids_pause: "wf_ocean oc \<Longrightarrow> pause_job n oc = (e, oc') \<Longrightarrow> same_ids oc oc'"
  by (erule (1) pause_job_cases) (simp_all add: same_ids_def)

lemma same_ids_plan:
  "resume_plan al r ws = Inl ws' \<Longrightarrow> map fst ws' = map fst ws"
  "resume_plan al r ws = Inr (al', ws') \<Longrightarrow> map fst ws' = map fst ws"
  by (auto simp: resume_plan_def Let_def release_held_def reserve_def split: if_splits option.splits)

lemma same_ids_resume: "wf_ocean oc \<Longrightarrow> resume_job db n oc = (e, oc') \<Longrightarrow> same_ids oc oc'"
  by (erule (1) resume_job_cases) (auto simp: same_ids_def dest: same_ids_plan)

lemmas same_ids_client = same_ids_start same_ids_stop same_ids_pause same_ids_resume

lemma stream_message_reach:
  "reach ocean_init (ocean_step r) oc \<Longrightarrow> reach ocean_init (ocean_step r) (stream_message i msg oc)"
  by (auto simp: stream_message_def Let_def split: option.split
      intro: reach_step ocean_step.report ocean_step.sample)

lemma keys_message [simp]: "mkeys (oc_workers (stream_message i msg oc)) = mkeys (oc_workers oc)"
  by (simp add: stream_message_def Let_def split: option.split)

section \<open>One session a worker\<close>

text \<open>
  Without double registration the sessions and the attached workers correspond, and the
  ocean's part is one of the scheduler's own runs.
\<close>

definition one_each :: "streams \<Rightarrow> bool" where
  "one_each ss \<longleftrightarrow> inj_on (map_of ss) (dom (map_of ss))"

definition streams_ok :: "streams \<times> ocean \<Rightarrow> bool" where
  "streams_ok s \<longleftrightarrow> one_each (fst s) \<and> ran (map_of (fst s)) = mkeys (oc_workers (snd s)) \<and>
     reach ocean_init (ocean_step False) (snd s)"

lemma streams_okI:
  "one_each ss \<Longrightarrow> ran (map_of ss) = mkeys (oc_workers oc) \<Longrightarrow> reach ocean_init (ocean_step False) oc \<Longrightarrow>
   streams_ok (ss, oc)"
  by (simp add: streams_ok_def)

lemma streams_okD:
  assumes "streams_ok (ss, oc)"
  shows "one_each ss" and "ran (map_of ss) = mkeys (oc_workers oc)"
    and "reach ocean_init (ocean_step False) oc" and "wf_ocean oc"
  using assms tidy_ok by (auto simp: streams_ok_def)

lemma one_each_mput: "one_each ss \<Longrightarrow> i \<notin> ran (map_of ss) \<Longrightarrow> one_each (mput k i ss)"
  by (auto simp: one_each_def inj_on_def ran_def)

lemma one_each_mdel: "one_each ss \<Longrightarrow> one_each (mdel k ss)"
  by (auto simp: one_each_def inj_on_def)

lemma ran_mdel:
  assumes "one_each ss" and "map_of ss k = Some i"
  shows "ran (map_of (mdel k ss)) = ran (map_of ss) - {i}"
proof -
  have uniq: "map_of ss k' = Some i \<longleftrightarrow> k' = k" for k'
    using inj_onD [OF assms(1) [unfolded one_each_def], of k' k] assms(2) by auto
  have "(\<exists>k'. k' \<noteq> k \<and> map_of ss k' = Some x) \<longleftrightarrow> (\<exists>k'. map_of ss k' = Some x) \<and> x \<noteq> i" for x
    using uniq assms(2) by (metis option.inject)
  then show ?thesis by (auto simp: ran_def)
qed

lemma stream_step_ok: "stream_step False s s' \<Longrightarrow> streams_ok s \<Longrightarrow> streams_ok s'"
proof (induction rule: stream_step.induct)
  case (opened k ss first vals ip oc i oc')
  note ok = streams_okD [OF opened(5)]
  from opened(3) show ?case
  proof (cases rule: open_stream_cases)
    case (admitted reg)
    then have i: "w_id (registered_worker reg ip) = i" by (simp add: registered_worker_def)
    have new: "i \<notin> ran (map_of ss)" using opened(4) by simp
    have "fresh_worker (registered_worker reg ip)"
      using opened(2) admitted(2) by (simp add: int32_message_def registered_worker_fresh)
    then have step: "ocean_step False oc oc'"
      using ocean_step.attach [OF _ _ admitted(5)] new ok(2) i by simp
    have "map_of ss k = None" using opened(1) by (simp add: map_of_None_iff)
    then have "ran (map_of (mput k i ss)) = mkeys (oc_workers oc')"
      using keys_add [OF admitted(5)] i ok(2) by simp
    with step show ?thesis
      by (intro streams_okI one_each_mput ok new reach_step [OF ok(3)])
  qed simp
next
  case (rejected vals first ip oc e oc' ss)
  from rejected(1) show ?case by (cases rule: open_stream_cases) (use rejected(2) in auto)
next
  case (message ss k i oc msg)
  then show ?case by (simp add: streams_ok_def stream_message_reach)
next
  case (closed ss k i oc)
  note ok = streams_okD [OF closed(2)]
  have "ran (map_of (mdel k ss)) = mkeys (oc_workers (close_stream i oc))"
    using ran_mdel [OF ok(1) closed(1)] ok(2) by (simp add: close_stream_def)
  moreover have "ocean_step False oc (close_stream i oc)"
    unfolding close_stream_def by (rule ocean_step.detach)
  ultimately show ?case by (blast intro: streams_okI one_each_mdel ok reach_step)
next
  case (sender ss k i oc)
  note ok = streams_okD [OF sender(2)]
  show ?case by (rule streams_okI) (simp_all add: ok reach_step [OF ok(3) ocean_step.drained])
next
  case (client db c oc e oc' n ss)
  note ok = streams_okD [OF client(2)]
  have "same_ids oc oc'" using client(1) ok(4) by (elim disjE) (rule same_ids_client; assumption)+
  moreover have "ocean_step False oc oc'"
    using client(1) by (elim disjE) (rule ocean_step.start ocean_step.stop ocean_step.pause
        ocean_step.resume; assumption)+
  ultimately show ?case using ok(2) by (intro streams_okI ok(1) reach_step [OF ok(3)]) (simp_all add: same_idsD)
qed

lemma streams_init_ok: "streams_init s \<Longrightarrow> streams_ok s"
  by (auto simp: streams_init_def streams_ok_def one_each_def ocean_init_def intro: reach_init)

interpretation str: machine streams_init "stream_step False" streams_ok
  by unfold_locales (auto intro: streams_init_ok stream_step_ok)

section \<open>Properties\<close>

text \<open>C39: attachServer.Attach (up to the message loop): a stream is admitted iff its first
  authorization value is the shared token (when one is set), its first message is a
  Register with a worker id, and the connection limit has room. The admitted worker
  stands in the fleet under its id with the limit it announced and nothing reserved or
  queued; every other worker and every job is as before. A stream that is not admitted
  leaves the ocean as it was.\<close>
theorem stream_admission:
  "(fst (open_stream vals first ip oc) = Inr i \<longleftrightarrow>
      (oc_auth_token oc = [] \<or> (\<exists>rest. vals = (''Bearer '' @ oc_auth_token oc) # rest)) \<and>
      (\<exists>reg. first = WMRegister reg \<and> r_worker_id reg = i \<and> i \<noteq> []) \<and>
      \<not> (0 < oc_maxConnections oc \<and> oc_maxConnections oc \<le> int (length (oc_workers oc)))) \<and>
   (case fst (open_stream vals first ip oc) of
      Inl _ \<Rightarrow> snd (open_stream vals first ip oc) = oc
    | Inr i \<Rightarrow> oc_jobs (snd (open_stream vals first ip oc)) = oc_jobs oc \<and>
        (\<exists>reg. first = WMRegister reg \<and> map_of (oc_workers (snd (open_stream vals first ip oc))) =
          (map_of (oc_workers oc))(i \<mapsto> \<lparr>w_id = i, w_name = r_name reg, w_ip = ip,
             w_maxCap = r_max_concurrency reg, w_used = 0, w_send = [], w_metrics = [], w_samples = []\<rparr>)))"
proof (intro conjI)
  have tok: "token_ok t vals \<longleftrightarrow> t = [] \<or> (\<exists>rest. vals = (''Bearer '' @ t) # rest)" for t
    by (cases vals) (auto simp: token_ok_def)
  show "fst (open_stream vals first ip oc) = Inr i \<longleftrightarrow>
      (oc_auth_token oc = [] \<or> (\<exists>rest. vals = (''Bearer '' @ oc_auth_token oc) # rest)) \<and>
      (\<exists>reg. first = WMRegister reg \<and> r_worker_id reg = i \<and> i \<noteq> []) \<and>
      \<not> (0 < oc_maxConnections oc \<and> oc_maxConnections oc \<le> int (length (oc_workers oc)))"
    unfolding tok [symmetric] by (cases first) (auto simp: open_stream_def addWorker_def)
qed (cases first; auto simp: open_stream_def addWorker_def registered_worker_def)

definition run_token :: ocean where
  "run_token = run_init\<lparr>oc_auth_token := ''s3''\<rparr>"

definition run_reg :: "string \<Rightarrow> register" where
  "run_reg i = \<lparr>r_worker_id = i, r_name = i, r_max_concurrency = 4\<rparr>"

theorem stream_admission_witness:
  "fst (open_stream [''Bearer s3''] (WMRegister (run_reg ''a'')) [] run_token) = Inr ''a'' \<and>
   snd (open_stream [''s3''] (WMRegister (run_reg ''a'')) [] run_token) = run_token"
proof
  show "fst (open_stream [''Bearer s3''] (WMRegister (run_reg ''a'')) [] run_token) = Inr ''a''"
    using stream_admission [of "[''Bearer s3'']" "WMRegister (run_reg ''a'')" "[]" run_token "''a''"]
    by (simp add: run_token_def run_init_def run_reg_def)
  have "fst (open_stream [''s3''] (WMRegister (run_reg ''a'')) [] run_token) =
      Inl ''unauthorized: missing or invalid attach token''" by code_simp
  with stream_admission [of "[''s3'']" "WMRegister (run_reg ''a'')" "[]" run_token "''a''"]
  show "snd (open_stream [''s3''] (WMRegister (run_reg ''a'')) [] run_token) = run_token" by simp
qed


lemma reach_open:
  assumes "reach streams_init (stream_step r) (ss, oc)" and "k \<notin> mkeys ss" and "int32_message first"
    and "fst (open_stream vals first ip oc) = Inr i" and "i \<in> ran (map_of ss) \<longrightarrow> r"
  shows "reach streams_init (stream_step r) (mput k i ss, snd (open_stream vals first ip oc))"
  using assms by (intro reach_step [OF assms(1) stream_step.opened]) (auto simp: prod_eq_iff)

definition run_open :: "ocean \<Rightarrow> ocean" where
  "run_open oc = snd (open_stream [''Bearer s3''] (WMRegister (run_reg ''a'')) [] oc)"

lemma run_open_reach:
  "reach streams_init (stream_step r) ([(1, ''a'')], run_open run_token)"
  "reach streams_init (stream_step True) ([(1, ''a''), (2, ''a'')], run_open (run_open run_token))"
proof -
  have r1: "reach streams_init (stream_step r) (mput 1 ''a'' [], run_open run_token)" for r
    unfolding run_open_def
    by (rule reach_open)
      (auto intro: reach_init simp: streams_init_def ocean_init_def run_token_def run_init_def
        int32_message_def run_reg_def open_stream_def token_ok_def addWorker_def)
  then show one: "reach streams_init (stream_step r) ([(1, ''a'')], run_open run_token)" for r
    by (simp add: mput_def)
  have "fst (open_stream [''Bearer s3''] (WMRegister (run_reg ''a'')) [] (run_open run_token)) = Inr ''a''"
    by code_simp
  then have "reach streams_init (stream_step True) (mput 2 ''a'' [(1, ''a'')], run_open (run_open run_token))"
    unfolding run_open_def [of "run_open run_token"]
    by (intro reach_open one) (simp_all add: int32_message_def run_reg_def)
  then show "reach streams_init (stream_step True) ([(1, ''a''), (2, ''a'')], run_open (run_open run_token))"
    by (simp add: mput_def)
qed


text \<open>Two open streams of the same worker id (a worker that reconnects before the ocean
  has noticed that its old stream is dead): when the old stream breaks, its clean-up takes
  the id out of the ocean although the new stream is open. From then on the new stream's
  reports are dropped, and no job has a share on the worker.\<close>
theorem stale_stream_detaches:
  assumes "map_of ss old = Some i" and "map_of ss new = Some i" and "new \<noteq> old"
  shows "stream_step r (ss, oc) (mdel old ss, close_stream i oc) \<and> map_of (mdel old ss) new = Some i \<and>
    map_of (oc_workers (close_stream i oc)) i = None \<and>
    stream_message i msg (close_stream i oc) = close_stream i oc"
proof (intro conjI)
  have gone: "i \<notin> mkeys (oc_workers (close_stream i oc))" by (simp add: close_stream_def)
  show "stream_step r (ss, oc) (mdel old ss, close_stream i oc)"
    by (rule stream_step.closed [OF assms(1)])
  show "map_of (mdel old ss) new = Some i" using assms(2,3) by simp
  show "map_of (oc_workers (close_stream i oc)) i = None" using gone by (simp add: map_of_None_iff)
  have "onReport i m oc' = oc'" "onSample i jb smp oc' = oc'" if "i \<notin> mkeys (oc_workers oc')" for oc' m jb smp
    using that by (simp_all add: onReport_def onSample_def madj_missing)
  with gone show "stream_message i msg (close_stream i oc) = close_stream i oc"
    by (simp add: stream_message_def Let_def split: option.split)
qed

theorem stale_stream_detaches_witness:
  "\<exists>oc. reach streams_init (stream_step True) ([(2, ''a'')], oc) \<and> map_of (oc_workers oc) ''a'' = None"
proof -
  define ss where "ss = [(1 :: nat, ''a''), (2, ''a'')]"
  define oc where "oc = run_open (run_open run_token)"
  have r: "reach streams_init (stream_step True) (ss, oc)"
    unfolding ss_def oc_def by (rule run_open_reach)
  have two: "map_of ss 1 = Some ''a''" "map_of ss 2 = Some ''a''" "(2 :: nat) \<noteq> 1"
    by (simp_all add: ss_def)
  have "reach streams_init (stream_step True) (mdel 1 ss, close_stream ''a'' oc)"
    using stale_stream_detaches [OF two] by (intro reach_step [OF r]) blast
  moreover have "mdel 1 ss = [(2, ''a'')]" by (simp add: ss_def mdel_def)
  ultimately show ?thesis using stale_stream_detaches [OF two, of _ oc] by auto
qed

end
