(* ===== verification/Tmpl.thy ===== *)
theory Tmpl
  imports GoStrings
begin

unbundle bit_operations_syntax

text \<open>
  Request templates (worker/tmpl.go): a string is compiled once into literal and generator
  segments and rendered for every request. What a generator reads is a state: the shared
  counter, the clock, and the source of random numbers with the position of the next
  draw; math/rand promises of a draw below n only that it lies in [0, n).
\<close>

section \<open>Segments\<close>

datatype gen = GUuid | GSeq | GNow | GNowMs | GTimestamp | GRandInt int int | GRandString int

datatype segment = Literal string | Gen gen

record tmpl =
  tm_segs :: "segment list"
  tm_static :: bool
  tm_raw :: string

section \<open>Parsing\<close>

definition parseGen :: "string \<Rightarrow> gen option" where
  "parseGen tok =
     (case Fields tok of
        [] \<Rightarrow> None
      | f # args \<Rightarrow>
          if f = ''uuid'' then Some GUuid
          else if f = ''seq'' then Some GSeq
          else if f = ''now'' then Some GNow
          else if f = ''nowMs'' then Some GNowMs
          else if f = ''timestamp'' then Some GTimestamp
          else if f = ''randInt'' then
            (case args of
               [a, b] \<Rightarrow> (case (Atoi a, Atoi b) of
                             (Some lo, Some hi) \<Rightarrow> Some (GRandInt lo hi)
                           | _ \<Rightarrow> None)
             | _ \<Rightarrow> None)
          else if f = ''randString'' then
            (case args of
               [a] \<Rightarrow> map_option GRandString (Atoi a)
             | _ \<Rightarrow> None)
          else None)"

lemma str_index_le: "str_index sub s = Some i \<Longrightarrow> i + length sub \<le> length s"
  using str_index_Some by force

text \<open>The loop of Compile, on what is left of the string.\<close>

function compile_from :: "string \<Rightarrow> segment list" where
  "compile_from s =
     (if s = [] then []
      else case str_index ''{{'' s of
             None \<Rightarrow> [Literal s]
           | Some beg \<Rightarrow>
               (let pre = (if beg > 0 then [Literal (take beg s)] else []);
                    rest = drop (beg + 2) s
                in case str_index ''}}'' rest of
                     None \<Rightarrow> pre @ [Literal (drop beg s)]
                   | Some rel \<Rightarrow>
                       (let seg = (case parseGen (TrimSpace (take rel rest)) of
                                     Some g \<Rightarrow> Gen g
                                   | None \<Rightarrow> Literal (take (rel + 4) (drop beg s)))
                        in pre @ seg # compile_from (drop (rel + 2) rest))))"
  by pat_completeness auto
termination
  by (relation "measure length") (auto dest: str_index_le)

declare compile_from.simps [simp del]

fun is_gen :: "segment \<Rightarrow> bool" where
  "is_gen (Gen _) = True"
| "is_gen (Literal _) = False"

definition Compile :: "string \<Rightarrow> tmpl" where
  "Compile s =
     (if \<not> str_contains s ''{{'' then \<lparr>tm_segs = [], tm_static = True, tm_raw = s\<rparr>
      else let segs = compile_from s
           in \<lparr>tm_segs = segs, tm_static = \<not> list_ex is_gen segs, tm_raw = s\<rparr>)"

section \<open>Generators\<close>

record rand_source =
  rs_pos :: nat
  rs_uint64 :: "nat \<Rightarrow> 64 word"
  rs_intn :: "nat \<Rightarrow> int \<Rightarrow> int"

record gen_state =
  gs_seq :: "64 word"
  gs_now :: int
  gs_rand :: rand_source

text \<open>What math/rand documents of Intn.\<close>

definition intn_ok :: "rand_source \<Rightarrow> bool" where
  "intn_ok rs \<longleftrightarrow> (\<forall>k n. 0 < n \<longrightarrow> 0 \<le> rs_intn rs k n \<and> rs_intn rs k n < n)"

definition draw_uint64 :: "rand_source \<Rightarrow> 64 word \<times> rand_source" where
  "draw_uint64 rs = (rs_uint64 rs (rs_pos rs), rs\<lparr>rs_pos := rs_pos rs + 1\<rparr>)"

text \<open>Intn panics for an argument that is not positive.\<close>

definition draw_intn :: "int \<Rightarrow> rand_source \<Rightarrow> (int \<times> rand_source) option" where
  "draw_intn n rs =
     (if n \<le> 0 then None else Some (rs_intn rs (rs_pos rs) n, rs\<lparr>rs_pos := rs_pos rs + 1\<rparr>))"

definition be_bytes :: "64 word \<Rightarrow> nat list" where
  "be_bytes w = map (\<lambda>i. unat (drop_bit (8 * (7 - i)) w) mod 256) [0..<8]"

definition hex_digits :: string where "hex_digits = ''0123456789abcdef''"

definition hex2 :: "nat \<Rightarrow> string" where
  "hex2 n = [hex_digits ! (n div 16), hex_digits ! (n mod 16)]"

definition hex_bytes :: "nat list \<Rightarrow> string" where
  "hex_bytes bs = concat (map hex2 bs)"

definition uuid_text :: "64 word \<Rightarrow> 64 word \<Rightarrow> string" where
  "uuid_text hi lo =
     (let b = be_bytes hi @ be_bytes lo;
          b = b[6 := (b ! 6 AND 0x0f) OR 0x40];
          b = b[8 := (b ! 8 AND 0x3f) OR 0x80]
      in hex_bytes (take 4 b) @ ''-'' @ hex_bytes (take 2 (drop 4 b)) @ ''-'' @
         hex_bytes (take 2 (drop 6 b)) @ ''-'' @ hex_bytes (take 2 (drop 8 b)) @ ''-'' @
         hex_bytes (drop 10 b))"

definition genUUID :: "rand_source \<Rightarrow> string \<times> rand_source" where
  "genUUID rs =
     (let (hi, rs) = draw_uint64 rs; (lo, rs) = draw_uint64 rs in (uuid_text hi lo, rs))"

text \<open>The arithmetic is that of a 64-bit int, which wraps.\<close>

definition genRandInt :: "int \<Rightarrow> int \<Rightarrow> rand_source \<Rightarrow> (int \<times> rand_source) option" where
  "genRandInt lo hi rs =
     (let (lo, hi) = (if hi < lo then (hi, lo) else (lo, hi))
      in map_option (\<lambda>(v, rs). (to_int64 (lo + v), rs)) (draw_intn (to_int64 (hi - lo + 1)) rs))"

definition alphanum :: string where
  "alphanum = ''abcdefghijklmnopqrstuvwxyzABCDEFGHIJKLMNOPQRSTUVWXYZ0123456789''"

fun rand_chars :: "nat \<Rightarrow> rand_source \<Rightarrow> string \<times> rand_source" where
  "rand_chars 0 rs = ([], rs)"
| "rand_chars (Suc n) rs =
     (let c = alphanum ! nat (rs_intn rs (rs_pos rs) (int (length alphanum)));
          (s, rs) = rand_chars n (rs\<lparr>rs_pos := rs_pos rs + 1\<rparr>)
      in (c # s, rs))"

definition genRandString :: "int \<Rightarrow> rand_source \<Rightarrow> string \<times> rand_source" where
  "genRandString n rs = (if n \<le> 0 then ([], rs) else rand_chars (nat n) rs)"

subsection \<open>The clock\<close>

definition pad2 :: "int \<Rightarrow> string" where
  "pad2 n = (if n < 10 then CHR ''0'' # int_str n else int_str n)"

definition pad4 :: "int \<Rightarrow> string" where
  "pad4 n = (if n < 10 then ''000'' else if n < 100 then ''00'' else if n < 1000 then ''0'' else []) @ int_str n"

text \<open>time.RFC3339 of a UTC time between the years 0 and 9999, in seconds since 1970.\<close>

definition rfc3339 :: "int \<Rightarrow> string" where
  "rfc3339 t =
     (let z = t div 86400 + 719468;
          era = z div 146097;
          doe = z mod 146097;
          yoe = (doe - doe div 1460 + doe div 36524 - doe div 146096) div 365;
          doy = doe - (365 * yoe + yoe div 4 - yoe div 100);
          mp = (5 * doy + 2) div 153;
          d = doy - (153 * mp + 2) div 5 + 1;
          m = (if mp < 10 then mp + 3 else mp - 9);
          y = yoe + era * 400 + (if m \<le> 2 then 1 else 0);
          s = t mod 86400
      in pad4 y @ ''-'' @ pad2 m @ ''-'' @ pad2 d @ ''T'' @
         pad2 (s div 3600) @ '':'' @ pad2 (s div 60 mod 60) @ '':'' @ pad2 (s mod 60) @ ''Z'')"

section \<open>Rendering\<close>

fun run_gen :: "gen \<Rightarrow> gen_state \<Rightarrow> (string \<times> gen_state) option" where
  "run_gen GUuid st = (let (s, rs) = genUUID (gs_rand st) in Some (s, st\<lparr>gs_rand := rs\<rparr>))"
| "run_gen GSeq st = (let n = gs_seq st + 1 in Some (nat_str (unat n), st\<lparr>gs_seq := n\<rparr>))"
| "run_gen GNow st = Some (int_str (gs_now st div 1000000000), st)"
| "run_gen GNowMs st = Some (int_str (gs_now st div 1000000), st)"
| "run_gen GTimestamp st = Some (rfc3339 (gs_now st div 1000000000), st)"
| "run_gen (GRandInt lo hi) st =
     map_option (\<lambda>(v, rs). (int_str v, st\<lparr>gs_rand := rs\<rparr>)) (genRandInt lo hi (gs_rand st))"
| "run_gen (GRandString n) st =
     (let (s, rs) = genRandString n (gs_rand st) in Some (s, st\<lparr>gs_rand := rs\<rparr>))"

fun render_segs :: "segment list \<Rightarrow> gen_state \<Rightarrow> (string \<times> gen_state) option" where
  "render_segs [] st = Some ([], st)"
| "render_segs (Literal s # segs) st =
     map_option (\<lambda>(t, st). (s @ t, st)) (render_segs segs st)"
| "render_segs (Gen g # segs) st =
     Option.bind (run_gen g st)
       (\<lambda>(s, st). map_option (\<lambda>(t, st). (s @ t, st)) (render_segs segs st))"

text \<open>Render: None where a generator panics.\<close>

definition Render :: "tmpl \<Rightarrow> gen_state \<Rightarrow> (string \<times> gen_state) option" where
  "Render t st = (if tm_static t then Some (tm_raw t, st) else render_segs (tm_segs t) st)"

section \<open>Compiling loses nothing\<close>

text \<open>The text a segment was made from.\<close>

fun made_from :: "string \<Rightarrow> segment \<Rightarrow> bool" where
  "made_from src (Literal s) \<longleftrightarrow> src = s"
| "made_from src (Gen g) \<longleftrightarrow> (\<exists>tok. src = ''{{'' @ tok @ ''}}'' \<and> parseGen (TrimSpace tok) = Some g)"

lemma token_split:
  assumes "str_index ''{{'' s = Some beg" and "str_index ''}}'' (drop (beg + 2) s) = Some rel"
  shows "s = take beg s @ (''{{'' @ take rel (drop (beg + 2) s) @ ''}}'') @ drop (rel + 2) (drop (beg + 2) s)"
    and "take (rel + 4) (drop beg s) = ''{{'' @ take rel (drop (beg + 2) s) @ ''}}''"
proof -
  obtain a b where s: "s = a @ ''{{'' @ b" and a: "length a = beg"
    using str_index_Some [OF assms(1)] by blast
  have b: "b = drop (beg + 2) s" by (simp add: s a [symmetric])
  obtain c d where bd: "b = c @ ''}}'' @ d" and c: "length c = rel"
    using str_index_Some assms(2) unfolding b [symmetric] by blast
  show "s = take beg s @ (''{{'' @ take rel (drop (beg + 2) s) @ ''}}'') @ drop (rel + 2) (drop (beg + 2) s)"
    unfolding b [symmetric] by (simp add: s a [symmetric] bd c [symmetric])
  show "take (rel + 4) (drop beg s) = ''{{'' @ take rel (drop (beg + 2) s) @ ''}}''"
    unfolding b [symmetric] by (simp add: s a [symmetric] bd c [symmetric] numeral_eq_Suc)
qed

lemma compile_from_sources: "\<exists>srcs. list_all2 made_from srcs (compile_from s) \<and> concat srcs = s"
proof (induction s rule: compile_from.induct)
  case (1 s)
  consider (empty) "s = []" | (plain) "s \<noteq> []" "str_index ''{{'' s = None"
    | (unclosed) beg where "s \<noteq> []" "str_index ''{{'' s = Some beg" "str_index ''}}'' (drop (beg + 2) s) = None"
    | (tok) beg rel where "s \<noteq> []" "str_index ''{{'' s = Some beg" "str_index ''}}'' (drop (beg + 2) s) = Some rel"
    by fastforce
  then show ?case
  proof cases
    case empty
    then show ?thesis by (intro exI [of _ "[]"]) (simp add: compile_from.simps)
  next
    case plain
    then show ?thesis by (auto simp: compile_from.simps [of s] intro!: exI [of _ "[s]"])
  next
    case (unclosed beg)
    then show ?thesis
      by (intro exI [of _ "(if beg > 0 then [take beg s] else []) @ [drop beg s]"])
        (auto simp: compile_from.simps [of s])
  next
    case (tok beg rel)
    let ?rest = "drop (beg + 2) s"
    let ?t = "''{{'' @ take rel ?rest @ ''}}''"
    obtain srcs where srcs: "list_all2 made_from srcs (compile_from (drop (rel + 2) ?rest))"
      "concat srcs = drop (rel + 2) ?rest"
      using 1 [OF tok(1,2) refl refl tok(3)] by blast
    let ?pre = "if beg > 0 then [take beg s] else []"
    have "concat (?pre @ ?t # srcs) = s"
      using token_split(1) [OF tok(2,3)] srcs(2) by auto
    moreover have "list_all2 made_from (?pre @ ?t # srcs) (compile_from s)"
      using tok srcs(1) token_split(2) [OF tok(2,3)]
      by (subst compile_from.simps) (auto simp: Let_def split: option.split)
    ultimately show ?thesis by blast
  qed
qed

lemma literals_source: "list_all2 made_from srcs segs \<Longrightarrow> \<not> list_ex is_gen segs \<Longrightarrow>
    render_segs segs st = Some (concat srcs, st)"
proof (induction srcs segs rule: list_all2_induct)
  case (Cons src srcs seg segs)
  then show ?case by (cases seg) auto
qed simp


section \<open>Generators stay in their ranges\<close>

lemma to_int64_range: "int64_min \<le> to_int64 i \<and> to_int64 i \<le> int64_max"
  using sint_greater_eq [of "word_of_int i :: 64 word"] sint_less [of "word_of_int i :: 64 word"]
  by (simp add: to_int64_def int64_min_def int64_max_def)

lemma to_int64_wrap:
  assumes "2 ^ 63 \<le> i" and "i \<le> 2 ^ 64"
  shows "to_int64 i \<le> 0"
proof -
  have "(word_of_int i :: 64 word) = word_of_int (i - 2 ^ 64)"
    by (simp add: wi_hom_sub [symmetric])
  then have "to_int64 i = to_int64 (i - 2 ^ 64)" unfolding to_int64_def by (rule arg_cong)
  also have "\<dots> = i - 2 ^ 64" using assms by (intro to_int64_id) (auto simp: int64_min_def int64_max_def)
  finally show ?thesis using assms by simp
qed

text \<open>A random integer lies between its bounds, in either order, and the draw fails only
  where the number of candidates exceeds the range of a 64-bit int: there math/rand panics,
  and with it the worker.\<close>

theorem randInt_between:
  assumes "int64_min \<le> lo" "lo \<le> int64_max" "int64_min \<le> hi" "hi \<le> int64_max" and "intn_ok rs"
  shows "case genRandInt lo hi rs of
      None \<Rightarrow> \<bar>hi - lo\<bar> \<ge> int64_max
    | Some (v, rs') \<Rightarrow> min lo hi \<le> v \<and> v \<le> max lo hi \<and> \<bar>hi - lo\<bar> < int64_max"
proof -
  define a b where "a = min lo hi" and "b = max lo hi"
  have gen: "genRandInt lo hi rs = map_option (\<lambda>(v, rs). (to_int64 (a + v), rs)) (draw_intn (to_int64 (b - a + 1)) rs)"
    by (auto simp: genRandInt_def a_def b_def Let_def min_def max_def)
  have bounds: "int64_min \<le> a" "a \<le> b" "b \<le> int64_max" and diff: "\<bar>hi - lo\<bar> = b - a"
    using assms(1-4) by (auto simp: a_def b_def)
  show ?thesis
  proof (cases "b - a < int64_max")
    case True
    then have n: "to_int64 (b - a + 1) = b - a + 1"
      using bounds by (intro to_int64_id) (auto simp: int64_min_def int64_max_def)
    define v where "v = rs_intn rs (rs_pos rs) (b - a + 1)"
    have v: "0 \<le> v" "v < b - a + 1" using assms(5) [unfolded intn_ok_def, rule_format, of "b - a + 1" "rs_pos rs"] bounds(2)
      unfolding v_def by linarith+
    then have "to_int64 (a + v) = a + v" using bounds by (intro to_int64_id) auto
    with True n v bounds show ?thesis
      by (simp add: gen draw_intn_def v_def [symmetric] diff a_def [symmetric] b_def [symmetric])
  next
    case False
    then have "to_int64 (b - a + 1) \<le> 0"
      using bounds by (intro to_int64_wrap) (auto simp: int64_min_def int64_max_def)
    with False show ?thesis by (simp add: gen draw_intn_def diff)
  qed
qed

theorem randInt_between_witness:
  "genRandInt 5 1 \<lparr>rs_pos = 0, rs_uint64 = (\<lambda>_. 0), rs_intn = (\<lambda>_ _. 0)\<rparr> \<noteq> None \<and>
   genRandInt int64_min int64_max \<lparr>rs_pos = 0, rs_uint64 = (\<lambda>_. 0), rs_intn = (\<lambda>_ _. 0)\<rparr> = None"
proof -
  let ?rs = "\<lparr>rs_pos = 0, rs_uint64 = (\<lambda>_. 0), rs_intn = (\<lambda>_ _. 0)\<rparr>"
  have ok: "intn_ok ?rs" by (simp add: intn_ok_def)
  have "genRandInt 5 1 ?rs \<noteq> None"
    using randInt_between [of 5 1 ?rs] ok
    by (cases "genRandInt 5 1 ?rs") (auto simp: int64_min_def int64_max_def)
  moreover have "genRandInt int64_min int64_max ?rs = None"
    using randInt_between [of int64_min int64_max ?rs] ok
    by (cases "genRandInt int64_min int64_max ?rs") (auto simp: int64_min_def int64_max_def)
  ultimately show ?thesis by blast
qed

lemma be_bytes_shape:
  "\<exists>a b c d e f g h. be_bytes w = [a, b, c, d, e, f, g, h] \<and>
     a < 256 \<and> b < 256 \<and> c < 256 \<and> d < 256 \<and> e < 256 \<and> f < 256 \<and> g < 256 \<and> h < 256"
  by (simp add: be_bytes_def upt_conv_Cons del: upt_Suc)

lemma hex2_digits: "n < 256 \<Longrightarrow> \<exists>x y. hex2 n = [x, y] \<and> x \<in> set hex_digits \<and> y \<in> set hex_digits"
proof -
  assume "n < 256"
  then have "n div 16 < length hex_digits" "n mod 16 < length hex_digits"
    by (simp_all add: hex_digits_def less_mult_imp_div_less)
  then show ?thesis unfolding hex2_def using nth_mem by blast
qed

lemma small_if_high_bits_clear: "drop_bit 8 n = 0 \<Longrightarrow> n < 256" for n :: nat
  by (simp add: drop_bit_eq_div div_eq_0_iff)

lemma version_byte: "n < 256 \<Longrightarrow> (n AND 0x0f) OR 0x40 < 256 \<and> ((n AND 0x0f) OR 0x40) div 16 = (4 :: nat)"
proof -
  have "drop_bit 4 ((n AND 0x0f) OR 0x40) = (4 :: nat)" "drop_bit 8 ((n AND 0x0f) OR 0x40) = (0 :: nat)"
    by (simp_all add: drop_bit_and drop_bit_or)
  then show ?thesis by (simp add: small_if_high_bits_clear drop_bit_eq_div)
qed

lemma variant_byte:
  "n < 256 \<Longrightarrow> (n AND 0x3f) OR 0x80 < 256 \<and> ((n AND 0x3f) OR 0x80) div 16 \<in> {8, 9, 10, 11 :: nat}"
proof -
  have "drop_bit 4 ((n AND 0x3f) OR 0x80) = (drop_bit 4 n AND 3) OR (8 :: nat)"
    "drop_bit 8 ((n AND 0x3f) OR 0x80) = (0 :: nat)"
    by (simp_all add: drop_bit_and drop_bit_or)
  moreover have "k AND 3 = 0 \<or> k AND 3 = 1 \<or> k AND 3 = 2 \<or> k AND 3 = (3 :: nat)" for k
  proof -
    have "k AND 3 = k mod 4" using take_bit_eq_mask [of 2 k] by (simp add: mask_eq_exp_minus_1 take_bit_eq_mod)
    then show ?thesis by presburger
  qed
  then have "(drop_bit 4 n AND 3) OR (8 :: nat) \<in> {8, 9, 10, 11}"
    by (rule disjE [of "drop_bit 4 n AND 3 = 0"]) auto
  ultimately show ?thesis by (simp add: small_if_high_bits_clear drop_bit_eq_div)
qed

lemma hex_bytes_simps [simp]:
  "hex_bytes [] = []" "hex_bytes (b # bs) = hex2 b @ hex_bytes bs"
  by (simp_all add: hex_bytes_def)

lemma length_hex2 [simp]: "length (hex2 b) = 2"
  by (simp add: hex2_def)

lemma length_hex_bytes [simp]: "length (hex_bytes bs) = 2 * length bs"
  by (induction bs) simp_all

lemma hex_bytes_digits: "list_all (\<lambda>b. b < 256) bs \<Longrightarrow> list_all (\<lambda>c. c \<in> set hex_digits) (hex_bytes bs)"
  by (induction bs) (force dest: hex2_digits)+

text \<open>A generated uuid has the form of RFC 4122, version 4: five groups of lower-case
  hexadecimal digits of lengths 8, 4, 4, 4 and 12, with the digit 4 and one of 8, 9, a, b
  where the version and the variant are.\<close>

theorem uuid_version4:
  "\<exists>g1 g2 g3 g4 g5 v. uuid_text hi lo = g1 @ ''-'' @ g2 @ ''-4'' @ g3 @ ''-'' @ v # g4 @ ''-'' @ g5 \<and>
     length g1 = 8 \<and> length g2 = 4 \<and> length g3 = 3 \<and> length g4 = 3 \<and> length g5 = 12 \<and>
     v \<in> set ''89ab'' \<and> list_all (\<lambda>c. c \<in> set hex_digits) (g1 @ g2 @ g3 @ g4 @ g5)"
proof -
  obtain a b c d e f g h where hi: "be_bytes hi = [a, b, c, d, e, f, g, h]"
    and hb: "list_all (\<lambda>b. b < 256) [a, b, c, d, e, f, g, h]"
    using be_bytes_shape [of hi] by auto
  obtain i j k l m n p q where lo: "be_bytes lo = [i, j, k, l, m, n, p, q]"
    and lb: "list_all (\<lambda>b. b < 256) [i, j, k, l, m, n, p, q]"
    using be_bytes_shape [of lo] by auto
  define g' i' where "g' = (g AND 0x0f) OR 0x40" and "i' = (i AND 0x3f) OR 0x80"
  have g': "g' < 256" "g' div 16 = 4" using version_byte [of g] hb by (simp_all add: g'_def)
  have i': "i' < 256" "i' div 16 \<in> {8, 9, 10, 11}" using variant_byte [of i] lb unfolding i'_def by simp_all
  have four: "hex2 g' = [CHR ''4'', hex_digits ! (g' mod 16)]"
    by (simp add: hex2_def g'(2)) (simp add: hex_digits_def)
  have v: "hex_digits ! (i' div 16) \<in> set ''89ab''" using i'(2) by (auto simp: hex_digits_def)
  have dig: "hex_digits ! (x mod 16) \<in> set hex_digits" for x
    by (rule nth_mem) (simp add: hex_digits_def)
  have "uuid_text hi lo = hex_bytes [a, b, c, d] @ ''-'' @ hex_bytes [e, f] @ ''-4'' @
      (hex_digits ! (g' mod 16) # hex2 h) @ ''-'' @ (hex_digits ! (i' div 16)) #
      (hex_digits ! (i' mod 16) # hex2 j) @ ''-'' @ hex_bytes [k, l, m, n, p, q]"
    unfolding uuid_text_def hi lo Let_def
    by (simp add: g'_def [symmetric] i'_def [symmetric] four hex2_def [of i'])
  moreover have "list_all (\<lambda>c. c \<in> set hex_digits) (hex2 x)" if "x < 256" for x
    using hex_bytes_digits [of "[x]"] that by simp
  ultimately show ?thesis
    using hb lb v dig
    by (intro exI [of _ "hex_bytes [a, b, c, d]"] exI [of _ "hex_bytes [e, f]"]
        exI [of _ "hex_digits ! (g' mod 16) # hex2 h"] exI [of _ "hex_digits ! (i' mod 16) # hex2 j"]
        exI [of _ "hex_bytes [k, l, m, n, p, q]"] exI [of _ "hex_digits ! (i' div 16)"]) simp
qed

lemma length_alphanum: "length alphanum = 62"
  by (simp add: alphanum_def)

lemma rand_chars_ok:
  "intn_ok rs \<Longrightarrow> rand_chars n rs = (s, rs') \<Longrightarrow> length s = n \<and> set s \<subseteq> set alphanum"
proof (induction n arbitrary: rs s rs')
  case (Suc n)
  obtain t rs1 where t: "rand_chars n (rs\<lparr>rs_pos := rs_pos rs + 1\<rparr>) = (t, rs1)" by force
  have "intn_ok (rs\<lparr>rs_pos := rs_pos rs + 1\<rparr>)" using Suc.prems(1) by (simp add: intn_ok_def)
  then have "length t = n \<and> set t \<subseteq> set alphanum" using t by (rule Suc.IH)
  moreover have "alphanum ! nat (rs_intn rs (rs_pos rs) 62) \<in> set alphanum"
    using Suc.prems(1) [unfolded intn_ok_def, rule_format, of 62 "rs_pos rs"]
    by (intro nth_mem) (simp add: length_alphanum nat_less_iff)
  ultimately show ?case using Suc.prems(2) t by (auto simp: Let_def length_alphanum)
qed simp

text \<open>A random string has the requested length, none for a length that is not positive, and
  consists of letters and digits.\<close>

theorem randString_ok:
  assumes "intn_ok rs" and "genRandString n rs = (s, rs')"
  shows "int (length s) = max 0 n \<and> set s \<subseteq> set alphanum"
  using assms rand_chars_ok [of rs "nat n" s rs'] by (auto simp: genRandString_def split: if_splits)

theorem randString_ok_witness:
  "int (length (fst (genRandString 3 \<lparr>rs_pos = 0, rs_uint64 = (\<lambda>_. 0), rs_intn = (\<lambda>_ _. 0)\<rparr>))) = 3"
  using randString_ok [of "\<lparr>rs_pos = 0, rs_uint64 = (\<lambda>_. 0), rs_intn = (\<lambda>_ _. 0)\<rparr>" 3, OF _ prod.collapse [symmetric]]
  by (simp add: intn_ok_def)

end
