(* ===== verification/Engine.thy ===== *)
theory Engine
  imports Tmpl WorkerStat
begin

text \<open>
  The load engine of a worker process (worker/tsunami.go, worker/worker.go,
  worker/sample.go): the service with its request loops, one request from its templates,
  and the goroutines that feed and drain the job queue. The HTTP client is not under
  src/: an exchange and the parsing of a URL are arguments.
\<close>

section \<open>State\<close>

record templates =
  urlTmpl :: tmpl
  bodyTmpl :: tmpl
  headerTmpls :: "(string, tmpl) gomap"

record host_client =
  hc_Addr :: string
  hc_MaxConns :: int
  hc_IsTLS :: bool

text \<open>Worker: one request loop; the templates are there once it has prepared.\<close>

record loop_worker =
  lw_conf :: conf
  lw_client :: "host_client option"
  lw_stat :: stat
  lw_tmpls :: "templates option"
  lw_sampling :: bool

text \<open>Tsunami: one running test; the recorder is shared by its workers.\<close>

record tsunami =
  ts_conf :: conf
  ts_maxQueues :: int
  ts_workers :: "loop_worker list"
  ts_done :: bool
  ts_start :: int
  ts_duration :: int
  ts_refresh :: int
  ts_enableReport :: bool
  ts_verbose :: bool
  ts_sample :: "sample option option"

definition new_tsunami :: "conf \<Rightarrow> bool \<Rightarrow> bool \<Rightarrow> tsunami" where
  "new_tsunami c report verbose =
     \<lparr>ts_conf = c, ts_maxQueues = 0, ts_workers = [], ts_done = False, ts_start = 0, ts_duration = 3600,
      ts_refresh = 2, ts_enableReport = report, ts_verbose = verbose, ts_sample = None\<rparr>"

section \<open>Setting up\<close>

text \<open>The address to dial: \<open>parse\<close> gives the scheme and the host of a URL.\<close>

definition target_host :: "(string \<Rightarrow> string \<times> string) \<Rightarrow> conf \<Rightarrow> string \<times> bool" where
  "target_host parse c =
     (if URL c \<noteq> [] then
        (let (scheme, host) = parse (URL c)
         in if scheme = ''https'' then (host @ '':443'', True)
            else if Port c \<noteq> [] then (host @ '':'' @ Port c, False)
            else (host @ '':80'', False))
      else (Host c @ '':'' @ Port c, Protocol c = ''https''))"

definition AddWorker :: "loop_worker \<Rightarrow> tsunami \<Rightarrow> tsunami" where
  "AddWorker w ts = ts\<lparr>ts_workers := ts_workers ts @ [w]\<rparr>"

definition init_worker :: "host_client \<Rightarrow> tsunami \<Rightarrow> loop_worker" where
  "init_worker c ts =
     \<lparr>lw_conf = ts_conf ts, lw_client = Some c, lw_stat = zero_stat, lw_tmpls = None,
      lw_sampling = (ts_sample ts \<noteq> None)\<rparr>"

definition Init :: "(string \<Rightarrow> string \<times> string) \<Rightarrow> int \<Rightarrow> tsunami \<Rightarrow> tsunami" where
  "Init parse maxQueues ts =
     (let ts = ts\<lparr>ts_maxQueues := maxQueues\<rparr>;
          (host, tls) = target_host parse (ts_conf ts);
          c = \<lparr>hc_Addr = host, hc_MaxConns = MaxConns (ts_conf ts), hc_IsTLS = tls\<rparr>;
          ts = (if ts_verbose ts then ts\<lparr>ts_sample := Some None\<rparr> else ts)
      in ((\<lambda>ts. AddWorker (init_worker c ts) ts) ^^ nat (Concurrence (ts_conf ts))) ts)"

definition Run :: "int \<Rightarrow> tsunami \<Rightarrow> tsunami" where
  "Run now ts = ts\<lparr>ts_start := now, ts_done := False\<rparr>"

definition Stop_ts :: "tsunami \<Rightarrow> tsunami" where
  "Stop_ts ts = ts\<lparr>ts_done := True\<rparr>"

definition worker_url :: "conf \<Rightarrow> string" where
  "worker_url c =
     (let protocol = (if Protocol c = ''http'' \<or> Protocol c = ''https'' then Protocol c else ''http'')
      in if URL c = [] then protocol @ ''://'' @ Host c @ '':'' @ Port c @ Path c else URL c)"

definition prepare :: "loop_worker \<Rightarrow> loop_worker" where
  "prepare w = w\<lparr>lw_tmpls := Some
     \<lparr>urlTmpl = Compile (worker_url (lw_conf w)), bodyTmpl = Compile (Body (lw_conf w)),
      headerTmpls = map (\<lambda>(k, v). (k, Compile v)) (Headers (lw_conf w))\<rparr>\<rparr>"

section \<open>One request\<close>

record http_out =
  ho_Method :: string
  ho_Headers :: "http_header list"
  ho_URI :: string
  ho_Body :: string

text \<open>
  What the HTTP client makes of it: the request as it went out, and an error or the
  response.
\<close>

record http_in =
  hi_Status :: int
  hi_Headers :: "http_header list"
  hi_Body :: string

record exchange =
  ex_Method :: string
  ex_URL :: string
  ex_ReqHeaders :: "http_header list"
  ex_ReqBody :: string
  ex_Result :: "string + http_in"

fun render_headers ::
    "(string, tmpl) gomap \<Rightarrow> gen_state \<Rightarrow> (http_header list \<times> gen_state) option" where
  "render_headers [] st = Some ([], st)"
| "render_headers ((k, t) # hs) st =
     Option.bind (Render t st) (\<lambda>(v, st).
       map_option (\<lambda>(rest, st). (\<lparr>hh_key = k, hh_value = v\<rparr> # rest, st)) (render_headers hs st))"

text \<open>The request is built in the order headers, URL, body; None where a generator panics.\<close>

definition build_request :: "loop_worker \<Rightarrow> gen_state \<Rightarrow> (http_out \<times> gen_state) option" where
  "build_request w st =
     Option.bind (lw_tmpls w) (\<lambda>t.
     Option.bind (render_headers (headerTmpls t) st) (\<lambda>(hs, st).
     Option.bind (Render (urlTmpl t) st) (\<lambda>(uri, st).
     map_option (\<lambda>(body, st).
       (\<lparr>ho_Method = Method (lw_conf w), ho_Headers = hs, ho_URI = uri, ho_Body = body\<rparr>, st))
       (Render (bodyTmpl t) st))))"

definition exchange_ok :: "exchange \<Rightarrow> bool" where
  "exchange_ok ex =
     (case ex_Result ex of Inl _ \<Rightarrow> False
      | Inr r \<Rightarrow> \<not> (hi_Status r < 200 \<or> hi_Status r \<ge> 300))"

text \<open>sampleRec.capture: what is shown of the last exchange of a verbose test.\<close>

definition sample_of :: "exchange \<Rightarrow> real \<Rightarrow> int \<Rightarrow> sample" where
  "sample_of ex latencyMs now =
     (let s = \<lparr>s_method = ex_Method ex, s_url = ex_URL ex, s_request_header = ex_ReqHeaders ex,
                s_request_body = ex_ReqBody ex, s_status_code = 0, s_response_header = [],
                s_response_body = [], s_latency_ms = latencyMs, s_error = [], s_ts = now div 1000000\<rparr>
      in case ex_Result ex of
           Inl e \<Rightarrow> s\<lparr>s_error := e\<rparr>
         | Inr r \<Rightarrow> s\<lparr>s_status_code := to_int32 (hi_Status r), s_response_header := hi_Headers r,
                      s_response_body := hi_Body r\<rparr>)"

text \<open>
  Worker.do against a client: the loop's new state, the captured sample if any, and the
  generators' state.
\<close>

definition do_request ::
    "(http_out \<Rightarrow> exchange) \<Rightarrow> int \<Rightarrow> int \<Rightarrow> loop_worker \<Rightarrow> gen_state \<Rightarrow>
     (loop_worker \<times> sample option \<times> gen_state) option" where
  "do_request client elapsed now w st =
     map_option (\<lambda>(req, st).
       let ex = client req;
           smp = (if lw_sampling w then Some (sample_of ex (real_of_int elapsed / 1000000) now) else None)
       in (w\<lparr>lw_stat := record_attempt (exchange_ok ex) elapsed (lw_stat w)\<rparr>, smp, st))
       (build_request w st)"

section \<open>The goroutines of a service\<close>

text \<open>
  GenLoad clears done when it starts, then sends a job whenever done is not set; a
  request loop tests done, waits for a job, performs it, and tests again. The two
  generators are started as goroutines, so Stop may come before they run.
\<close>

datatype gen_pc = GStart | GCheck | GSend | GEnd
datatype loop_pc = LCheck | LRecv | LEnd

record run_state =
  r_done :: bool
  r_queue :: nat
  r_gens :: "gen_pc list"
  r_loops :: "loop_pc list"
  r_requests :: nat

definition started_run :: "nat \<Rightarrow> run_state" where
  "started_run n = \<lparr>r_done = False, r_queue = 0, r_gens = [GStart, GStart],
     r_loops = replicate n LCheck, r_requests = 0\<rparr>"

inductive run_step :: "nat \<Rightarrow> run_state \<Rightarrow> run_state \<Rightarrow> bool" for cap :: nat where
  gen_start: "i < length (r_gens r) \<Longrightarrow> r_gens r ! i = GStart \<Longrightarrow>
    run_step cap r (r\<lparr>r_done := False, r_gens := (r_gens r)[i := GCheck]\<rparr>)"
| gen_check: "i < length (r_gens r) \<Longrightarrow> r_gens r ! i = GCheck \<Longrightarrow>
    run_step cap r (r\<lparr>r_gens := (r_gens r)[i := if r_done r then GEnd else GSend]\<rparr>)"
| gen_send: "i < length (r_gens r) \<Longrightarrow> r_gens r ! i = GSend \<Longrightarrow> r_queue r < cap \<Longrightarrow>
    run_step cap r (r\<lparr>r_queue := r_queue r + 1, r_gens := (r_gens r)[i := GCheck]\<rparr>)"
| loop_check: "i < length (r_loops r) \<Longrightarrow> r_loops r ! i = LCheck \<Longrightarrow>
    run_step cap r (r\<lparr>r_loops := (r_loops r)[i := if r_done r then LEnd else LRecv]\<rparr>)"
| loop_recv: "i < length (r_loops r) \<Longrightarrow> r_loops r ! i = LRecv \<Longrightarrow> 0 < r_queue r \<Longrightarrow>
    run_step cap r (r\<lparr>r_queue := r_queue r - 1, r_loops := (r_loops r)[i := LCheck],
      r_requests := r_requests r + 1\<rparr>)"

inductive_cases run_stepE: "run_step cap r r'"

definition stop_run :: "run_state \<Rightarrow> run_state" where
  "stop_run r = r\<lparr>r_done := True\<rparr>"

text \<open>A service that is stopping: done is set and no generator is left to clear it.\<close>

definition stopping :: "run_state \<Rightarrow> bool" where
  "stopping r \<longleftrightarrow> r_done r \<and> GStart \<notin> set (r_gens r)"

definition waiting :: "run_state \<Rightarrow> nat" where
  "waiting r = length (filter (\<lambda>l. l = LRecv) (r_loops r))"

lemma stopping_step: "run_step cap r r' \<Longrightarrow> stopping r \<Longrightarrow> stopping r'"
  by (induction rule: run_step.induct)
    (auto simp: stopping_def dest!: nth_mem dest: set_update_subset_insert [THEN subsetD] split: if_splits)

lemma count_update:
  "i < length xs \<Longrightarrow> length (filter P (xs[i := y])) + (if P (xs ! i) then 1 else 0) =
   length (filter P xs) + (if P y then 1 else 0)"
proof (induction xs arbitrary: i)
  case (Cons x xs)
  then show ?case by (cases i) auto
qed simp

text \<open>Each waiting loop may still take one job off the queue; no loop starts to wait again.\<close>

lemma stopping_requests:
  "run_step cap r r' \<Longrightarrow> stopping r \<Longrightarrow> r_requests r' + waiting r' = r_requests r + waiting r"
proof (induction rule: run_step.induct)
  case (loop_check i r)
  with count_update [of i "r_loops r" "\<lambda>l. l = LRecv" LEnd] show ?case
    by (simp add: waiting_def stopping_def)
next
  case (loop_recv i r)
  with count_update [of i "r_loops r" "\<lambda>l. l = LRecv" LCheck] show ?case
    by (simp add: waiting_def)
next
  case (gen_start i r)
  then show ?case by (metis nth_mem stopping_def)
qed (simp_all add: waiting_def)

lemma stopping_run:
  assumes "(run_step cap)\<^sup>*\<^sup>* r r'" and "stopping r"
  shows "stopping r' \<and> r_requests r' + waiting r' = r_requests r + waiting r"
  using assms
proof (induction rule: rtranclp_induct)
  case (step s t)
  with stopping_step stopping_requests show ?case by metis
qed simp

text \<open>The steps a stopping service can still make.\<close>

fun gen_work :: "gen_pc \<Rightarrow> nat" where
  "gen_work GStart = 3" | "gen_work GSend = 2" | "gen_work GCheck = 1" | "gen_work GEnd = 0"

fun loop_work :: "loop_pc \<Rightarrow> nat" where
  "loop_work LRecv = 2" | "loop_work LCheck = 1" | "loop_work LEnd = 0"

definition work_left :: "run_state \<Rightarrow> nat" where
  "work_left r = sum_list (map gen_work (r_gens r)) + sum_list (map loop_work (r_loops r))"

lemma sum_list_update_nat:
  "i < length xs \<Longrightarrow> sum_list (map f (xs[i := y])) + f (xs ! i) = sum_list (map f xs) + f y" for f :: "'a \<Rightarrow> nat"
proof (induction xs arbitrary: i)
  case (Cons x xs)
  then show ?case by (cases i) auto
qed simp

lemma stopping_work: "run_step cap r r' \<Longrightarrow> stopping r \<Longrightarrow> work_left r' < work_left r"
proof (induction rule: run_step.induct)
  case (gen_start i r)
  then show ?case by (metis nth_mem stopping_def)
next
  case (gen_check i r)
  with sum_list_update_nat [of i "r_gens r" gen_work GEnd] show ?case by (simp add: work_left_def stopping_def)
next
  case (gen_send i r)
  with sum_list_update_nat [of i "r_gens r" gen_work GCheck] show ?case by (simp add: work_left_def)
next
  case (loop_check i r)
  with sum_list_update_nat [of i "r_loops r" loop_work LEnd] show ?case by (simp add: work_left_def stopping_def)
next
  case (loop_recv i r)
  with sum_list_update_nat [of i "r_loops r" loop_work LCheck] show ?case by (simp add: work_left_def)
qed

lemma stopping_steps:
  "(run_step cap ^^ n) r r' \<Longrightarrow> stopping r \<Longrightarrow> stopping r' \<and> n + work_left r' \<le> work_left r"
proof (induction n arbitrary: r')
  case (Suc n)
  then obtain s where "(run_step cap ^^ n) r s" "run_step cap s r'" by auto
  with Suc stopping_step stopping_work [of cap s r'] show ?case by fastforce
qed simp

section \<open>Properties\<close>

text \<open>Stopping a service whose generators have started is final: done stays set, each request
  loop performs at most the one request it is waiting for, and everything comes to rest
  after a bounded number of steps.\<close>

theorem stop_is_final:
  assumes "GStart \<notin> set (r_gens r)" and "(run_step cap ^^ n) (stop_run r) r'"
  shows "r_done r' \<and> r_requests r' \<le> r_requests r + length (filter (\<lambda>l. l = LRecv) (r_loops r)) \<and>
    n \<le> 2 * length (r_gens r) + 2 * length (r_loops r)"
proof -
  have stop: "stopping (stop_run r)" using assms(1) by (simp add: stopping_def stop_run_def)
  have "(run_step cap)\<^sup>*\<^sup>* (stop_run r) r'" using assms(2) by (rule relpowp_imp_rtranclp)
  from stopping_run [OF this stop] have "stopping r'"
    "r_requests r' \<le> r_requests r + length (filter (\<lambda>l. l = LRecv) (r_loops r))"
    by (simp_all add: stop_run_def waiting_def)
  moreover have "gen_work g \<le> 2" if "g \<in> set (r_gens r)" for g
    by (rule gen_pc.exhaust [of g]) (use that assms(1) in auto)
  then have "sum_list (map gen_work (r_gens r)) \<le> 2 * length (r_gens r)"
    using sum_list_mono [of "r_gens r" gen_work "\<lambda>_. 2"] by (simp add: sum_list_triv)
  moreover have "loop_work l \<le> 2" for l by (cases l) auto
  then have "sum_list (map loop_work (r_loops r)) \<le> 2 * length (r_loops r)"
    using sum_list_mono [of "r_loops r" loop_work "\<lambda>_. 2"] by (simp add: sum_list_triv)
  ultimately show ?thesis
    using stopping_steps [OF assms(2) stop] by (simp add: stopping_def work_left_def stop_run_def)
qed

theorem stop_is_final_witness:
  "\<exists>r'. (run_step 100000 ^^ 1) (stop_run \<lparr>r_done = False, r_queue = 5, r_gens = [GCheck, GSend],
      r_loops = [LRecv, LCheck], r_requests = 7\<rparr>) r' \<and> r_requests r' \<le> 8"
proof -
  let ?r = "\<lparr>r_done = False, r_queue = 5, r_gens = [GCheck, GSend], r_loops = [LRecv, LCheck], r_requests = 7\<rparr>"
  have "run_step 100000 (stop_run ?r) ((stop_run ?r)\<lparr>r_queue := 4, r_loops := [LCheck, LCheck], r_requests := 8\<rparr>)"
    using run_step.loop_recv [of 0 "stop_run ?r" 100000] by (simp add: stop_run_def)
  then have "(run_step 100000 ^^ 1) (stop_run ?r) ((stop_run ?r)\<lparr>r_queue := 4, r_loops := [LCheck, LCheck], r_requests := 8\<rparr>)"
    by (simp only: relpowp_1)
  moreover from stop_is_final [OF _ this] have
    "r_requests ((stop_run ?r)\<lparr>r_queue := 4, r_loops := [LCheck, LCheck], r_requests := 8\<rparr>) \<le> 8" by simp
  ultimately show ?thesis by blast
qed

text \<open>One turn of a running generator and a request loop: one more request.\<close>

definition busy :: "nat \<Rightarrow> run_state" where
  "busy k = \<lparr>r_done = False, r_queue = 0, r_gens = [GCheck, GStart], r_loops = [LCheck], r_requests = k\<rparr>"

lemma busy_turn: "0 < cap \<Longrightarrow> (run_step cap)\<^sup>*\<^sup>* (busy k) (busy (Suc k))"
proof -
  assume cap: "0 < cap"
  have 1: "run_step cap (busy k) ((busy k)\<lparr>r_gens := [GSend, GStart]\<rparr>)"
    using run_step.gen_check [of 0 "busy k" cap] by (simp add: busy_def)
  have 2: "run_step cap ((busy k)\<lparr>r_gens := [GSend, GStart]\<rparr>) ((busy k)\<lparr>r_queue := 1\<rparr>)"
    using run_step.gen_send [of 0 "(busy k)\<lparr>r_gens := [GSend, GStart]\<rparr>" cap] cap by (simp add: busy_def)
  have 3: "run_step cap ((busy k)\<lparr>r_queue := 1\<rparr>) ((busy k)\<lparr>r_queue := 1, r_loops := [LRecv]\<rparr>)"
    using run_step.loop_check [of 0 "(busy k)\<lparr>r_queue := 1\<rparr>" cap] by (simp add: busy_def)
  have 4: "run_step cap ((busy k)\<lparr>r_queue := 1, r_loops := [LRecv]\<rparr>) (busy (Suc k))"
    using run_step.loop_recv [of 0 "(busy k)\<lparr>r_queue := 1, r_loops := [LRecv]\<rparr>" cap] by (simp add: busy_def)
  show ?thesis
    by (rule converse_rtranclp_into_rtranclp, rule 1, rule converse_rtranclp_into_rtranclp, rule 2,
        rule converse_rtranclp_into_rtranclp, rule 3, rule r_into_rtranclp, rule 4)
qed

text \<open>A Stop that comes before a generator's goroutine first runs is lost: the generator clears
  the flag, and the stopped service sends as many requests as it likes. This is the order
  of a START directly followed by a STOP or by the loss of the stream.\<close>

theorem early_stop_is_lost:
  assumes "0 < cap"
  shows "\<exists>r. (run_step cap)\<^sup>*\<^sup>* (stop_run (started_run 1)) r \<and> r_requests r = k \<and> \<not> r_done r"
proof -
  have "run_step cap (stop_run (started_run 1)) (busy 0)"
    using run_step.gen_start [of 0 "stop_run (started_run 1)" cap]
    by (simp add: started_run_def stop_run_def busy_def)
  moreover have "(run_step cap)\<^sup>*\<^sup>* (busy 0) (busy k)"
    by (induction k) (auto intro: rtranclp_trans busy_turn [OF assms])
  ultimately show ?thesis
    by (intro exI [of _ "busy k"]) (simp add: busy_def converse_rtranclp_into_rtranclp)
qed

theorem early_stop_is_lost_witness:
  "\<exists>r. (run_step 100000)\<^sup>*\<^sup>* (stop_run (started_run 1)) r \<and> r_requests r = 1000 \<and> \<not> r_done r"
  by (rule early_stop_is_lost) simp

lemma AddWorker_power:
  "ts_workers (((\<lambda>ts. AddWorker (init_worker c ts) ts) ^^ n) ts) = ts_workers ts @ replicate n (init_worker c ts) \<and>
   ts_conf (((\<lambda>ts. AddWorker (init_worker c ts) ts) ^^ n) ts) = ts_conf ts \<and>
   ts_sample (((\<lambda>ts. AddWorker (init_worker c ts) ts) ^^ n) ts) = ts_sample ts"
  by (induction n) (auto simp: AddWorker_def init_worker_def replicate_append_same [symmetric])

text \<open>Setting up a service makes exactly the requested number of request loops, none for a
  number that is not positive, each with the test's configuration and a fresh count, and
  they record samples exactly if the test is verbose.\<close>

theorem Init_workers:
  "ts_workers (Init parse q (new_tsunami c rep verbose)) = replicate (nat (Concurrence c))
     \<lparr>lw_conf = c, lw_client = Some \<lparr>hc_Addr = fst (target_host parse c), hc_MaxConns = MaxConns c,
        hc_IsTLS = snd (target_host parse c)\<rparr>,
      lw_stat = zero_stat, lw_tmpls = None, lw_sampling = verbose\<rparr>"
  using AddWorker_power
  by (simp add: Init_def new_tsunami_def Let_def init_worker_def case_prod_unfold)

end
