(* ===== verification/WorkerClient.thy ===== *)
theory WorkerClient
  imports Engine Ocean
begin

text \<open>
  The worker's end of the attach stream (worker/server.go): the conversion of a START
  command into a test configuration, the services a worker runs and the commands that
  change them, what it reports, and the loop that keeps it attached to an ocean. The HTTP
  client's parsing of a URL is an argument, as in the engine.
\<close>

section \<open>From a command to a configuration\<close>

definition methodName :: "http_method \<Rightarrow> string" where
  "methodName m =
     (case m of POST \<Rightarrow> ''POST'' | PUT \<Rightarrow> ''PUT'' | DELETE \<Rightarrow> ''DELETE'' | UPDATE \<Rightarrow> ''UPDATE''
      | _ \<Rightarrow> ''GET'')"

definition headersFromParams :: "http_header list \<Rightarrow> (string, string) gomap" where
  "headersFromParams hs = fold (\<lambda>h m. mput (hh_key h) (hh_value h) m) hs []"

definition defaultHeaders :: "string \<Rightarrow> (string, string) gomap \<Rightarrow> (string, string) gomap" where
  "defaultHeaders method headers =
     (if method \<in> {''POST'', ''PUT'', ''PATCH''} then
        (if list_ex (\<lambda>(k, _). EqualFold k ''Content-Type'') headers then headers
         else mput ''Content-Type'' ''application/json; charset=utf-8'' headers)
      else headers)"

definition conf_from_params :: "string \<Rightarrow> params \<Rightarrow> conf" where
  "conf_from_params name p =
     (let method = methodName (p_method p)
      in zero_conf\<lparr>Name := name, URL := p_url p, Protocol := p_protocol p, Host := p_host p,
           Port := p_port p, Path := p_path p, Method := method,
           Headers := defaultHeaders method (headersFromParams (p_header p)),
           Body := p_body p, Concurrence := p_concurrency p\<rparr>)"

section \<open>State\<close>

text \<open>
  The client with its control's map of services. The services that were taken out of the
  map stay in memory as long as their goroutines run; they are kept in a list of their own.
\<close>

record ocean_client =
  cl_workerID :: string
  cl_name :: string
  cl_maxConc :: int
  cl_token :: string
  cl_services :: "(string, tsunami) gomap"
  cl_retired :: "tsunami list"

section \<open>Commands\<close>

text \<open>Stop a service and take it out of the map.\<close>

definition retire :: "string \<Rightarrow> tsunami \<Rightarrow> ocean_client \<Rightarrow> ocean_client" where
  "retire name ts c = c\<lparr>cl_services := mdel name (cl_services c), cl_retired := Stop_ts ts # cl_retired c\<rparr>"

definition stopService :: "string \<Rightarrow> ocean_client \<Rightarrow> ocean_client" where
  "stopService name c =
     (case map_of (cl_services c) name of None \<Rightarrow> c | Some ts \<Rightarrow> retire name ts c)"

definition startService ::
    "(string \<Rightarrow> string \<times> string) \<Rightarrow> int \<Rightarrow> string \<Rightarrow> conf \<Rightarrow> bool \<Rightarrow> ocean_client \<Rightarrow> ocean_client" where
  "startService parse now name cnf verbose c =
     (let c = (case map_of (cl_services c) name of None \<Rightarrow> c | Some existing \<Rightarrow> retire name existing c);
          app = Init parse 100000 (new_tsunami cnf False verbose);
          app = Run now app
      in c\<lparr>cl_services := mput name app (cl_services c)\<rparr>)"

definition stopAll :: "ocean_client \<Rightarrow> ocean_client" where
  "stopAll c = fold (\<lambda>(name, ts). retire name ts) (cl_services c) c"

definition handleCommand ::
    "(string \<Rightarrow> string \<times> string) \<Rightarrow> int \<Rightarrow> command \<Rightarrow> ocean_client \<Rightarrow> ocean_client" where
  "handleCommand parse now cmd c =
     (case c_action cmd of
        START \<Rightarrow> (let p = GetParams cmd
                  in startService parse now (c_job cmd) (conf_from_params (c_job cmd) p) (p_verbose p) c)
      | STOP \<Rightarrow> stopService (c_job cmd) c
      | UnknownAction _ \<Rightarrow> c)"

definition receive ::
    "(string \<Rightarrow> string \<times> string) \<Rightarrow> int \<Rightarrow> ocean_message \<Rightarrow> ocean_client \<Rightarrow> ocean_client" where
  "receive parse now msg c = (case GetCommand msg of None \<Rightarrow> c | Some cmd \<Rightarrow> handleCommand parse now cmd c)"

section \<open>What the worker sends\<close>

definition attach_metadata :: "ocean_client \<Rightarrow> string list" where
  "attach_metadata c = (if cl_token c \<noteq> [] then [''Bearer '' @ cl_token c] else [])"

definition register_message :: "ocean_client \<Rightarrow> worker_message" where
  "register_message c =
     WMRegister \<lparr>r_worker_id = cl_workerID c, r_name = cl_name c, r_max_concurrency = cl_maxConc c\<rparr>"

definition service_report :: "int \<Rightarrow> tsunami \<Rightarrow> report" where
  "service_report now ts =
     (let rep = \<lparr>rep_metric = Some (serviceMetric (Name (ts_conf ts)) (map lw_stat (ts_workers ts))
                   (real_of_int (now - ts_start ts) / 1000000000)), rep_sample = None\<rparr>
      in if ts_verbose ts then
           (case ts_sample ts of None \<Rightarrow> rep | Some s \<Rightarrow> rep\<lparr>rep_sample := s\<rparr>)
         else rep)"

definition report_messages :: "int \<Rightarrow> ocean_client \<Rightarrow> worker_message list" where
  "report_messages now c =
     map (\<lambda>(_, ts). WMReport (service_report now ts)) (cl_services c) @ [WMHeartbeat 0]"

section \<open>Staying attached\<close>

text \<open>
  OceanClient.Run and attachOnce: looking for an ocean, or on an ocean's stream. Whatever
  ends attachOnce (the dial, a send, the stream) is followed by stopAll.
\<close>

datatype client_pc = Resolving | Connecting string | Attached string

inductive client_step ::
    "(string \<Rightarrow> string \<times> string) \<Rightarrow> client_pc \<times> ocean_client \<Rightarrow> client_pc \<times> ocean_client \<Rightarrow> bool"
    for parse :: "string \<Rightarrow> string \<times> string" where
  no_ocean: "client_step parse (Resolving, c) (Resolving, c)"
| resolved: "endpoint \<noteq> [] \<Longrightarrow> client_step parse (Resolving, c) (Connecting endpoint, c)"
| connected: "client_step parse (Connecting e, c) (Attached e, c)"
| failed: "client_step parse (Connecting e, c) (Resolving, stopAll c)"
| received: "client_step parse (Attached e, c) (Attached e, receive parse now msg c)"
| ended: "client_step parse (Attached e, c) (Resolving, stopAll c)"

definition client_init :: "client_pc \<times> ocean_client \<Rightarrow> bool" where
  "client_init s \<longleftrightarrow> fst s = Resolving \<and> cl_services (snd s) = [] \<and> cl_retired (snd s) = []"

section \<open>The services\<close>

lemma headersFromParams_list [simp]: "headersFromParams hs = headers_of_list hs"
  by (simp add: headersFromParams_def headers_of_list_def)

lemma retire_simps [simp]:
  "cl_services (retire n ts c) = mdel n (cl_services c)"
  "cl_retired (retire n ts c) = Stop_ts ts # cl_retired c"
  by (simp_all add: retire_def)

text \<open>stopAll empties the map whatever the order of the loop.\<close>

lemma fold_retire:
  "cl_services (fold (\<lambda>(n, ts). retire n ts) l c) = filter (\<lambda>(n, _). n \<notin> fst ` set l) (cl_services c) \<and>
   cl_retired (fold (\<lambda>(n, ts). retire n ts) l c) = rev (map (Stop_ts \<circ> snd) l) @ cl_retired c"
proof (induction l arbitrary: c)
  case Nil
  show ?case by (simp add: case_prod_unfold)
next
  case (Cons p l)
  obtain n ts where p: "p = (n, ts)" by force
  show ?case using Cons.IH [of "retire n ts c"]
    by (simp add: p mdel_def case_prod_unfold conj_commute)
qed

lemma stopAll_simps [simp]:
  "cl_services (stopAll c) = []"
  "cl_retired (stopAll c) = rev (map (Stop_ts \<circ> snd) (cl_services c)) @ cl_retired c"
  using fold_retire [of "cl_services c" c] unfolding stopAll_def by (force simp: filter_empty_conv)+

lemma startService_map [simp]:
  "map_of (cl_services (startService parse now name cnf v c)) =
     (map_of (cl_services c))(name \<mapsto> Run now (Init parse 100000 (new_tsunami cnf False v)))"
  by (simp add: startService_def Let_def split: option.split)

lemma stopService_map [simp]:
  "map_of (cl_services (stopService name c)) = (map_of (cl_services c))(name := None)"
  by (auto simp: stopService_def fun_upd_idem split: option.split)

lemma startService_retired:
  "cl_retired (startService parse now name cnf v c) =
     (case map_of (cl_services c) name of None \<Rightarrow> [] | Some ts \<Rightarrow> [Stop_ts ts]) @ cl_retired c"
  by (simp add: startService_def Let_def split: option.split)

lemma stopService_retired:
  "cl_retired (stopService name c) =
     (case map_of (cl_services c) name of None \<Rightarrow> [] | Some ts \<Rightarrow> [Stop_ts ts]) @ cl_retired c"
  by (simp add: stopService_def split: option.split)

lemma Init_fields [simp]:
  "ts_conf (Init parse q (new_tsunami cnf r v)) = cnf"
  "ts_verbose (Init parse q (new_tsunami cnf r v)) = v"
  "length (ts_workers (Init parse q (new_tsunami cnf r v))) = nat (Concurrence cnf)"
proof -
  have more: "ts_verbose (((\<lambda>ts. AddWorker (init_worker h ts) ts) ^^ n) ts) = ts_verbose ts" for h n ts
    by (induction n) (auto simp: AddWorker_def)
  show "ts_conf (Init parse q (new_tsunami cnf r v)) = cnf"
    "ts_verbose (Init parse q (new_tsunami cnf r v)) = v"
    "length (ts_workers (Init parse q (new_tsunami cnf r v))) = nat (Concurrence cnf)"
    using AddWorker_power more by (simp_all add: Init_def new_tsunami_def Let_def case_prod_unfold)
qed

lemma Run_fields [simp]:
  "ts_conf (Run now ts) = ts_conf ts" "ts_workers (Run now ts) = ts_workers ts"
  "ts_verbose (Run now ts) = ts_verbose ts" "ts_done (Run now ts) = False" "ts_start (Run now ts) = now"
  by (simp_all add: Run_def)

lemma Stop_fields [simp]: "ts_done (Stop_ts ts)" "ts_conf (Stop_ts ts) = ts_conf ts"
  by (simp_all add: Stop_ts_def)

section \<open>The running tests, abstractly\<close>

text \<open>
  Of a worker it matters which tests it runs and with how many request loops; a command
  updates that table.
\<close>

definition running :: "ocean_client \<Rightarrow> string \<Rightarrow> nat option" where
  "running c name = map_option (\<lambda>ts. length (ts_workers ts)) (map_of (cl_services c) name)"

definition cmd_effect :: "ocean_message \<Rightarrow> (string \<Rightarrow> nat option) \<Rightarrow> string \<Rightarrow> nat option" where
  "cmd_effect msg run =
     (case GetCommand msg of
        None \<Rightarrow> run
      | Some cmd \<Rightarrow>
          (case c_action cmd of
             START \<Rightarrow> run(c_job cmd \<mapsto> nat (p_concurrency (GetParams cmd)))
           | STOP \<Rightarrow> run(c_job cmd := None)
           | UnknownAction _ \<Rightarrow> run))"

lemma running_start: "running (startService parse now name cnf v c) = (running c)(name \<mapsto> nat (Concurrence cnf))"
  by (auto simp: running_def fun_eq_iff)

lemma running_stop: "running (stopService name c) = (running c)(name := None)"
  by (auto simp: running_def fun_eq_iff)

lemma running_stopAll [simp]: "running (stopAll c) = Map.empty"
  by (simp add: running_def fun_eq_iff)

lemma running_receive: "running (receive parse now msg c) = cmd_effect msg (running c)"
  by (auto simp: receive_def handleCommand_def cmd_effect_def running_start running_stop conf_from_params_def
      Let_def split: option.split action.split)

lemma effect_startCommand:
  "n < 2 ^ 31 \<Longrightarrow> - (2 ^ 31) \<le> n \<Longrightarrow> cmd_effect (startCommand name cnf n) run = run(name \<mapsto> nat n)"
  by (simp add: cmd_effect_def startCommand_def GetParams_def to_int32_id)

lemma effect_stopCommand: "cmd_effect (stopCommand name) run = run(name := None)"
  by (simp add: cmd_effect_def stopCommand_def)

section \<open>The dead man's switch\<close>

definition service_ok :: "string \<Rightarrow> tsunami \<Rightarrow> bool" where
  "service_ok n ts \<longleftrightarrow> Name (ts_conf ts) = n \<and> \<not> ts_done ts \<and>
     length (ts_workers ts) = nat (Concurrence (ts_conf ts))"

definition client_ok :: "client_pc \<times> ocean_client \<Rightarrow> bool" where
  "client_ok s \<longleftrightarrow>
     (\<forall>n ts. map_of (cl_services (snd s)) n = Some ts \<longrightarrow> service_ok n ts) \<and>
     (\<forall>ts \<in> set (cl_retired (snd s)). ts_done ts) \<and>
     ((\<forall>e. fst s \<noteq> Attached e) \<longrightarrow> cl_services (snd s) = [])"

lemma services_receive:
  assumes "\<forall>n ts. map_of (cl_services c) n = Some ts \<longrightarrow> service_ok n ts"
  shows "\<forall>n ts. map_of (cl_services (receive parse now msg c)) n = Some ts \<longrightarrow> service_ok n ts"
  using assms
  by (auto simp: receive_def handleCommand_def conf_from_params_def service_ok_def Let_def
      split: option.split action.split if_splits)

lemma retired_receive:
  assumes "\<forall>ts \<in> set (cl_retired c). ts_done ts"
  shows "\<forall>ts \<in> set (cl_retired (receive parse now msg c)). ts_done ts"
  using assms
  by (auto simp: receive_def handleCommand_def startService_retired stopService_retired Let_def
      split: option.splits action.splits)

lemma client_step_ok: "client_step parse s s' \<Longrightarrow> client_ok s \<Longrightarrow> client_ok s'"
proof (induction rule: client_step.induct)
  case (received e c now msg)
  then show ?case
    using services_receive [of c parse now msg] retired_receive [of c parse now msg]
    by (simp add: client_ok_def)
qed (auto simp: client_ok_def)

lemma client_init_ok: "client_init s \<Longrightarrow> client_ok s"
  by (simp add: client_init_def client_ok_def)

interpretation cli: machine client_init "client_step parse" client_ok
  by unfold_locales (auto intro: client_init_ok client_step_ok)

section \<open>Properties\<close>


definition demo_client :: ocean_client where
  "demo_client = \<lparr>cl_workerID = ''a'', cl_name = ''a'', cl_maxConc = 4, cl_token = [], cl_services = [],
     cl_retired = []\<rparr>"

definition demo_started :: ocean_client where
  "demo_started = receive (\<lambda>u. (''http'', u)) 7
     (startCommand ''t'' (zero_conf\<lparr>Name := ''t'', URL := ''http://t/''\<rparr>) 2) demo_client"


text \<open>C27: From startCommand to the worker's engine: when the START of a test for n slots arrives, the
  worker runs the test under its name with exactly n request loops, with the URL, path, body
  and headers of the ocean's configuration (JSON as the content type of a POST or PUT that
  names none) and the method the enum can carry; its other tests are untouched, and a test
  of the same name is stopped first.\<close>
theorem start_command_runs:
  assumes "0 < n" and "n < 2 ^ 31" and "wf_map (Headers cnf)"
  shows "(\<exists>ts. map_of (cl_services (receive parse now (startCommand name cnf n) c)) =
           (map_of (cl_services c))(name \<mapsto> ts) \<and>
         length (ts_workers ts) = nat n \<and> ts_start ts = now \<and> \<not> ts_done ts \<and> ts_verbose ts = Verbose cnf \<and>
         ts_conf ts = zero_conf\<lparr>Name := name, URL := URL cnf, Protocol := Protocol cnf, Host := Host cnf,
           Port := Port cnf, Path := Path cnf, Method := methodName (methodEnum (Method cnf)),
           Headers := defaultHeaders (methodName (methodEnum (Method cnf))) (Headers cnf),
           Body := Body cnf, Concurrence := n\<rparr>) \<and>
    cl_retired (receive parse now (startCommand name cnf n) c) =
      (case map_of (cl_services c) name of None \<Rightarrow> [] | Some old \<Rightarrow> [Stop_ts old]) @ cl_retired c"
proof (rule conjI)
  have hs: "headers_of_list (headersToProto (Headers cnf)) = Headers cnf"
    using headers_of_list_of_headers [OF assms(3)] by (auto simp: headersToProto_def headers_of_list_def)
  have n: "to_int32 n = n" using assms by (simp add: to_int32_id)
  show "\<exists>ts. map_of (cl_services (receive parse now (startCommand name cnf n) c)) =
           (map_of (cl_services c))(name \<mapsto> ts) \<and>
         length (ts_workers ts) = nat n \<and> ts_start ts = now \<and> \<not> ts_done ts \<and> ts_verbose ts = Verbose cnf \<and>
         ts_conf ts = zero_conf\<lparr>Name := name, URL := URL cnf, Protocol := Protocol cnf, Host := Host cnf,
           Port := Port cnf, Path := Path cnf, Method := methodName (methodEnum (Method cnf)),
           Headers := defaultHeaders (methodName (methodEnum (Method cnf))) (Headers cnf),
           Body := Body cnf, Concurrence := n\<rparr>"
    by (intro exI [of _ "Run now (Init parse 100000 (new_tsunami
          (conf_from_params name (GetParams (the (GetCommand (startCommand name cnf n))))) False (Verbose cnf)))"])
      (simp add: receive_def startCommand_def handleCommand_def GetParams_def conf_from_params_def Let_def hs n)
  show "cl_retired (receive parse now (startCommand name cnf n) c) =
      (case map_of (cl_services c) name of None \<Rightarrow> [] | Some old \<Rightarrow> [Stop_ts old]) @ cl_retired c"
    by (simp add: receive_def startCommand_def handleCommand_def startService_retired Let_def)
qed

theorem start_command_runs_witness:
  "\<exists>ts. map_of (cl_services demo_started) ''t'' = Some ts \<and> length (ts_workers ts) = 2 \<and> ts_start ts = 7"
proof -
  have "(0 :: int) < 2" "(2 :: int) < 2 ^ 31" "wf_map (Headers (zero_conf\<lparr>Name := ''t'', URL := ''http://t/''\<rparr>))"
    by (simp_all add: zero_conf_def)
  from start_command_runs [OF this, of "\<lambda>u. (''http'', u)" 7 "''t''" demo_client]
  show ?thesis by (auto simp: demo_started_def)
qed

text \<open>MethodEnum and methodName, the two ends of the method's enum: GET, POST, PUT, DELETE and
  UPDATE in any letter case arrive in upper case; every other method, PATCH, HEAD and
  OPTIONS among them, arrives as GET.\<close>
theorem method_over_the_wire:
  "methodName (methodEnum s) =
     (if ToUpper s \<in> {''POST'', ''PUT'', ''DELETE'', ''UPDATE''} then ToUpper s else ''GET'')"
  by (auto simp: methodEnum_def methodName_def Let_def)

end
