(* ===== verification/Cluster.thy ===== *)
theory Cluster
  imports Attach WorkerClient
begin

text \<open>
  The ocean and its workers together: commands travel from the ocean's channels over the
  streams to the workers' engines, while clients start, stop, pause and resume tests and
  streams break on either side first. The theorem is that the workers run what the
  ocean's jobs say, once their commands have arrived.
\<close>

section \<open>State and steps\<close>

text \<open>
  The ocean, the worker processes by their ids, the commands on the way to each, and the
  ids whose stream is up.
\<close>

record cluster =
  k_ocean :: ocean
  k_clients :: "string \<Rightarrow> ocean_client"
  k_wire :: "string \<Rightarrow> ocean_message list"
  k_up :: "string set"

definition cluster_init :: "cluster \<Rightarrow> bool" where
  "cluster_init k \<longleftrightarrow> ocean_init (k_ocean k) \<and> k_up k = {}"

text \<open>Every channel has room for one more command.\<close>

definition room :: "ocean \<Rightarrow> bool" where
  "room oc \<longleftrightarrow> (\<forall>i w. map_of (oc_workers oc) i = Some w \<longrightarrow> length (w_send w) < send_capacity)"

definition runs :: "ocean \<Rightarrow> string \<Rightarrow> bool" where
  "runs oc n \<longleftrightarrow> (case map_of (oc_jobs oc) n of None \<Rightarrow> False | Some j \<Rightarrow> \<not> j_paused j)"

inductive cluster_step :: "(string \<Rightarrow> string \<times> string) \<Rightarrow> cluster \<Rightarrow> cluster \<Rightarrow> bool"
    for parse :: "string \<Rightarrow> string \<times> string" where
  attached: "fresh_worker w \<Longrightarrow> w_id w = i \<Longrightarrow> i \<notin> mkeys (oc_workers (k_ocean k)) \<Longrightarrow>
    addWorker w (k_ocean k) = (True, oc') \<Longrightarrow> cl_services (k_clients k i) = [] \<Longrightarrow>
    cluster_step parse k (k\<lparr>k_ocean := oc', k_wire := (k_wire k)(i := []), k_up := insert i (k_up k)\<rparr>)"
| broken: "cluster_step parse k (k\<lparr>k_up := k_up k - {i}\<rparr>)"
| ocean_notices: "i \<notin> k_up k \<Longrightarrow>
    cluster_step parse k (k\<lparr>k_ocean := removeWorker i (k_ocean k)\<rparr>)"
| worker_notices: "i \<notin> k_up k \<Longrightarrow>
    cluster_step parse k (k\<lparr>k_clients := (k_clients k)(i := stopAll (k_clients k i))\<rparr>)"
| sent: "map_of (oc_workers (k_ocean k)) i = Some w \<Longrightarrow> w_send w = msg # rest \<Longrightarrow>
    cluster_step parse k (k\<lparr>k_ocean := drain i (k_ocean k), k_wire := (k_wire k)(i := k_wire k i @ [msg])\<rparr>)"
| arrived: "k_wire k i = msg # rest \<Longrightarrow>
    cluster_step parse k (k\<lparr>k_clients := (k_clients k)(i := receive parse now msg (k_clients k i)),
      k_wire := (k_wire k)(i := rest)\<rparr>)"
| reported: "cluster_step parse k (k\<lparr>k_ocean := onReport i m (k_ocean k)\<rparr>)"
| sampled: "cluster_step parse k (k\<lparr>k_ocean := onSample i jb smp (k_ocean k)\<rparr>)"
| started: "room (k_ocean k) \<Longrightarrow> start_job db c (k_ocean k) = (e, oc') \<Longrightarrow>
    cluster_step parse k (k\<lparr>k_ocean := oc'\<rparr>)"
| stopped: "room (k_ocean k) \<Longrightarrow> stop_job n (k_ocean k) = (e, oc') \<Longrightarrow>
    cluster_step parse k (k\<lparr>k_ocean := oc'\<rparr>)"
| paused: "room (k_ocean k) \<Longrightarrow> pause_job n (k_ocean k) = (e, oc') \<Longrightarrow>
    cluster_step parse k (k\<lparr>k_ocean := oc'\<rparr>)"
| resumed: "room (k_ocean k) \<Longrightarrow> \<not> runs (k_ocean k) n \<Longrightarrow> resume_job db n (k_ocean k) = (e, oc') \<Longrightarrow>
    cluster_step parse k (k\<lparr>k_ocean := oc'\<rparr>)"

section \<open>What a worker should run\<close>

definition expected :: "jobs \<Rightarrow> string \<Rightarrow> string \<Rightarrow> nat option" where
  "expected js i n =
     Option.bind (map_of js n) (\<lambda>j. if j_paused j then None else map_option nat (map_of (j_assignments j) i))"

definition pending :: "cluster \<Rightarrow> string \<Rightarrow> attached_worker \<Rightarrow> string \<Rightarrow> nat option" where
  "pending k i w = fold cmd_effect (k_wire k i @ w_send w) (running (k_clients k i))"

definition in_step :: "cluster \<Rightarrow> bool" where
  "in_step k \<longleftrightarrow> (\<forall>i w. i \<in> k_up k \<longrightarrow> map_of (oc_workers (k_ocean k)) i = Some w \<longrightarrow>
     pending k i w = expected (oc_jobs (k_ocean k)) i)"

lemma in_stepI:
  "(\<And>i w. i \<in> k_up k \<Longrightarrow> map_of (oc_workers (k_ocean k)) i = Some w \<Longrightarrow>
     pending k i w = expected (oc_jobs (k_ocean k)) i) \<Longrightarrow> in_step k"
  by (simp add: in_step_def)

lemma in_stepD:
  "in_step k \<Longrightarrow> i \<in> k_up k \<Longrightarrow> map_of (oc_workers (k_ocean k)) i = Some w \<Longrightarrow>
   pending k i w = expected (oc_jobs (k_ocean k)) i"
  by (simp add: in_step_def)

text \<open>The shares of an ocean in order fit the command's int32 field.\<close>

lemma share_fits:
  assumes "wf_ocean oc" and "ledger oc" and "map_of (oc_jobs oc) n = Some j"
    and "map_of (j_assignments j) i = Some c"
  shows "0 < c" and "c < 2 ^ 31"
proof -
  have wfj: "wf_job (oc_workers oc) n j" using assms(1,3) by (rule wf_oceanD)
  with assms(4) show pos: "0 < c" by (simp add: wf_job_def)
  obtain w where w: "map_of (oc_workers oc) i = Some w"
    using wfj assms(4) mkeys_obtain [of i "oc_workers oc"] by (auto simp: wf_job_def)
  have "c \<le> held i (oc_jobs oc)" using held_ge_job [OF assms(1,3), of i] assms(4) by (simp add: mget0_def)
  also have "\<dots> \<le> max 0 (w_maxCap w)" using ledgerD [OF assms(2) w] by simp
  finally have "c \<le> max 0 (w_maxCap w)" .
  with wf_oceanD(3) [OF assms(1) w] show "c < 2 ^ 31"
    by (auto simp: wf_worker_def max_def split: if_splits)
qed

text \<open>One command to every worker of an assignment, and the table it makes.\<close>

definition commanded :: "assignments \<Rightarrow> (int \<Rightarrow> ocean_message) \<Rightarrow> ocean \<Rightarrow> ocean \<Rightarrow> bool" where
  "commanded al msg oc oc' \<longleftrightarrow>
     (\<forall>i w'. map_of (oc_workers oc') i = Some w' \<longrightarrow> (\<exists>w. map_of (oc_workers oc) i = Some w \<and>
        w_send w' = w_send w @ (case map_of al i of None \<Rightarrow> [] | Some c \<Rightarrow> [msg c])))"

lemma in_step_commanded:
  assumes "in_step k" and "commanded al msg (k_ocean k) oc'"
    and "\<And>i c. map_of al i = Some c \<Longrightarrow>
      cmd_effect (msg c) (expected (oc_jobs (k_ocean k)) i) = expected (oc_jobs oc') i"
    and "\<And>i. map_of al i = None \<Longrightarrow> expected (oc_jobs (k_ocean k)) i = expected (oc_jobs oc') i"
  shows "in_step (k\<lparr>k_ocean := oc'\<rparr>)"
proof (rule in_stepI)
  fix i w'
  assume up: "i \<in> k_up (k\<lparr>k_ocean := oc'\<rparr>)" and "map_of (oc_workers (k_ocean (k\<lparr>k_ocean := oc'\<rparr>))) i = Some w'"
  with assms(2) obtain w where w: "map_of (oc_workers (k_ocean k)) i = Some w"
    "w_send w' = w_send w @ (case map_of al i of None \<Rightarrow> [] | Some c \<Rightarrow> [msg c])"
    by (auto simp: commanded_def)
  have "pending k i w = expected (oc_jobs (k_ocean k)) i" using in_stepD [OF assms(1) _ w(1)] up by simp
  then have "pending (k\<lparr>k_ocean := oc'\<rparr>) i w' =
      (case map_of al i of None \<Rightarrow> expected (oc_jobs (k_ocean k)) i
       | Some c \<Rightarrow> cmd_effect (msg c) (expected (oc_jobs (k_ocean k)) i))"
    by (simp add: pending_def w(2) split: option.split)
  with assms(3,4) show "pending (k\<lparr>k_ocean := oc'\<rparr>) i w' = expected (oc_jobs (k_ocean (k\<lparr>k_ocean := oc'\<rparr>))) i"
    by (simp split: option.split)
qed

section \<open>The client operations\<close>

lemma roomD: "room oc \<Longrightarrow> map_of (oc_workers oc) i = Some w \<Longrightarrow> length (w_send w) < send_capacity"
  by (simp add: room_def)

lemma push_room: "length (w_send w) < send_capacity \<Longrightarrow> w_send (push_command msg w) = w_send w @ [msg]"
  by (simp add: push_command_def)

text \<open>The table after a job is put in or taken out.\<close>

lemma expected_put:
  "map_of js' = (map_of js)(n \<mapsto> j) \<Longrightarrow>
   expected js' i = (expected js i)(n := if j_paused j then None else map_option nat (map_of (j_assignments j) i))"
  by (auto simp: expected_def fun_eq_iff)

lemma expected_del: "map_of js' = (map_of js)(n := None) \<Longrightarrow> expected js' i = (expected js i)(n := None)"
  by (auto simp: expected_def fun_eq_iff)

lemma expected_job:
  "map_of js n = Some j \<Longrightarrow>
   expected js i n = (if j_paused j then None else map_option nat (map_of (j_assignments j) i))"
  by (simp add: expected_def)

lemma expected_none: "map_of js n = None \<Longrightarrow> expected js i n = None"
  by (simp add: expected_def)

lemma in_step_start:
  assumes "in_step k" and wf: "wf_ocean (k_ocean k)" and led: "ledger (k_ocean k)" and room: "room (k_ocean k)"
    and step: "start_job db c (k_ocean k) = (e, oc')"
  shows "in_step (k\<lparr>k_ocean := oc'\<rparr>)"
  using step
proof (cases rule: start_job_cases)
  case (started al)
  let ?oc = "k_ocean k" and ?n = "q_Name c"
  let ?cmd = "startCommand ?n (confWithEnv (confFromReq c) (envVars db (activeEnv db)))"
  note step' = step [unfolded started(1)]
  let ?j = "\<lparr>j_name = ?n, j_conf = confWithEnv (confFromReq c) (envVars db (activeEnv db)),
    j_rawConf = confFromReq c, j_assignments = al, j_paused = False\<rparr>"
  have jobs: "map_of (oc_jobs oc') = (map_of (oc_jobs ?oc))(?n \<mapsto> ?j)" by (simp add: started(4))
  have good: "wf_ocean oc'" "ledger oc'"
    using start_job_wf [OF wf step'] start_job_ledger [OF wf led step'] by simp_all
  have fits: "0 < n" "n < 2 ^ 31" if "map_of al i = Some n" for i n
    using share_fits [OF good, of ?n ?j i n] that jobs by simp_all
  show ?thesis
  proof (rule in_step_commanded [OF assms(1)])
    show "commanded al ?cmd ?oc oc'"
      using start_job_worker [OF wf step' started(3)] roomD [OF room]
      by (auto simp: commanded_def push_room split: option.splits)
    show "cmd_effect (?cmd n) (expected (oc_jobs ?oc) i) = expected (oc_jobs oc') i" if "map_of al i = Some n" for i n
      using fits [OF that] that by (simp add: effect_startCommand expected_put [OF jobs])
    show "expected (oc_jobs ?oc) i = expected (oc_jobs oc') i" if "map_of al i = None" for i
      using that expected_none [OF started(2)] by (simp add: expected_put [OF jobs] fun_upd_idem)
  qed
qed (use assms(1) in simp)

lemma in_step_stop:
  assumes "in_step k" and wf: "wf_ocean (k_ocean k)" and room: "room (k_ocean k)"
    and step: "stop_job n (k_ocean k) = (e, oc')"
  shows "in_step (k\<lparr>k_ocean := oc'\<rparr>)"
  using wf step
proof (cases rule: stop_job_cases)
  case (stopped j)
  have jobs: "map_of (oc_jobs oc') = (map_of (oc_jobs (k_ocean k)))(n := None)" by (simp add: stopped(3))
  show ?thesis
  proof (rule in_step_commanded [OF assms(1)])
    show "commanded (j_assignments j) (\<lambda>_. stopCommand n) (k_ocean k) oc'"
      using stop_job_worker [OF wf step, of "j_assignments j"] stopped(2) roomD [OF room]
      by (auto simp: commanded_def push_room split: option.splits)
    show "cmd_effect (stopCommand n) (expected (oc_jobs (k_ocean k)) i) = expected (oc_jobs oc') i" for i
      by (simp add: effect_stopCommand expected_del [OF jobs])
    show "expected (oc_jobs (k_ocean k)) i = expected (oc_jobs oc') i" if "map_of (j_assignments j) i = None" for i
      using that by (simp add: expected_del [OF jobs] expected_job [OF stopped(2)] fun_upd_idem)
  qed
qed (use assms(1) in simp)

lemma in_step_pause:
  assumes "in_step k" and wf: "wf_ocean (k_ocean k)" and room: "room (k_ocean k)"
    and step: "pause_job n (k_ocean k) = (e, oc')"
  shows "in_step (k\<lparr>k_ocean := oc'\<rparr>)"
  using wf step
proof (cases rule: pause_job_cases)
  case (paused j)
  have jobs: "map_of (oc_jobs oc') = (map_of (oc_jobs (k_ocean k)))(n \<mapsto> j\<lparr>j_paused := True\<rparr>)"
    by (simp add: paused(3))
  show ?thesis
  proof (rule in_step_commanded [OF assms(1)])
    show "commanded (j_assignments j) (\<lambda>_. stopCommand n) (k_ocean k) oc'"
      using roomD [OF room] by (auto simp: commanded_def push_room paused(3) map_of_mapply split: option.splits)
    show "cmd_effect (stopCommand n) (expected (oc_jobs (k_ocean k)) i) = expected (oc_jobs oc') i" for i
      by (simp add: effect_stopCommand expected_put [OF jobs])
    show "expected (oc_jobs (k_ocean k)) i = expected (oc_jobs oc') i" if "map_of (j_assignments j) i = None" for i
      using that by (simp add: expected_put [OF jobs] expected_job [OF paused(2)] fun_upd_idem)
  qed
qed (use assms(1) in simp)

lemma in_step_resume:
  assumes "in_step k" and wf: "wf_ocean (k_ocean k)" and led: "ledger (k_ocean k)" and room: "room (k_ocean k)"
    and not: "\<not> runs (k_ocean k) n" and step: "resume_job db n (k_ocean k) = (e, oc')"
  shows "in_step (k\<lparr>k_ocean := oc'\<rparr>)"
proof (cases e)
  case None
  let ?oc = "k_ocean k"
  have step': "resume_job db n ?oc = (None, oc')" using step None by simp
  from wf led step' show ?thesis
  proof (rule resume_job_worker)
    fix j al
    let ?conf = "confWithEnv (resume_conf db n j) (envVars db (activeEnv db))"
    let ?j = "j\<lparr>j_assignments := al, j_conf := ?conf, j_rawConf := resume_conf db n j, j_paused := False\<rparr>"
    assume j: "map_of (oc_jobs ?oc) n = Some j" and jobs: "map_of (oc_jobs oc') = (map_of (oc_jobs ?oc))(n \<mapsto> ?j)"
      and ws: "\<And>i w. map_of (oc_workers ?oc) i = Some w \<Longrightarrow> \<exists>w'. map_of (oc_workers oc') i = Some w' \<and>
        w_used w' = w_used w - mget0 (j_assignments j) i + mget0 al i \<and>
        w_send w' = (case map_of al i of None \<Rightarrow> w_send w
          | Some c \<Rightarrow> if length (w_send w) < 32 then w_send w @ [startCommand n ?conf c] else w_send w)"
    have paused: "j_paused j" using not j by (simp add: runs_def)
    have good: "wf_ocean oc'" "ledger oc'"
      using resume_job_wf [OF wf step'] resume_job_ledger [OF wf led step'] by simp_all
    have fits: "0 < c" "c < 2 ^ 31" if "map_of al i = Some c" for i c
      using share_fits [OF good, of n ?j i c] that jobs by simp_all
    show ?thesis
    proof (rule in_step_commanded [OF assms(1)])
      have keys: "mkeys (oc_workers oc') = mkeys (oc_workers ?oc)"
        by (rule same_idsD [OF same_ids_resume [OF wf step']])
      show "commanded al (startCommand n ?conf) ?oc oc'"
        unfolding commanded_def
      proof (intro allI impI)
        fix i w' assume w': "map_of (oc_workers oc') i = Some w'"
        then obtain w where w: "map_of (oc_workers ?oc) i = Some w"
          using mkeys_Some [OF w'] keys mkeys_obtain [of i "oc_workers ?oc"] by auto
        with ws [OF w] w' roomD [OF room w] show "\<exists>w. map_of (oc_workers ?oc) i = Some w \<and>
            w_send w' = w_send w @ (case map_of al i of None \<Rightarrow> [] | Some c \<Rightarrow> [startCommand n ?conf c])"
          by (auto simp: send_capacity_def split: option.splits)
      qed
      show "cmd_effect (startCommand n ?conf c) (expected (oc_jobs ?oc) i) = expected (oc_jobs oc') i"
        if "map_of al i = Some c" for i c
        using fits [OF that] that by (simp add: effect_startCommand expected_put [OF jobs])
      show "expected (oc_jobs ?oc) i = expected (oc_jobs oc') i" if "map_of al i = None" for i
        using that paused by (simp add: expected_put [OF jobs] expected_job [OF j] fun_upd_idem)
    qed
  qed
next
  case (Some err)
  from wf step [unfolded Some] have "oc' = k_ocean k"
    by (cases rule: resume_job_cases) (auto dest: resume_refused_unchanged [OF wf led])
  with assms(1) show ?thesis by simp
qed

section \<open>The machine\<close>

definition cluster_ok :: "cluster \<Rightarrow> bool" where
  "cluster_ok k \<longleftrightarrow> wf_ocean (k_ocean k) \<and> ledger (k_ocean k) \<and> in_step k"

lemma cluster_okI: "wf_ocean (k_ocean k) \<Longrightarrow> ledger (k_ocean k) \<Longrightarrow> in_step k \<Longrightarrow> cluster_ok k"
  by (simp add: cluster_ok_def)

lemma cluster_okD:
  assumes "cluster_ok k"
  shows "wf_ocean (k_ocean k)" and "ledger (k_ocean k)" and "in_step k"
  using assms by (simp_all add: cluster_ok_def)

text \<open>A step of the ocean alone keeps its own invariants.\<close>

lemma cluster_ocean:
  assumes "cluster_ok k" and "ocean_step False (k_ocean k) (k_ocean k')" and "in_step k'"
  shows "cluster_ok k'"
  using ocean_step_wf [OF assms(2)] ocean_step_ledger [OF assms(2)] cluster_okD [OF assms(1)] assms(3)
  by (intro cluster_okI)

lemma expected_drop:
  "i \<noteq> i' \<Longrightarrow> expected (map (\<lambda>(n, j). (n, drop_assignment i' j)) js) i = expected js i"
  by (rule ext, rename_tac n, case_tac "map_of js n")
    (simp_all add: expected_def map_of_map_snd drop_assignment_def)

lemma in_step_remove:
  assumes "in_step k" and "i \<notin> k_up k"
  shows "in_step (k\<lparr>k_ocean := removeWorker i (k_ocean k)\<rparr>)"
proof (rule in_stepI)
  fix i' w
  assume up: "i' \<in> k_up (k\<lparr>k_ocean := removeWorker i (k_ocean k)\<rparr>)"
    and w: "map_of (oc_workers (k_ocean (k\<lparr>k_ocean := removeWorker i (k_ocean k)\<rparr>))) i' = Some w"
  have ne: "i' \<noteq> i" using up assms(2) by auto
  have "map_of (oc_workers (k_ocean k)) i' = Some w"
    using w ne by (auto simp: removeWorker_def split: option.splits)
  moreover have "expected (oc_jobs (removeWorker i (k_ocean k))) i' = expected (oc_jobs (k_ocean k)) i'"
    using expected_drop [OF ne] by (simp add: removeWorker_def split: option.split)
  ultimately show "pending (k\<lparr>k_ocean := removeWorker i (k_ocean k)\<rparr>) i' w =
      expected (oc_jobs (k_ocean (k\<lparr>k_ocean := removeWorker i (k_ocean k)\<rparr>))) i'"
    using in_stepD [OF assms(1), of i' w] up by (simp add: pending_def)
qed

text \<open>Steps that leave the pending effect on every worker as it is.\<close>

lemma in_step_same:
  assumes "in_step k" and "k_up k' \<subseteq> k_up k" and "oc_jobs (k_ocean k') = oc_jobs (k_ocean k)"
    and "\<And>i w'. i \<in> k_up k' \<Longrightarrow> map_of (oc_workers (k_ocean k')) i = Some w' \<Longrightarrow>
      \<exists>w. map_of (oc_workers (k_ocean k)) i = Some w \<and> pending k' i w' = pending k i w"
  shows "in_step k'"
proof (rule in_stepI)
  fix i w' assume up: "i \<in> k_up k'" and w': "map_of (oc_workers (k_ocean k')) i = Some w'"
  from assms(4) [OF this] obtain w where "map_of (oc_workers (k_ocean k)) i = Some w"
    "pending k' i w' = pending k i w" by blast
  with in_stepD [OF assms(1), of i w] up assms(2,3)
  show "pending k' i w' = expected (oc_jobs (k_ocean k')) i" by auto
qed

lemma in_step_attach:
  assumes "in_step k" and wf: "wf_ocean (k_ocean k)" and w: "fresh_worker w"
    and new: "w_id w \<notin> mkeys (oc_workers (k_ocean k))"
    and add: "addWorker w (k_ocean k) = (True, oc')" and idle: "cl_services (k_clients k (w_id w)) = []"
  shows "in_step (k\<lparr>k_ocean := oc', k_wire := (k_wire k)(w_id w := []), k_up := insert (w_id w) (k_up k)\<rparr>)"
    (is "in_step ?k")
proof (rule in_stepI)
  fix i w'
  assume up: "i \<in> k_up ?k" and w': "map_of (oc_workers (k_ocean ?k)) i = Some w'"
  have oc': "oc' = (k_ocean k)\<lparr>oc_workers := mput (w_id w) w (oc_workers (k_ocean k))\<rparr>"
    using add by (simp add: addWorker_def split: if_splits)
  show "pending ?k i w' = expected (oc_jobs (k_ocean ?k)) i"
  proof (cases "i = w_id w")
    case True
    have "map_of (j_assignments j) i = None" if "map_of (oc_jobs (k_ocean k)) n = Some j" for n j
      using wf_oceanD(4) [OF wf that] new True by (cases "map_of (j_assignments j) i") (auto simp: wf_job_def)
    then have "expected (oc_jobs (k_ocean k)) i n = None" for n
      by (cases "map_of (oc_jobs (k_ocean k)) n") (simp_all add: expected_def)
    moreover have "w' = w" using w' True by (simp add: oc')
    ultimately show ?thesis
      using w idle True by (auto simp: pending_def fresh_worker_def running_def oc' fun_eq_iff)
  next
    case False
    with in_stepD [OF assms(1), of i w'] up w' show ?thesis by (simp add: oc' pending_def)
  qed
qed

lemma cluster_step_ok: "cluster_step parse k k' \<Longrightarrow> cluster_ok k \<Longrightarrow> cluster_ok k'"
proof (induction rule: cluster_step.induct)
  case (attached w i k oc')
  note ok = cluster_okD [OF attached(6)]
  have "ocean_step False (k_ocean k) oc'"
    by (rule ocean_step.attach [OF attached(1) _ attached(4)]) (use attached(2,3) in simp)
  then show ?case
    using in_step_attach [OF ok(3,1) attached(1) _ attached(4)] attached(2,3,5,6)
    by (intro cluster_ocean [OF attached(6)]) auto
next
  case (broken k i)
  note ok = cluster_okD [OF broken]
  have "in_step (k\<lparr>k_up := k_up k - {i}\<rparr>)" by (rule in_step_same [OF ok(3)]) (auto simp: pending_def)
  then show ?case by (intro cluster_okI) (simp_all add: ok)
next
  case (ocean_notices i k)
  note ok = cluster_okD [OF ocean_notices(2)]
  show ?case
    by (rule cluster_ocean [OF ocean_notices(2)])
      (simp_all add: ocean_step.detach in_step_remove [OF ok(3) ocean_notices(1)])
next
  case (worker_notices i k)
  note ok = cluster_okD [OF worker_notices(2)]
  show ?case
    by (rule cluster_okI) (use worker_notices(1) in \<open>auto simp: ok pending_def intro!: in_step_same [OF ok(3)]\<close>)
next
  case (sent k i w msg rest)
  note ok = cluster_okD [OF sent(3)]
  have "in_step (k\<lparr>k_ocean := drain i (k_ocean k), k_wire := (k_wire k)(i := k_wire k i @ [msg])\<rparr>)"
    using sent(1,2)
    by (intro in_step_same [OF ok(3)]) (auto simp: drain_def map_of_madj pending_def split: if_splits)
  then show ?case by (intro cluster_ocean [OF sent(3)]) (simp_all add: ocean_step.drained)
next
  case (arrived k i msg rest now)
  note ok = cluster_okD [OF arrived(2)]
  have "in_step (k\<lparr>k_clients := (k_clients k)(i := receive parse now msg (k_clients k i)), k_wire := (k_wire k)(i := rest)\<rparr>)"
    using arrived(1) by (intro in_step_same [OF ok(3)]) (auto simp: pending_def running_receive)
  then show ?case by (intro cluster_okI) (simp_all add: ok)
next
  case (reported k i m)
  note ok = cluster_okD [OF reported]
  have "in_step (k\<lparr>k_ocean := onReport i m (k_ocean k)\<rparr>)"
    by (rule in_step_same [OF ok(3)]) (auto simp: onReport_def map_of_madj pending_def split: if_splits)
  then show ?case by (intro cluster_ocean [OF reported]) (simp_all add: ocean_step.report)
next
  case (sampled k i jb smp)
  note ok = cluster_okD [OF sampled]
  have "in_step (k\<lparr>k_ocean := onSample i jb smp (k_ocean k)\<rparr>)"
    by (rule in_step_same [OF ok(3)]) (auto simp: onSample_def map_of_madj pending_def split: if_splits)
  then show ?case by (intro cluster_ocean [OF sampled]) (simp_all add: ocean_step.sample)
next
  case (started k db c e oc')
  note ok = cluster_okD [OF started(3)]
  show ?case
    by (rule cluster_ocean [OF started(3)])
      (simp_all add: ocean_step.start [OF started(2)] in_step_start [OF ok(3,1,2) started(1,2)])
next
  case (stopped k n e oc')
  note ok = cluster_okD [OF stopped(3)]
  show ?case
    by (rule cluster_ocean [OF stopped(3)])
      (simp_all add: ocean_step.stop [OF stopped(2)] in_step_stop [OF ok(3,1) stopped(1,2)])
next
  case (paused k n e oc')
  note ok = cluster_okD [OF paused(3)]
  show ?case
    by (rule cluster_ocean [OF paused(3)])
      (simp_all add: ocean_step.pause [OF paused(2)] in_step_pause [OF ok(3,1) paused(1,2)])
next
  case (resumed k n db e oc')
  note ok = cluster_okD [OF resumed(4)]
  show ?case
    by (rule cluster_ocean [OF resumed(4)])
      (simp_all add: ocean_step.resume [OF resumed(3)] in_step_resume [OF ok(3,1,2) resumed(1,2,3)])
qed

lemma cluster_init_ok: "cluster_init k \<Longrightarrow> cluster_ok k"
  by (rule cluster_okI) (auto simp: cluster_init_def in_step_def ocean_init_def wf_ocean_def ledger_def)

interpretation clu: machine cluster_init "cluster_step parse" cluster_ok
  by unfold_locales (auto intro: cluster_init_ok cluster_step_ok)

section \<open>Properties\<close>


definition demo_cluster :: cluster where
  "demo_cluster = \<lparr>k_ocean = run_init, k_clients = \<lambda>_. demo_client, k_wire = \<lambda>_. [], k_up = {}\<rparr>"

definition demo_attached :: cluster where
  "demo_attached = demo_cluster\<lparr>k_ocean := snd (addWorker (run_worker ''a'' 4) run_init), k_up := {''a''}\<rparr>"

definition demo_started_cluster :: cluster where
  "demo_started_cluster = demo_attached\<lparr>k_ocean :=
     snd (start_job empty_store (run_conf ''t'' 3) (k_ocean demo_attached))\<rparr>"

lemma demo_attached_reach: "reach cluster_init (cluster_step parse) demo_attached"
proof -
  have r: "reach cluster_init (cluster_step parse) demo_cluster"
    by (rule reach_init) (simp add: cluster_init_def demo_cluster_def ocean_init_def run_init_def)
  have "cluster_step parse demo_cluster (demo_cluster\<lparr>k_ocean := snd (addWorker (run_worker ''a'' 4) run_init),
      k_wire := (k_wire demo_cluster)(''a'' := []), k_up := insert ''a'' (k_up demo_cluster)\<rparr>)"
    by (rule cluster_step.attached [of "run_worker ''a'' 4"])
      (simp_all add: run_worker_fresh, simp_all add: run_worker_def demo_cluster_def run_init_def demo_client_def addWorker_def)
  moreover have "demo_cluster\<lparr>k_ocean := snd (addWorker (run_worker ''a'' 4) run_init),
      k_wire := (k_wire demo_cluster)(''a'' := []), k_up := insert ''a'' (k_up demo_cluster)\<rparr> = demo_attached"
    by (simp add: demo_attached_def demo_cluster_def fun_eq_iff)
  ultimately show ?thesis using reach_step [OF r] by simp
qed


text \<open>What the jobs hold on a worker, test by test.\<close>

lemma sum_held_le:
  assumes wf: "wf_ocean oc" and N: "finite N"
  shows "(\<Sum>n\<in>N. case map_of (oc_jobs oc) n of None \<Rightarrow> 0 | Some j \<Rightarrow> mget0 (j_assignments j) i) \<le> held i (oc_jobs oc)"
    (is "(\<Sum>n\<in>N. ?f n) \<le> _")
proof -
  have wfj: "wf_map (oc_jobs oc)" using wf by (rule wf_oceanD)
  have nonneg: "0 \<le> ?f n" for n
    using wf_oceanD(4) [OF wf] by (auto intro: wf_job_mget0 split: option.split)
  have "(\<Sum>n\<in>N. ?f n) = (\<Sum>n\<in>N \<inter> mkeys (oc_jobs oc). ?f n)"
    using N by (intro sum.mono_neutral_right) (auto simp: map_of_None_iff split: option.split dest: mkeys_Some)
  also have "\<dots> \<le> (\<Sum>n\<in>mkeys (oc_jobs oc). ?f n)"
    using nonneg by (intro sum_mono2) auto
  also have "\<dots> = (\<Sum>(n, j)\<leftarrow>oc_jobs oc. ?f n)" by (rule sum_mkeys [OF wfj])
  also have "\<dots> = held i (oc_jobs oc)"
  proof -
    have "?f n = mget0 (j_assignments j) i" if "(n, j) \<in> set (oc_jobs oc)" for n j
      using that wfj by (simp add: wf_map_of)
    then have "map (\<lambda>(n, j). ?f n) (oc_jobs oc) = map (\<lambda>(n, j). mget0 (j_assignments j) i) (oc_jobs oc)"
      by auto
    then show ?thesis unfolding held_def msum_def by (rule arg_cong [of _ _ sum_list])
  qed
  finally show ?thesis .
qed



text \<open>A command that finds the channel full is dropped without notice: a Stop then gives the
  worker's slots back and forgets the job, but queues no STOP, so the worker is never told;
  and a Start books slots for a worker that never gets the START.\<close>
theorem full_channel_drops_command:
  assumes wf: "wf_ocean oc" and j: "map_of (oc_jobs oc) n = Some j"
    and i: "map_of (j_assignments j) i = Some c" and w: "map_of (oc_workers oc) i = Some w"
    and full: "length (w_send w) = send_capacity" and step: "stop_job n oc = (e, oc')"
  shows "e = None \<and> map_of (oc_jobs oc') n = None \<and>
    (\<exists>w'. map_of (oc_workers oc') i = Some w' \<and> w_send w' = w_send w \<and> w_used w' = max 0 (w_used w - c))"
  using wf step
proof (cases rule: stop_job_cases)
  case (stopped j')
  then have "map_of (oc_workers oc') i = Some (forget n (push_command (stopCommand n) (free_slots c w)))"
    using stop_job_worker [OF wf step, of "j_assignments j"] j i w by simp
  with stopped full show ?thesis by (simp add: push_command_def free_slots_def Let_def)
qed (use j in simp)

text \<open>A test that runs on a worker whose sender has not had a turn for 32 commands.\<close>

definition run_full :: ocean where
  "run_full = run_started\<lparr>oc_workers := madj ''a'' (\<lambda>w. w\<lparr>w_send := replicate 32 (stopCommand ''u'')\<rparr>)
     (oc_workers run_started)\<rparr>"

lemma run_full_wf: "wf_ocean run_full"
  using run_started_ok
  by (auto simp: run_full_def wf_ocean_def map_of_madj wf_job_def wf_worker_def send_capacity_def split: if_splits)

theorem full_channel_drops_command_witness:
  "fst (stop_job ''t'' run_full) = None \<and>
   (\<exists>w. map_of (oc_workers run_full) ''a'' = Some w \<and>
     (\<exists>w'. map_of (oc_workers (snd (stop_job ''t'' run_full))) ''a'' = Some w' \<and> w_send w' = w_send w))"
proof -
  have "map_option (\<lambda>w. length (w_send w)) (map_of (oc_workers run_full) ''a'') = Some 32" by code_simp
  then obtain w where w: "map_of (oc_workers run_full) ''a'' = Some w" "length (w_send w) = 32" by auto
  have "map_option (\<lambda>j. map_of (j_assignments j) ''a'') (map_of (oc_jobs run_full) ''t'') = Some (Some 2)"
    by code_simp
  then obtain j where j: "map_of (oc_jobs run_full) ''t'' = Some j" "map_of (j_assignments j) ''a'' = Some 2"
    by auto
  have "stop_job ''t'' run_full = (fst (stop_job ''t'' run_full), snd (stop_job ''t'' run_full))" by simp
  from full_channel_drops_command [OF run_full_wf j w(1) _ this] w show ?thesis by (auto simp: send_capacity_def)
qed

end
