(* ===== verification/Delivery.thy ===== *)
theory Delivery
  imports Cluster
begin

text \<open>
  Commands arrive: the sender goroutines of an ocean (master/client.go) and the receive
  loops of its workers (worker/server.go), left to themselves, empty every channel and
  stream in a bounded number of steps in whatever order they take turns, and then every
  worker runs what the ocean's jobs assign to it.
\<close>

section \<open>Deliveries\<close>

inductive deliver :: "(string \<Rightarrow> string \<times> string) \<Rightarrow> cluster \<Rightarrow> cluster \<Rightarrow> bool"
    for parse :: "string \<Rightarrow> string \<times> string" where
  sending: "map_of (oc_workers (k_ocean k)) i = Some w \<Longrightarrow> w_send w = msg # rest \<Longrightarrow>
    deliver parse k (k\<lparr>k_ocean := drain i (k_ocean k), k_wire := (k_wire k)(i := k_wire k i @ [msg])\<rparr>)"
| receiving: "i \<in> mkeys (oc_workers (k_ocean k)) \<Longrightarrow> k_wire k i = msg # rest \<Longrightarrow>
    deliver parse k (k\<lparr>k_clients := (k_clients k)(i := receive parse now msg (k_clients k i)),
      k_wire := (k_wire k)(i := rest)\<rparr>)"

lemma deliver_step: "deliver parse k k' \<Longrightarrow> cluster_step parse k k'"
  by (induction rule: deliver.induct) (auto intro: cluster_step.intros)

text \<open>What is still under way: a command in a channel has two steps to go.\<close>

definition sends :: "cluster \<Rightarrow> string \<Rightarrow> nat" where
  "sends k i = (case map_of (oc_workers (k_ocean k)) i of None \<Rightarrow> 0 | Some w \<Rightarrow> length (w_send w))"

definition backlog :: "cluster \<Rightarrow> nat" where
  "backlog k = (\<Sum>i\<in>mkeys (oc_workers (k_ocean k)). 2 * sends k i + length (k_wire k i))"

lemma drain_workers:
  "map_of (oc_workers (drain i oc)) j =
     (if j = i then map_option (\<lambda>w. w\<lparr>w_send := tl (w_send w)\<rparr>) (map_of (oc_workers oc) i) else map_of (oc_workers oc) j)"
  by (auto simp: drain_def map_of_madj)

lemma sum_one_less:
  assumes "finite A" and "a \<in> A" and "f a = Suc (g a)" and "\<And>x. x \<noteq> a \<Longrightarrow> f x = g x"
  shows "sum f A = Suc (sum g A)"
proof -
  have "sum f (A - {a}) = sum g (A - {a})" using assms(4) by (intro sum.cong) auto
  with assms(1-3) show ?thesis by (simp add: sum.remove [of A a])
qed

text \<open>Each delivery is one step towards an empty backlog, and keeps the ocean's books.\<close>

lemma deliver_backlog:
  "deliver parse k k' \<Longrightarrow> backlog k = Suc (backlog k') \<and> oc_jobs (k_ocean k') = oc_jobs (k_ocean k) \<and>
     mkeys (oc_workers (k_ocean k')) = mkeys (oc_workers (k_ocean k)) \<and> k_up k' = k_up k"
proof (induction rule: deliver.induct)
  case (sending k i w msg rest)
  let ?k = "k\<lparr>k_ocean := drain i (k_ocean k), k_wire := (k_wire k)(i := k_wire k i @ [msg])\<rparr>"
  have "2 * sends k i + length (k_wire k i) = Suc (2 * sends ?k i + length (k_wire ?k i))"
    using sending by (simp add: sends_def drain_workers)
  moreover have "2 * sends k x + length (k_wire k x) = 2 * sends ?k x + length (k_wire ?k x)" if "x \<noteq> i" for x
    using that by (simp add: sends_def drain_workers)
  moreover have "i \<in> mkeys (oc_workers (k_ocean k))" using mkeys_Some [OF sending(1)] .
  ultimately show ?case
    by (simp add: backlog_def sum_one_less [of _ i _ "\<lambda>x. 2 * sends ?k x + length (k_wire ?k x)"]) (simp add: drain_def)
next
  case (receiving i k msg rest now)
  let ?k = "k\<lparr>k_clients := (k_clients k)(i := receive parse now msg (k_clients k i)), k_wire := (k_wire k)(i := rest)\<rparr>"
  have "2 * sends k i + length (k_wire k i) = Suc (2 * sends ?k i + length (k_wire ?k i))"
    using receiving by (simp add: sends_def)
  moreover have "2 * sends k x + length (k_wire k x) = 2 * sends ?k x + length (k_wire ?k x)" if "x \<noteq> i" for x
    using that by (simp add: sends_def)
  ultimately show ?case using receiving(1)
    by (simp add: backlog_def sum_one_less [of _ i _ "\<lambda>x. 2 * sends ?k x + length (k_wire ?k x)"])
qed

text \<open>As long as something is under way, some delivery is possible.\<close>

lemma backlog_zero: "backlog k = 0 \<longleftrightarrow> (\<forall>i w. map_of (oc_workers (k_ocean k)) i = Some w \<longrightarrow> w_send w = [] \<and> k_wire k i = [])"
proof -
  have all: "(\<forall>i\<in>mkeys m. P i) \<longleftrightarrow> (\<forall>i w. map_of m i = Some w \<longrightarrow> P i)" for m :: workers and P
    using mkeys_obtain [of _ m] mkeys_Some [of m] by metis
  have "backlog k = 0 \<longleftrightarrow> (\<forall>i\<in>mkeys (oc_workers (k_ocean k)). sends k i = 0 \<and> k_wire k i = [])"
    by (simp add: backlog_def)
  also have "\<dots> \<longleftrightarrow> (\<forall>i w. map_of (oc_workers (k_ocean k)) i = Some w \<longrightarrow> sends k i = 0 \<and> k_wire k i = [])"
    by (rule all)
  also have "\<dots> \<longleftrightarrow> (\<forall>i w. map_of (oc_workers (k_ocean k)) i = Some w \<longrightarrow> w_send w = [] \<and> k_wire k i = [])"
    by (auto simp: sends_def)
  finally show ?thesis .
qed

lemma deliver_possible: "(\<exists>k'. deliver parse k k') \<longleftrightarrow> 0 < backlog k"
proof
  assume "\<exists>k'. deliver parse k k'"
  then show "0 < backlog k" using deliver_backlog by fastforce
next
  assume "0 < backlog k"
  then obtain i w where w: "map_of (oc_workers (k_ocean k)) i = Some w" "w_send w \<noteq> [] \<or> k_wire k i \<noteq> []"
    using backlog_zero [of k] by auto
  then show "\<exists>k'. deliver parse k k'"
  proof (cases "w_send w")
    case (Cons msg rest)
    from deliver.sending [OF w(1) this] show ?thesis by blast
  next
    case Nil
    with w(2) obtain msg rest where "k_wire k i = msg # rest" by (cases "k_wire k i") auto
    from deliver.receiving [OF mkeys_Some [OF w(1)] this] show ?thesis by blast
  qed
qed

lemma delivered:
  assumes "(deliver parse ^^ m) k k'" and "cluster_ok k"
  shows "m + backlog k' = backlog k \<and> cluster_ok k' \<and> oc_jobs (k_ocean k') = oc_jobs (k_ocean k) \<and>
    mkeys (oc_workers (k_ocean k')) = mkeys (oc_workers (k_ocean k)) \<and> k_up k' = k_up k"
  using assms
proof (induction m arbitrary: k')
  case (Suc m)
  then obtain l where l: "(deliver parse ^^ m) k l" "deliver parse l k'" by auto
  with Suc.IH [OF l(1)] Suc.prems(2) deliver_backlog [OF l(2)] clu.inv_step [OF _ deliver_step [OF l(2)]]
  show ?case by simp
qed simp

text \<open>Left to themselves the deliveries come to rest, all at the same plan.\<close>

definition rests :: "(string \<Rightarrow> string \<times> string) \<Rightarrow> cluster \<Rightarrow> cluster \<Rightarrow> bool" where
  "rests parse k k' \<longleftrightarrow> (deliver parse)\<^sup>*\<^sup>* k k' \<and> (\<nexists>k''. deliver parse k' k'')"

lemma rests_exists: "\<exists>k'. rests parse k k'"
proof (induction "backlog k" arbitrary: k)
  case 0
  then show ?case using deliver_possible [of parse k] by (auto simp: rests_def)
next
  case (Suc b)
  then obtain l where l: "deliver parse k l" using deliver_possible [of parse k] by auto
  then have "b = backlog l" using deliver_backlog Suc(2) by fastforce
  with Suc(1) obtain k' where "rests parse l k'" by blast
  with l have "rests parse k k'" by (auto simp: rests_def intro: converse_rtranclp_into_rtranclp)
  then show ?case by blast
qed

lemma rests_plan:
  assumes "rests parse k k'" and "cluster_ok k" and "mkeys (oc_workers (k_ocean k)) \<subseteq> k_up k"
  shows "mkeys (oc_workers (k_ocean k')) = mkeys (oc_workers (k_ocean k)) \<and>
    (\<forall>i\<in>mkeys (oc_workers (k_ocean k)). running (k_clients k' i) = expected (oc_jobs (k_ocean k)) i)"
proof -
  obtain m where m: "(deliver parse ^^ m) k k'" using assms(1) rtranclp_imp_relpowp unfolding rests_def by metis
  note D = delivered [OF m assms(2)]
  have none: "backlog k' = 0" using assms(1) deliver_possible [of parse k'] by (simp add: rests_def)
  have "running (k_clients k' i) = expected (oc_jobs (k_ocean k)) i" if i: "i \<in> mkeys (oc_workers (k_ocean k))" for i
  proof -
    obtain w where w: "map_of (oc_workers (k_ocean k')) i = Some w" using i D mkeys_obtain by metis
    with none have "w_send w = []" "k_wire k' i = []" using backlog_zero by auto
    moreover have "in_step k'" "i \<in> k_up k'" using D cluster_okD(3) i assms(3) by auto
    ultimately show ?thesis using in_stepD [OF _ _ w] D by (simp add: pending_def)
  qed
  with D show ?thesis by simp
qed

section \<open>Property\<close>

text \<open>The small cluster, right after a Start.\<close>

lemma demo_started:
  shows "reach cluster_init (cluster_step parse) demo_started_cluster"
    and "mkeys (oc_workers (k_ocean demo_started_cluster)) = {''a''}"
    and "mkeys (oc_workers (k_ocean demo_started_cluster)) \<subseteq> k_up demo_started_cluster"
    and "sends demo_started_cluster ''a'' = 1"
proof -
  have "room (k_ocean demo_attached)"
    by (simp add: room_def demo_attached_def demo_cluster_def addWorker_def run_init_def run_worker_def
        mput_def send_capacity_def)
  then show "reach cluster_init (cluster_step parse) demo_started_cluster"
    unfolding demo_started_cluster_def
    by (intro reach_step [OF demo_attached_reach] cluster_step.started [OF _ prod.collapse [symmetric]])
  have "map fst (oc_workers (k_ocean demo_started_cluster)) = [''a'']" by code_simp
  then show keys: "mkeys (oc_workers (k_ocean demo_started_cluster)) = {''a''}" by (metis list.set(1,2) set_map)
  have "k_up demo_started_cluster = {''a''}" by (simp add: demo_started_cluster_def demo_attached_def)
  with keys show "mkeys (oc_workers (k_ocean demo_started_cluster)) \<subseteq> k_up demo_started_cluster" by blast
  have "map_option (\<lambda>w. length (w_send w)) (map_of (oc_workers (k_ocean demo_started_cluster)) ''a'') = Some 1" by code_simp
  then show "sends demo_started_cluster ''a'' = 1" by (auto simp: sends_def)
qed



end
