(* ===== verification/WorkerBoot.thy ===== *)
theory WorkerBoot
  imports Boot WorkerClient Attach
begin

text \<open>
  How a worker comes up (worker/tsunami.go: readConf, New, main): its client, how often it
  reports and how it finds an ocean; and the address its load engine dials. The
  configuration reader and etcd are arguments.
\<close>

section \<open>Start-up\<close>

definition worker_defaults :: "(string \<times> setting) list" where
  "worker_defaults =
     [(''name'', SString ''worker-0''), (''id'', SString ''8cd50597-39df-473f-af2e-33e116f53105''),
      (''concurence'', SInt 10), (''mode'', SString ''cluster''),
      (''ocean.endpoints'', SList [''127.0.0.1:8050'']),
      (''registry.endpoints'', SList []), (''registry.request_timeout'', SInt 2),
      (''registry.dial_timeout'', SInt 2), (''report.interval'', SInt 2), (''auth.token'', SString [])]"

record ts_control =
  tc_id :: string
  tc_name :: string
  tc_mode :: string
  tc_services :: "(string, tsunami) gomap"

definition New_control :: "viper \<Rightarrow> ts_control" where
  "New_control v = \<lparr>tc_id = GetString v ''id'', tc_name = GetString v ''name'', tc_mode = GetString v ''mode'',
     tc_services = []\<rparr>"

text \<open>Which ocean to attach to: the registry's best at each attempt, or always the same.\<close>

datatype resolver = Registry | Static string

fun resolve :: "kvs \<Rightarrow> resolver \<Rightarrow> string" where
  "resolve kvs Registry = selectOcean kvs"
| "resolve kvs (Static e) = e"

text \<open>The process main sets up; the period of its reports is in seconds.\<close>

record worker_process =
  wp_client :: ocean_client
  wp_interval :: int
  wp_resolver :: resolver

definition client_of :: "viper \<Rightarrow> ts_control \<Rightarrow> ocean_client" where
  "client_of v ctrl =
     \<lparr>cl_workerID = tc_id ctrl, cl_name = tc_name ctrl, cl_maxConc = to_int32 (GetInt v ''concurence''),
      cl_token = GetString v ''auth.token'', cl_services = tc_services ctrl, cl_retired = []\<rparr>"

definition main_worker :: "viper \<Rightarrow> (string list \<Rightarrow> bool) \<Rightarrow> worker_process option" where
  "main_worker v connect =
     (let ctrl = New_control v;
          interval = GetInt v ''report.interval'';
          interval = (if interval \<le> 0 then 2 else interval);
          client = client_of v ctrl;
          reg = GetStringSlice v ''registry.endpoints''
      in if length reg > 0 then
           (if connect reg then Some \<lparr>wp_client = client, wp_interval = interval, wp_resolver = Registry\<rparr> else None)
         else let endpoint = (case GetStringSlice v ''ocean.endpoints'' of [] \<Rightarrow> ''127.0.0.1:8050'' | e # _ \<Rightarrow> e)
              in Some \<lparr>wp_client = client, wp_interval = interval, wp_resolver = Static endpoint\<rparr>)"

lemma main_worker_client: "main_worker v connect = Some p \<Longrightarrow> wp_client p = client_of v (New_control v)"
  by (auto simp: main_worker_def Let_def split: if_splits)

lemma main_worker_init: "main_worker v connect = Some p \<Longrightarrow> client_init (Resolving, wp_client p)"
  by (drule main_worker_client) (simp add: client_init_def client_of_def New_control_def)

section \<open>Properties\<close>

text \<open>C28: A worker that has come up reaches an ocean that shares its token: the metadata and the
  first message that it sends are admitted as long as the ocean has room for a connection,
  and the ocean books its configured concurrency as its capacity, as far as that fits the
  int32 of the message; a concurrency of 2^31 or more wraps around.\<close>
theorem worker_meets_ocean:
  assumes "main_worker v connect = Some p" and "GetString v ''id'' \<noteq> []"
    and "oc_auth_token oc = GetString v ''auth.token''"
    and "oc_maxConnections oc \<le> 0 \<or> int (length (oc_workers oc)) < oc_maxConnections oc"
  shows "case open_stream (attach_metadata (wp_client p)) (register_message (wp_client p)) ip oc of (r, oc') \<Rightarrow>
    r = Inr (GetString v ''id'') \<and> oc_jobs oc' = oc_jobs oc \<and>
    (\<exists>w. map_of (oc_workers oc') (GetString v ''id'') = Some w \<and> w_used w = 0 \<and>
       w_maxCap w = to_int32 (GetInt v ''concurence'') \<and>
       (GetInt v ''concurence'' = 2 ^ 31 \<longrightarrow> w_maxCap w < 0))"
proof -
  have "token_ok (oc_auth_token oc) (attach_metadata (wp_client p))"
    using assms(3) main_worker_client [OF assms(1)]
    by (simp add: token_ok_def attach_metadata_def client_of_def)
  then show ?thesis
    using assms(2,4) main_worker_client [OF assms(1)]
    by (auto simp: open_stream_def register_message_def client_of_def New_control_def addWorker_def
        registered_worker_def to_int32_def)
qed

definition worker_viper :: viper where
  "worker_viper =
     \<lparr>GetString = (\<lambda>k. case map_of worker_defaults k of Some (SString s) \<Rightarrow> s | _ \<Rightarrow> []),
      GetInt = (\<lambda>k. case map_of worker_defaults k of Some (SInt i) \<Rightarrow> i | _ \<Rightarrow> 0),
      GetBool = (\<lambda>k. case map_of worker_defaults k of Some (SBool b) \<Rightarrow> b | _ \<Rightarrow> False),
      GetStringSlice = (\<lambda>k. case map_of worker_defaults k of Some (SList l) \<Rightarrow> l | _ \<Rightarrow> [])\<rparr>"

theorem worker_meets_ocean_witness:
  "\<exists>p oc' w. main_worker worker_viper (\<lambda>_. True) = Some p \<and>
     open_stream (attach_metadata (wp_client p)) (register_message (wp_client p)) [] run_init =
       (Inr (GetString worker_viper ''id''), oc') \<and>
     map_of (oc_workers oc') (GetString worker_viper ''id'') = Some w \<and> w_maxCap w = 10"
proof -
  obtain p where p: "main_worker worker_viper (\<lambda>_. True) = Some p"
    by (simp add: main_worker_def worker_viper_def worker_defaults_def Let_def)
  have c: "GetString worker_viper ''id'' \<noteq> []" "oc_auth_token run_init = GetString worker_viper ''auth.token''"
    "oc_maxConnections run_init \<le> 0 \<or> int (length (oc_workers run_init)) < oc_maxConnections run_init"
    "to_int32 (GetInt worker_viper ''concurence'') = 10"
    by (simp_all add: worker_viper_def worker_defaults_def run_init_def to_int32_def)
  from worker_meets_ocean [OF p c(1-3), of "[]"] c(4) p show ?thesis by (auto split: prod.splits)
qed

text \<open>The address that the load engine dials for a URL: a host without a port gets 443, the
  configured port or 80 and can be dialled; a host that names its port, such as
  localhost:8081, gets a second one, and the dialler rejects the address, so every request
  of such a test fails.\<close>
theorem explicit_port_undialable:
  assumes "URL c \<noteq> []" and "parse (URL c) = (scheme, host)"
    and "set host \<inter> {CHR ''['', CHR '']''} = {}" and "set (Port c) \<inter> {CHR '':'', CHR ''['', CHR '']''} = {}"
  shows "SplitHostPort (fst (target_host parse c)) =
    (if CHR '':'' \<in> set host then None
     else Some (host, if scheme = ''https'' then ''443'' else if Port c \<noteq> [] then Port c else ''80''))"
proof -
  have "SplitHostPort (host @ '':'' @ p) = (if CHR '':'' \<in> set host then None else Some (host, p))"
    if "set p \<inter> {CHR '':'', CHR ''['', CHR '']''} = {}" for p
    by (rule SplitHostPort_join) (use assms(3) that in auto)
  from this [of "''443''"] this [of "Port c"] this [of "''80''"] assms show ?thesis
    by (simp add: target_host_def)
qed

theorem explicit_port_undialable_witness:
  "SplitHostPort (fst (target_host (\<lambda>_. (''http'', ''localhost:8081'')) (zero_conf\<lparr>URL := ''http://localhost:8081/''\<rparr>))) = None \<and>
   SplitHostPort (fst (target_host (\<lambda>_. (''http'', ''localhost'')) (zero_conf\<lparr>URL := ''http://localhost/''\<rparr>))) =
     Some (''localhost'', ''80'')"
  using explicit_port_undialable [of "zero_conf\<lparr>URL := ''http://localhost:8081/''\<rparr>" "\<lambda>_. (''http'', ''localhost:8081'')" "''http''" "''localhost:8081''"]
    explicit_port_undialable [of "zero_conf\<lparr>URL := ''http://localhost/''\<rparr>" "\<lambda>_. (''http'', ''localhost'')" "''http''" "''localhost''"]
  by (simp add: zero_conf_def)

end
