(* ===== verification/EndToEnd.thy ===== *)
theory EndToEnd
  imports Server Delivery WorkerBoot
begin

text \<open>
  From a client's HTTP request to the load that the fleet generates: the server's router
  and gate in front of the scheduler, the scheduler's commands on the workers' streams,
  and the request loops of the workers' engines.
\<close>

section \<open>The load of a test\<close>

text \<open>
  The request loops of a test that run on the attached workers, and those that the
  ocean's books ask for.
\<close>

definition loops :: "cluster \<Rightarrow> string \<Rightarrow> int" where
  "loops k n = (\<Sum>i\<in>mkeys (oc_workers (k_ocean k)). case running (k_clients k i) n of None \<Rightarrow> 0 | Some l \<Rightarrow> int l)"

definition planned :: "ocean \<Rightarrow> string \<Rightarrow> int" where
  "planned oc n = (case map_of (oc_jobs oc) n of None \<Rightarrow> 0
     | Some j \<Rightarrow> if j_paused j then 0 else msum (\<lambda>c. c) (j_assignments j))"

text \<open>In a cluster in order, with every stream up, the one becomes the other.\<close>

lemma loops_planned:
  assumes "rests parse k k'" and "cluster_ok k" and "mkeys (oc_workers (k_ocean k)) \<subseteq> k_up k"
  shows "loops k' n = planned (k_ocean k) n"
proof -
  note D = cluster_okD [OF assms(2)]
  let ?K = "mkeys (oc_workers (k_ocean k))"
  have keys: "mkeys (oc_workers (k_ocean k')) = ?K"
    and run: "\<And>i. i \<in> ?K \<Longrightarrow> running (k_clients k' i) = expected (oc_jobs (k_ocean k)) i"
    using rests_plan [OF assms] by metis+
  have l: "loops k' n = (\<Sum>i\<in>?K. case expected (oc_jobs (k_ocean k)) i n of None \<Rightarrow> 0 | Some l \<Rightarrow> int l)"
    unfolding loops_def keys by (rule sum.cong) (simp_all only: run)
  show ?thesis
  proof (cases "map_of (oc_jobs (k_ocean k)) n")
    case None
    then show ?thesis by (simp add: l expected_def planned_def)
  next
    case (Some j)
    have wfj: "wf_job (oc_workers (k_ocean k)) n j" using D(1) Some by (rule wf_oceanD)
    then have al: "wf_map (j_assignments j)" "mkeys (j_assignments j) \<subseteq> ?K"
      "\<And>i c. map_of (j_assignments j) i = Some c \<Longrightarrow> 0 < c"
      using mkeys_obtain by (fastforce simp: wf_job_def)+
    have "(case expected (oc_jobs (k_ocean k)) i n of None \<Rightarrow> 0 | Some l \<Rightarrow> int l) =
        (if j_paused j then 0 else mget0 (j_assignments j) i)" for i
      using Some al(3) [of i] by (auto simp: expected_def mget0_def less_imp_le split: option.split)
    with msum_eq_sum [OF al(1) _ al(2)] Some show ?thesis by (simp add: l planned_def)
  qed
qed

section \<open>Requests that change the load\<close>

text \<open>The cluster after a request to its ocean's server.\<close>

definition requested :: "outside \<Rightarrow> http_request \<Rightarrow> auth \<Rightarrow> cluster \<Rightarrow> cluster" where
  "requested x r a k = k\<lparr>k_ocean := sv_ocean (snd (serve x r \<lparr>sv_ocean = k_ocean k, sv_auth = a\<rparr>))\<rparr>"

definition live :: "outside \<Rightarrow> http_request \<Rightarrow> auth \<Rightarrow> bool" where
  "live x r a \<longleftrightarrow> Option.bind (map_of (rq_Cookies r) (a_cookieName a)) (Validate (x_crypto x) (x_now x) a) \<noteq> None"

lemma requested_served:
  assumes "live x r a" and "rq_Method r \<noteq> ''OPTIONS''" and "(rq_Path r, f) \<in> set scheduler_routes"
    and "rq_body r = Value req"
  shows "requested x r a k = k\<lparr>k_ocean := snd (f (a_store a) (Conf req) (k_ocean k))\<rparr>"
proof -
  from assms(1) obtain u where "Option.bind (map_of (rq_Cookies r) (a_cookieName a)) (Validate (x_crypto x) (x_now x) a) = Some u"
    by (auto simp: live_def)
  then have "serve x r \<lparr>sv_ocean = k_ocean k, sv_auth = a\<rparr> =
      answer \<lparr>sv_ocean = k_ocean k, sv_auth = a\<rparr> (cors (r\<lparr>rq_user := Some u\<rparr>) (auth_cors r fresh_response))
        (f (a_store a) (Conf req) (k_ocean k))"
    using scheduler_served [OF _ assms(2-4), of "\<lparr>sv_ocean = k_ocean k, sv_auth = a\<rparr>" x u] by simp
  then show ?thesis by (simp add: requested_def answer_def)
qed



text \<open>A client with a session on the small cluster.\<close>

lemma ada_live: "\<exists>a. live web_outside (web_request path ada_cookie c) a"
  by (rule ada_session) (auto simp: live_def web_outside_def web_request_def)

lemma demo_room: "room (k_ocean demo_attached)" "mkeys (oc_workers (k_ocean demo_attached)) \<subseteq> k_up demo_attached"
  "map_of (oc_jobs (k_ocean demo_attached)) n = None" "msum free_cap (oc_workers (k_ocean demo_attached)) = 4"
proof -
  have "oc_workers (k_ocean demo_attached) = [(''a'', run_worker ''a'' 4)]" "oc_jobs (k_ocean demo_attached) = []"
    by (simp_all add: demo_attached_def demo_cluster_def addWorker_def run_init_def run_worker_def mput_def)
  then show "room (k_ocean demo_attached)" "mkeys (oc_workers (k_ocean demo_attached)) \<subseteq> k_up demo_attached"
    "map_of (oc_jobs (k_ocean demo_attached)) n = None" "msum free_cap (oc_workers (k_ocean demo_attached)) = 4"
    by (simp_all add: room_def demo_attached_def run_worker_def send_capacity_def msum_def free_cap_def)
qed



end
