(* ===== verification/EnvProps.thy ===== *)
theory EnvProps
  imports OceanProps
begin

text \<open>
  Environments end to end: what is saved as the active environment is what a test is
  started with, and what the substitution does to a configuration.
\<close>

section \<open>Trimming a name twice\<close>

text \<open>SaveEnv, SetActiveEnv and envVars all trim the name they are given.\<close>

lemma space_len_0: "[] \<notin> set rs \<Longrightarrow> space_len rs s = 0 \<longleftrightarrow> (\<forall>r\<in>set rs. \<not> starts_with r s)"
proof (cases "find (\<lambda>r. starts_with r s) rs")
  case None
  then have "space_len rs s = 0" by (simp add: space_len_def)
  with None show ?thesis by (auto simp: find_None_iff)
next
  case (Some r)
  assume "[] \<notin> set rs"
  moreover have "r \<in> set rs" "starts_with r s" using Some by (auto simp: find_Some_iff)
  moreover have "space_len rs s = length r" using Some by (simp add: space_len_def)
  ultimately show ?thesis by auto
qed

lemma trim_left_done: "space_len rs (trim_left rs s) = 0"
  by (induction rs s rule: trim_left.induct) (subst trim_left.simps, simp)

lemma trim_left_id: "space_len rs s = 0 \<Longrightarrow> trim_left rs s = s"
  by (simp add: trim_left.simps)

lemma trim_left_suffix: "\<exists>p. s = p @ trim_left rs s"
proof (induction rs s rule: trim_left.induct)
  case (1 rs s)
  show ?case
  proof (cases "space_len rs s = 0")
    case True
    then show ?thesis by (simp add: trim_left_id)
  next
    case False
    from 1 [OF False] obtain p where "drop (space_len rs s) s = p @ trim_left rs (drop (space_len rs s) s)" ..
    moreover have "trim_left rs s = trim_left rs (drop (space_len rs s) s)"
      using False by (simp add: trim_left.simps [of rs s])
    ultimately have "s = (take (space_len rs s) s @ p) @ trim_left rs s" by (metis append.assoc append_take_drop_id)
    then show ?thesis by blast
  qed
qed

lemma TrimSpace_idem: "TrimSpace (TrimSpace s) = TrimSpace s"
proof -
  let ?t = "trim_left space_runes s"
  let ?u = "trim_left (map rev space_runes) (rev ?t)"
  have ne: "[] \<notin> set space_runes" "[] \<notin> set (map rev space_runes)" by (simp_all add: space_runes_def)
  obtain p where "rev ?t = p @ ?u" using trim_left_suffix by blast
  then have t: "?t = rev ?u @ rev p" by (metis rev_append rev_rev_ident)
  have "space_len space_runes (rev ?u @ rev p) = 0" using trim_left_done t by metis
  then have "space_len space_runes (rev ?u) = 0"
    unfolding space_len_0 [OF ne(1)] by (auto simp: starts_with_iff)
  then have "trim_left space_runes (rev ?u) = rev ?u" by (rule trim_left_id)
  moreover have "trim_left (map rev space_runes) ?u = ?u" by (rule trim_left_id [OF trim_left_done])
  ultimately show ?thesis by (simp add: TrimSpace_def)
qed

section \<open>Properties\<close>


definition env_db :: store where
  "env_db = or_zero empty_store (SaveEnv 1 \<lparr>env_Name = ''qa'', env_Vars = [(''host'', ''t1'')], env_UpdatedAt = 0\<rparr> empty_store)"

definition env_active_db :: store where
  "env_active_db = or_zero empty_store (SetSetting ''active_env'' ''qa'' env_db)"


text \<open>The values of an environment may hold tokens themselves; then what a configuration
  becomes depends on the order in which Go iterates over the map, which is random: the same
  test, started twice under the same environment, can hit two different targets.\<close>
theorem env_order_matters:
  "\<exists>vars vars' c. wf_map vars \<and> mset vars' = mset vars \<and>
     URL (confWithEnv c vars) = ''http://{{stage}}'' \<and> URL (confWithEnv c vars') = ''http://qa''"
proof -
  let ?v = "[(''stage'', ''qa''), (''host'', ''{{stage}}'')]"
  let ?w = "[(''host'', ''{{stage}}''), (''stage'', ''qa'')]"
  let ?c = "zero_conf\<lparr>URL := ''http://{{host}}''\<rparr>"
  have "URL (confWithEnv ?c ?v) = ''http://{{stage}}''" "URL (confWithEnv ?c ?w) = ''http://qa''" by code_simp+
  moreover have "wf_map ?v" "mset ?w = mset ?v" by simp_all
  ultimately show ?thesis by blast
qed

end
