(* ===== verification/Console.thy ===== *)
theory Console
  imports WorkerBoot
begin

text \<open>
  The standalone face of a worker: the interactive shell (worker/shell.go), its commands
  and the periodic report (worker/tsunami.go), and the control handlers over HTTP
  (worker/services.go). No route of main leads to it; StartApp is its entry. Printing is
  not modelled, and doubles are exact reals.
\<close>

section \<open>State\<close>

text \<open>
  A service of StartApp has a shell and a web server of its own; the services that a
  worker runs for an ocean have neither. A command is a function of its parameter and the
  service; it may fail with a message, and it may end the process.
\<close>

record process =
  pr_ts :: tsunami
  pr_exited :: bool

type_synonym cmd = "string \<Rightarrow> process \<Rightarrow> string option \<times> process"

record shell =
  sh_CmdList :: "(string, cmd) gomap"
  sh_enableMenu :: bool

definition Shell_Init :: "shell \<Rightarrow> shell" where
  "Shell_Init s = s\<lparr>sh_CmdList := [], sh_enableMenu := False\<rparr>"

definition AddCmd :: "string \<Rightarrow> cmd \<Rightarrow> shell \<Rightarrow> shell" where
  "AddCmd cn f s = s\<lparr>sh_CmdList := mput cn f (sh_CmdList s)\<rparr>"

section \<open>Commands\<close>

text \<open>
  \<open>v, _ := strconv.Atoi(s)\<close>: 0 for a text that is no number, the nearest bound for a number
  that does not fit. \<open>v, _ := strconv.ParseBool(s)\<close>: False for anything else.
\<close>

definition Atoi_value :: "string \<Rightarrow> int" where
  "Atoi_value s =
     (case Atoi s of
        Some v \<Rightarrow> v
      | None \<Rightarrow>
          (let neg = (s \<noteq> [] \<and> hd s = CHR ''-''); ds = (if s \<noteq> [] \<and> hd s \<in> {CHR ''-'', CHR ''+''} then tl s else s)
           in if ds \<noteq> [] \<and> list_all is_digit ds then (if neg then int64_min else int64_max) else 0))"

definition ParseBool_value :: "string \<Rightarrow> bool" where
  "ParseBool_value s = (case ParseBool s of None \<Rightarrow> False | Some b \<Rightarrow> b)"

definition reload_entry :: "string \<times> string \<Rightarrow> tsunami \<Rightarrow> tsunami" where
  "reload_entry kv ts =
     (let (k, v) = kv
      in if k = ''refresh'' then ts\<lparr>ts_refresh := Atoi_value v\<rparr>
         else if k = ''duration'' then ts\<lparr>ts_duration := Atoi_value v\<rparr>
         else if k = ''enableReport'' then ts\<lparr>ts_enableReport := ParseBool_value v\<rparr>
         else ts)"

definition Reload :: "(string, string) gomap \<Rightarrow> tsunami \<Rightarrow> tsunami" where
  "Reload c ts = fold reload_entry c ts"

definition SetConf :: "conf \<Rightarrow> tsunami \<Rightarrow> tsunami" where
  "SetConf c ts = ts\<lparr>ts_conf := c\<rparr>"

definition SetRefresh :: cmd where
  "SetRefresh p pr = (None, pr\<lparr>pr_ts := Reload [(''refresh'', p)] (pr_ts pr)\<rparr>)"

definition SetEnableReport :: cmd where
  "SetEnableReport p pr = (None, pr\<lparr>pr_ts := Reload [(''enableReport'', p)] (pr_ts pr)\<rparr>)"

definition ShowHelp :: cmd where
  "ShowHelp p pr = (None, pr)"

definition Quit :: cmd where
  "Quit p pr = (None, pr\<lparr>pr_exited := True\<rparr>)"

text \<open>The loop is given neither a client nor a recorder.\<close>

definition AddNewWorker :: cmd where
  "AddNewWorker p pr =
     (let ts = pr_ts pr;
          w = \<lparr>lw_conf = ts_conf ts, lw_client = None, lw_stat = zero_stat, lw_tmpls = None, lw_sampling = False\<rparr>
      in (None, pr\<lparr>pr_ts := ts\<lparr>ts_workers := ts_workers ts @ [w]\<rparr>\<rparr>))"

definition app_shell :: shell where
  "app_shell =
     AddCmd ''report'' SetEnableReport
       (AddCmd ''refresh'' SetRefresh
         (AddCmd ''q'' Quit
           (AddCmd ''help'' ShowHelp
             (AddCmd ''+'' AddNewWorker
               (Shell_Init \<lparr>sh_CmdList = [], sh_enableMenu = False\<rparr>)))))"

section \<open>The shell's loop\<close>

text \<open>
  One line of input: an empty one toggles the menu, which mutes the periodic report while
  it is shown; another one is a command. None stands for the panic of a missing help
  command. The shell's flags point into the service.
\<close>

record console =
  cn_pr :: process
  cn_shell :: shell
  cn_oldReport :: bool

definition set_report :: "bool \<Rightarrow> process \<Rightarrow> process" where
  "set_report b pr = pr\<lparr>pr_ts := (pr_ts pr)\<lparr>ts_enableReport := b\<rparr>\<rparr>"

definition shell_line :: "string \<Rightarrow> console \<Rightarrow> console option" where
  "shell_line txt c =
     (let s = cn_shell c
      in if txt = [CHR 0x0A] then
           (if \<not> sh_enableMenu s then
              (case map_of (sh_CmdList s) ''help'' of
                 None \<Rightarrow> None
               | Some h \<Rightarrow>
                   let pr = snd (h [] (cn_pr c))
                   in Some (c\<lparr>cn_shell := s\<lparr>sh_enableMenu := True\<rparr>,
                              cn_oldReport := ts_enableReport (pr_ts pr), cn_pr := set_report False pr\<rparr>))
            else Some (c\<lparr>cn_shell := s\<lparr>sh_enableMenu := False\<rparr>, cn_pr := set_report (cn_oldReport c) (cn_pr c)\<rparr>))
         else
           (let clist = split2 (CHR '' '') (TrimSuffix txt [CHR 0x0A]);
                param = (if length clist > 1 then clist ! 1 else [])
            in case map_of (sh_CmdList s) (clist ! 0) of
                 None \<Rightarrow> Some c
               | Some f \<Rightarrow> Some (c\<lparr>cn_pr := snd (f param (cn_pr c)), cn_shell := s\<lparr>sh_enableMenu := False\<rparr>\<rparr>)))"

text \<open>The lines that are typed, as long as the service is not stopped and the process lives.\<close>

fun shell_run :: "string list \<Rightarrow> console \<Rightarrow> console option" where
  "shell_run [] c = Some c"
| "shell_run (txt # txts) c =
     (if ts_done (pr_ts (cn_pr c)) \<or> pr_exited (cn_pr c) then Some c
      else Option.bind (shell_line txt c) (shell_run txts))"

section \<open>The periodic report\<close>

record figures =
  f_res :: int
  f_err :: int
  f_avg :: real
  f_max :: real
  f_min :: real

definition add_figures :: "loop_worker \<Rightarrow> figures \<Rightarrow> figures" where
  "add_figures wk f =
     (let st = lw_stat wk;
          f = f\<lparr>f_res := f_res f + numRes st, f_err := f_err f + numErr st, f_avg := f_avg f + GetAvgRes st\<rparr>;
          f = (if GetMinRes st < f_min f then f\<lparr>f_min := GetMinRes st\<rparr> else f)
      in if GetMaxRes st > f_max f then f\<lparr>f_max := GetMaxRes st\<rparr> else f)"

text \<open>
  What a tick prints, when reports are on: the sums over the loops and the quotient of the
  averages by the number of loops (Go prints NaN when there is none, so None here).
\<close>

definition Monitoring :: "tsunami \<Rightarrow> (figures \<times> real option) option" where
  "Monitoring ts =
     (if \<not> ts_enableReport ts then None
      else let f = fold add_figures (ts_workers ts)
                     \<lparr>f_res = 0, f_err = 0, f_avg = 0, f_max = 0, f_min = 9999.99\<rparr>
           in Some (f, if ts_workers ts = [] then None else Some (f_avg f / real (length (ts_workers ts)))))"

section \<open>Properties\<close>

abbreviation reports :: "console \<Rightarrow> bool" where
  "reports c \<equiv> ts_enableReport (pr_ts (cn_pr c))"

definition newline :: string where "newline = [CHR 0x0A]"

text \<open>The commands of the shell, by name.\<close>

lemma app_commands:
  "map_of (sh_CmdList app_shell) = [''+'' \<mapsto> AddNewWorker, ''help'' \<mapsto> ShowHelp, ''q'' \<mapsto> Quit,
     ''refresh'' \<mapsto> SetRefresh, ''report'' \<mapsto> SetEnableReport]"
  by (auto simp: fun_eq_iff app_shell_def AddCmd_def Shell_Init_def)

text \<open>Opening and closing the menu keeps the commands, and the process.\<close>

lemma menu_line:
  assumes "map_of (sh_CmdList (cn_shell c)) ''help'' = Some ShowHelp"
  shows "\<exists>c'. shell_line newline c = Some c' \<and> sh_CmdList (cn_shell c') = sh_CmdList (cn_shell c) \<and>
    sh_enableMenu (cn_shell c') = (\<not> sh_enableMenu (cn_shell c)) \<and> pr_exited (cn_pr c') = pr_exited (cn_pr c) \<and>
    ts_done (pr_ts (cn_pr c')) = ts_done (pr_ts (cn_pr c)) \<and>
    (if sh_enableMenu (cn_shell c) then reports c' = cn_oldReport c \<and> cn_oldReport c' = cn_oldReport c
     else \<not> reports c' \<and> cn_oldReport c' = reports c)"
  using assms by (auto simp: shell_line_def newline_def ShowHelp_def set_report_def Let_def)

lemma muted_stays:
  assumes "map_of (sh_CmdList (cn_shell c)) ''help'' = Some ShowHelp" and "\<not> reports c"
    and "sh_enableMenu (cn_shell c) \<longrightarrow> \<not> cn_oldReport c"
  shows "\<exists>c'. shell_run (replicate n newline) c = Some c' \<and> \<not> reports c'"
  using assms
proof (induction n arbitrary: c)
  case (Suc n)
  from menu_line [OF Suc.prems(1)] obtain c' where c': "shell_line newline c = Some c'"
    "sh_CmdList (cn_shell c') = sh_CmdList (cn_shell c)"
    "\<not> reports c'" "sh_enableMenu (cn_shell c') \<longrightarrow> \<not> cn_oldReport c'"
    using Suc.prems by (auto split: if_splits)
  with Suc.IH [of c'] Suc.prems show ?case by auto
qed simp

text \<open>The menu of the shell switches the periodic report off while it is shown. Leaving it
  with the Enter key restores the report; leaving it with a command does not, and from then
  on no number of Enter keys brings the report back.\<close>
theorem menu_command_mutes_report:
  assumes "cn_shell c = app_shell" and "reports c" and "\<not> ts_done (pr_ts (cn_pr c))" and "\<not> pr_exited (cn_pr c)"
  shows "(\<exists>c'. shell_run [newline, newline] c = Some c' \<and> reports c') \<and>
    (\<exists>c'. shell_run (newline # (''+'' @ newline) # replicate n newline) c = Some c' \<and> \<not> reports c')"
proof -
  have menu: "\<not> sh_enableMenu (cn_shell c)" using assms(1) by (simp add: app_shell_def AddCmd_def Shell_Init_def)
  have helps: "map_of (sh_CmdList (cn_shell c)) ''help'' = Some ShowHelp" by (simp add: assms(1) app_commands)
  from menu_line [OF helps] menu assms(2-4) obtain c1 where c1: "shell_line newline c = Some c1"
    "sh_CmdList (cn_shell c1) = sh_CmdList (cn_shell c)" "sh_enableMenu (cn_shell c1)" "\<not> pr_exited (cn_pr c1)"
    "\<not> ts_done (pr_ts (cn_pr c1))" "\<not> reports c1" "cn_oldReport c1"
    by auto
  from menu_line [of c1] c1 helps obtain c2 where c2: "shell_line newline c1 = Some c2" "reports c2" by auto
  have "split2 (CHR '' '') (TrimSuffix (''+'' @ newline) [CHR 0x0A]) = [''+'']" "''+'' @ newline \<noteq> [CHR 0x0A]"
    by (simp_all add: newline_def TrimSuffix_def starts_with_def split2_def Let_def)
  moreover have "map_of (sh_CmdList (cn_shell c1)) ''+'' = Some AddNewWorker"
    using c1(2) by (simp add: assms(1) app_commands)
  ultimately obtain c3 where c3: "shell_line (''+'' @ newline) c1 = Some c3" "sh_CmdList (cn_shell c3) = sh_CmdList (cn_shell c)"
    "\<not> reports c3" "\<not> sh_enableMenu (cn_shell c3)"
    using c1(2,6) by (simp add: shell_line_def AddNewWorker_def Let_def)
  from muted_stays [of c3 n] c3 helps obtain c4 where "shell_run (replicate n newline) c3 = Some c4" "\<not> reports c4" by auto
  with c1 c2 c3 assms(3,4) show ?thesis by simp
qed

definition demo_console :: console where
  "demo_console = \<lparr>cn_pr = \<lparr>pr_ts = new_tsunami zero_conf True False, pr_exited = False\<rparr>, cn_shell = app_shell,
     cn_oldReport = False\<rparr>"

theorem menu_command_mutes_report_witness:
  "\<exists>c'. shell_run (newline # (''+'' @ newline) # replicate 8 newline) demo_console = Some c' \<and> \<not> reports c'"
  using menu_command_mutes_report [of demo_console 8] by (simp add: demo_console_def new_tsunami_def)

text \<open>The loop that the command + adds has no client to send with; the loops of Init have one.\<close>

lemma added_loop_has_no_client:
  "lw_client (last (ts_workers (pr_ts (snd (AddNewWorker p pr))))) = None"
  by (simp add: AddNewWorker_def Let_def)

end
