(* ===== verification/Control.thy ===== *)
theory Control
  imports Console
begin

text \<open>
  The control handlers of a standalone worker (worker/services.go), the start of a
  standalone service (worker/tsunami.go: StartApp) and the two remaining answers of the
  worker package (worker/json.go). The services of a control are kept by name; a service
  of StartApp has a shell and a web server, one that runs for an ocean has not.
\<close>

section \<open>State\<close>

record standalone =
  sa_ts :: tsunami
  sa_shell :: "shell option"
  sa_apiServer :: "string option"

type_synonym services = "(string, standalone) gomap"

text \<open>StartApp, up to the point where its web server blocks it.\<close>

definition StartApp :: "(string \<Rightarrow> string \<times> string) \<Rightarrow> int \<Rightarrow> string \<Rightarrow> conf \<Rightarrow> services \<Rightarrow> services" where
  "StartApp parse now service c ctrl =
     (let app = new_tsunami c True False;
          app = Init parse 100000 app;
          app = Run now app
      in mput service \<lparr>sa_ts = app, sa_shell = Some app_shell, sa_apiServer = Some '':8091''\<rparr> ctrl)"

section \<open>The metrics of one service\<close>

definition view_loop :: "loop_worker \<Rightarrow> figures \<Rightarrow> figures" where
  "view_loop wk f =
     (let st = lw_stat wk;
          f = f\<lparr>f_res := f_res f + numRes st, f_err := f_err f + numErr st, f_avg := f_avg f + GetAvgRes st\<rparr>;
          f = (if GetMaxRes st > f_max f then f\<lparr>f_max := GetMaxRes st\<rparr> else f)
      in if f_min f = 0 \<or> f_min f > GetMinRes st then f\<lparr>f_min := GetMinRes st\<rparr> else f)"

text \<open>A quotient of doubles, printed with the verb f: a zero divisor gives no number.\<close>

definition quotient_text :: "real \<Rightarrow> real \<Rightarrow> entry" where
  "quotient_text a b =
     (if b \<noteq> 0 then Fixed (a / b) else Text (if a = 0 then ''NaN'' else if a > 0 then ''+Inf'' else ''-Inf''))"

definition service_view :: "real \<Rightarrow> tsunami \<Rightarrow> (string, entry) gomap" where
  "service_view elapsed ts =
     (let f = fold view_loop (ts_workers ts) \<lparr>f_res = 0, f_err = 0, f_avg = 0, f_max = 0, f_min = 0\<rparr>;
          workers = length (ts_workers ts)
      in [(''name'', Text (Name (ts_conf ts))), (''workers_count'', Text (nat_str workers)),
          (''errors_count'', Text (int_str (f_err f))), (''avg'', quotient_text (f_avg f) (real workers)),
          (''min'', Fixed (f_min f)), (''max'', Fixed (f_max f)), (''elaped_time'', Fixed elapsed),
          (''requests_count'', Fixed (real_of_int (f_res f))),
          (''rps'', quotient_text (real_of_int (f_res f)) elapsed)])"

definition GetMetrics_ts :: "real \<Rightarrow> tsunami \<Rightarrow> response \<Rightarrow> response" where
  "GetMetrics_ts elapsed ts w =
     WriteSuccess (Some (service_view elapsed ts)) None (set_header ''Access-Control-Allow-Origin'' AllowOrigin w)"

section \<open>The commands\<close>

text \<open>
  Every command decodes its body first; when that fails, the decoder has already answered,
  and the handler answers once more.
\<close>

definition bad_request :: "string \<Rightarrow> response \<Rightarrow> response" where
  "bad_request err w = WriteSuccess None (Some \<lparr>Code = ResultBadRequest, Message = err\<rparr>) w"

definition service_not_found :: api_error where
  "service_not_found = \<lparr>Code = ResultNotFound, Message = ''service not found''\<rparr>"

definition start_conf :: "cmd_conf \<Rightarrow> conf" where
  "start_conf c =
     zero_conf\<lparr>Name := q_Name c, URL := q_URL c, Protocol := q_Protocol c, Host := q_Host c, Port := q_Port c,
       Path := q_Path c, Method := (if q_Method c = [] then ''GET'' else q_Method c), Headers := q_Headers c,
       Body := q_Body c, Concurrence := q_Concurrence c\<rparr>"

text \<open>The answer, and the service whose StartApp it launches in the background, if any.\<close>

definition CmdStart :: "string \<Rightarrow> http_request \<Rightarrow> response \<Rightarrow> services \<Rightarrow> response \<times> (string \<times> conf) option" where
  "CmdStart ip r w ctrl =
     (let w = set_header ''Access-Control-Allow-Origin'' AllowOrigin w
      in case Decoder zero_request (rq_body r) w of
           (w, Inl err) \<Rightarrow> (bad_request err w, None)
         | (w, Inr req) \<Rightarrow>
             let c = start_conf (Conf req);
                 spawn = (if map_of ctrl (q_Name (Conf req)) = None then Some (q_Name (Conf req), c) else None)
             in (WriteSuccess (Some [(''url'', Text (''http://'' @ ip @ '':8091'' @ APIVersion)),
                   (''name'', Text (q_Name (Conf req)))]) None w, spawn))"

text \<open>None where the service has no shell to stop, which panics.\<close>

definition CmdStop :: "http_request \<Rightarrow> response \<Rightarrow> services \<Rightarrow> (response \<times> tsunami option \<times> services) option" where
  "CmdStop r w ctrl =
     (let w = set_header ''Access-Control-Allow-Origin'' AllowOrigin w
      in case Decoder zero_request (rq_body r) w of
           (w, Inl err) \<Rightarrow> Some (bad_request err w, None, ctrl)
         | (w, Inr req) \<Rightarrow>
             (case map_of ctrl (q_Name (Conf req)) of
                None \<Rightarrow> Some (WriteSuccess None (Some service_not_found) w, None, ctrl)
              | Some t \<Rightarrow>
                  if sa_shell t = None \<or> sa_apiServer t = None then None
                  else Some (WriteSuccess None None w, Some (Stop_ts (sa_ts t)), mdel (q_Name (Conf req)) ctrl)))"

definition CmdMetrics :: "real \<Rightarrow> http_request \<Rightarrow> response \<Rightarrow> services \<Rightarrow> response" where
  "CmdMetrics elapsed r w ctrl =
     (let w = set_header ''Access-Control-Allow-Origin'' AllowOrigin w
      in case Decoder zero_request (rq_body r) w of
           (w, Inl err) \<Rightarrow> bad_request err w
         | (w, Inr req) \<Rightarrow>
             if Cmd req \<noteq> ''metrics'' then
               WriteSuccess None (Some \<lparr>Code = ResultInvalidCMD, Message = ''invalid command''\<rparr>) w
             else case map_of ctrl (q_Name (Conf req)) of
                    None \<Rightarrow> WriteSuccess None (Some service_not_found) w
                  | Some app \<Rightarrow> GetMetrics_ts elapsed (sa_ts app) w)"

section \<open>CreateJSONRes\<close>

text \<open>
  The error text lacks its closing brace. The loop over the data builds a text that is not
  used.
\<close>

definition json_error_text :: "int \<Rightarrow> string \<Rightarrow> string" where
  "json_error_text code msg =
     (let q = [CHR 0x22]
      in ''{'' @ q @ ''error'' @ q @ '': {'' @ q @ ''code'' @ q @ '': '' @ int_str code @ '','' @ q @ ''message'' @ q @
         '': '' @ q @ msg @ q @ ''}'')"

definition CreateJSONRes :: "(string, entry) gomap option \<Rightarrow> api_error option \<Rightarrow> response \<Rightarrow> response option" where
  "CreateJSONRes data err w =
     (case err of
        Some e \<Rightarrow> Some (write_chunk (Plain (json_error_text (Code e) (Message e))) w)
      | None \<Rightarrow>
          (case data of
             None \<Rightarrow> None
           | Some _ \<Rightarrow> Some (write_chunk (Envelope
               \<lparr>e_code = 0, e_data = data, e_error_code = 0, e_error_message = []\<rparr>) w)))"

section \<open>Properties\<close>

lemma StartApp_lookup:
  "map_of (StartApp parse now n c ctrl) m =
     (if m = n then Some \<lparr>sa_ts = Run now (Init parse 100000 (new_tsunami c True False)), sa_shell = Some app_shell,
        sa_apiServer = Some '':8091''\<rparr> else map_of ctrl m)"
  by (simp add: StartApp_def Let_def)

text \<open>A standalone service from start to stop: StartApp puts it into the control with the
  configured number of request loops, running, and touches no other; a metrics command
  finds it; CmdStop then stops that very service, takes it out and leaves the others. A
  service without a shell, as a worker runs for an ocean, makes CmdStop panic.\<close>
theorem standalone_start_stop:
  assumes "rq_body r = Value req" and "q_Name (Conf req) = n"
  shows "(\<exists>t. map_of (StartApp parse now n c ctrl) n = Some t \<and> \<not> ts_done (sa_ts t) \<and>
      length (ts_workers (sa_ts t)) = nat (Concurrence c) \<and>
      (\<exists>w. CmdStop r fresh_response (StartApp parse now n c ctrl) =
        Some (w, Some (Stop_ts (sa_ts t)), mdel n (StartApp parse now n c ctrl)) \<and> rw_status w = Some 200)) \<and>
    (\<forall>m. m \<noteq> n \<longrightarrow> map_of (mdel n (StartApp parse now n c ctrl)) m = map_of ctrl m) \<and>
    (\<forall>ctrl' t. map_of ctrl' n = Some t \<and> sa_shell t = None \<longrightarrow> CmdStop r fresh_response ctrl' = None)"
proof (intro conjI allI impI)
  show "\<exists>t. map_of (StartApp parse now n c ctrl) n = Some t \<and> \<not> ts_done (sa_ts t) \<and>
      length (ts_workers (sa_ts t)) = nat (Concurrence c) \<and>
      (\<exists>w. CmdStop r fresh_response (StartApp parse now n c ctrl) =
        Some (w, Some (Stop_ts (sa_ts t)), mdel n (StartApp parse now n c ctrl)) \<and> rw_status w = Some 200)"
    using assms by (simp add: StartApp_lookup CmdStop_def Decoder_def fresh_response_def)
next
  fix m assume "m \<noteq> n"
  then show "map_of (mdel n (StartApp parse now n c ctrl)) m = map_of ctrl m" by (simp add: StartApp_lookup)
next
  fix ctrl' :: services and t assume "map_of ctrl' n = Some t \<and> sa_shell t = None"
  with assms show "CmdStop r fresh_response ctrl' = None" by (simp add: CmdStop_def Decoder_def)
qed

theorem standalone_start_stop_witness:
  "\<exists>w ts. CmdStop (web_request ''/api/v1/admin/stop'' [] (run_conf ''t'' 0)) fresh_response
      (StartApp (\<lambda>_. (''http'', ''h'')) 0 ''t'' (zero_conf\<lparr>Concurrence := 3\<rparr>) []) = Some (w, Some ts, []) \<and> ts_done ts"
proof -
  let ?r = "web_request ''/api/v1/admin/stop'' [] (run_conf ''t'' 0)"
  have r: "rq_body ?r = Value \<lparr>Cmd = [], Conf = run_conf ''t'' 0\<rparr>"
    "q_Name (Conf \<lparr>Cmd = [], Conf = run_conf ''t'' 0\<rparr>) = ''t''"
    by (simp_all add: web_request_def run_conf_def)
  have "mdel ''t'' (StartApp parse 0 ''t'' c []) = []" for parse c
    by (simp add: StartApp_def Let_def mput_def mdel_def)
  with standalone_start_stop [OF r, of "\<lambda>_. (''http'', ''h'')" 0 "zero_conf\<lparr>Concurrence := 3\<rparr>" "[]"]
  show ?thesis by auto
qed

text \<open>A request that is not JSON is answered twice, in plain text and in an envelope.\<close>

lemma malformed_command_answered_twice:
  assumes "rq_body r = Malformed msg"
  shows "map (\<lambda>ch. case ch of Plain _ \<Rightarrow> False | Envelope _ \<Rightarrow> True) (rw_body (fst (CmdStart ip r fresh_response ctrl))) =
    [False, True]"
  using assms
  by (simp add: CmdStart_def Decoder_def bad_request_def http_error_def WriteSuccess_body fresh_response_def)

end
