(* ===== verification/Etcd.thy ===== *)
theory Etcd
  imports Prelude
begin

text \<open>
  The etcd client (etcd/client.go): its connection, the calls that write, the leases, the
  reads and their answers, the mutex around a critical section, and WatchPrefix, which
  seeds a consumer with the keys under a prefix and then follows their changes. etcd and
  its Go library are not under src/: the calls of the library are functions of a record,
  every answer of a read or a watch is an argument. The state of etcd is a type variable.
\<close>

section \<open>The connection\<close>

record ('c, 's) etcd_client =
  ec_cli :: 'c
  ec_sess :: 's
  ec_timeout :: int

text \<open>
  Opening: the connection, then a session on it; a connection without a session is closed
  again. None: an error. The last component is the state of the library and of etcd.
\<close>

definition NewClient ::
    "(string list \<Rightarrow> int \<Rightarrow> 'w \<Rightarrow> 'c option \<times> 'w) \<Rightarrow> ('c \<Rightarrow> int \<Rightarrow> 'w \<Rightarrow> 's option \<times> 'w) \<Rightarrow>
     ('c \<Rightarrow> 'w \<Rightarrow> 'w) \<Rightarrow> string list \<Rightarrow> int \<Rightarrow> int \<Rightarrow> int \<Rightarrow> 'w \<Rightarrow> ('c, 's) etcd_client option \<times> 'w" where
  "NewClient connect session disconnect endpoints dialTimeout requestTimeout sessTTL w =
     (case connect endpoints dialTimeout w of
        (None, w) \<Rightarrow> (None, w)
      | (Some cli, w) \<Rightarrow>
          (case session cli sessTTL w of
             (None, w) \<Rightarrow> (None, disconnect cli w)
           | (Some sess, w) \<Rightarrow> (Some \<lparr>ec_cli = cli, ec_sess = sess, ec_timeout = requestTimeout\<rparr>, w)))"

definition Close_client ::
    "('s \<Rightarrow> 'w \<Rightarrow> 'w) \<Rightarrow> ('c \<Rightarrow> 'w \<Rightarrow> 'w) \<Rightarrow> ('c, 's) etcd_client \<Rightarrow> 'w \<Rightarrow> 'w" where
  "Close_client orphan disconnect c w = disconnect (ec_cli c) (orphan (ec_sess c) w)"

section \<open>Writes and leases\<close>

text \<open>
  The calls of the library that the client makes on etcd, each with whether it returned an
  error (a call that timed out may have had its effect), what etcd does by itself when a
  lease runs out, and what can be observed: the value under a key with the lease it is
  bound to, the leases that are alive, and those that have ever been granted.
\<close>

record ('e, 'v) etcd_server =
  es_Put :: "string \<Rightarrow> 'v \<Rightarrow> int option \<Rightarrow> 'e \<Rightarrow> bool \<times> 'e"
  es_Delete :: "string \<Rightarrow> bool \<Rightarrow> 'e \<Rightarrow> bool \<times> 'e"
  es_Range :: "string \<Rightarrow> 'e \<Rightarrow> (string \<times> 'v) list option"
  es_Grant :: "int \<Rightarrow> 'e \<Rightarrow> int option \<times> 'e"
  es_KeepAlive :: "int \<Rightarrow> 'e \<Rightarrow> bool"
  es_Revoke :: "int \<Rightarrow> 'e \<Rightarrow> bool \<times> 'e"
  es_expire :: "int \<Rightarrow> 'e \<Rightarrow> 'e"
  es_key :: "'e \<Rightarrow> string \<Rightarrow> ('v \<times> int option) option"
  es_live :: "'e \<Rightarrow> int \<Rightarrow> bool"
  es_granted :: "'e \<Rightarrow> int \<Rightarrow> bool"

text \<open>The result of a write is whether it failed; that of Grant the lease, 0 with an error.\<close>

definition Put :: "('e, 'v) etcd_server \<Rightarrow> string \<Rightarrow> 'v \<Rightarrow> int option \<Rightarrow> 'e \<Rightarrow> bool \<times> 'e" where
  "Put es key val lease e = es_Put es key val lease e"

definition Delete :: "('e, 'v) etcd_server \<Rightarrow> string \<Rightarrow> 'e \<Rightarrow> bool \<times> 'e" where
  "Delete es key e = es_Delete es key False e"

definition DeletePrefix :: "('e, 'v) etcd_server \<Rightarrow> string \<Rightarrow> 'e \<Rightarrow> bool \<times> 'e" where
  "DeletePrefix es pfx e = es_Delete es pfx True e"

definition Grant :: "('e, 'v) etcd_server \<Rightarrow> int \<Rightarrow> 'e \<Rightarrow> (int \<times> bool) \<times> 'e" where
  "Grant es ttl e =
     (case es_Grant es ttl e of
        (None, e) \<Rightarrow> ((0, True), e)
      | (Some lease, e) \<Rightarrow> ((lease, False), e))"

text \<open>
  KeepAlive fails, or leaves a goroutine that reads the acknowledgements until their channel
  is closed and then says so in the log; nothing else comes of a lost lease.
\<close>

definition KeepAlive :: "('e, 'v) etcd_server \<Rightarrow> int \<Rightarrow> 'e \<Rightarrow> bool" where
  "KeepAlive es lease e = es_KeepAlive es lease e"

definition Revoke_lease :: "('e, 'v) etcd_server \<Rightarrow> int \<Rightarrow> 'e \<Rightarrow> bool \<times> 'e" where
  "Revoke_lease es lease e = es_Revoke es lease e"

text \<open>
  What etcd documents: a write has its effect or none, and its effect if it returns without
  an error; a key can only be bound to a lease that is alive; a granted lease is new and
  alive, and disturbs no key; when a lease runs out, its keys go with it; a range read
  answers each key under the prefix once, with its value.
\<close>

definition keys_without :: "int \<Rightarrow> (string \<Rightarrow> ('v \<times> int option) option) \<Rightarrow> string \<Rightarrow> ('v \<times> int option) option" where
  "keys_without l m k = (case m k of Some (v, Some l') \<Rightarrow> if l' = l then None else m k | _ \<Rightarrow> m k)"

definition untouched :: "('e, 'v) etcd_server \<Rightarrow> 'e \<Rightarrow> 'e \<Rightarrow> bool" where
  "untouched es e e' \<longleftrightarrow> es_key es e' = es_key es e \<and> es_live es e' = es_live es e \<and> es_granted es e' = es_granted es e"

definition written :: "('e, 'v) etcd_server \<Rightarrow> string \<Rightarrow> 'v \<Rightarrow> int \<Rightarrow> 'e \<Rightarrow> 'e \<Rightarrow> bool" where
  "written es k v l e e' \<longleftrightarrow> es_live es e l \<and> es_key es e' = (es_key es e)(k \<mapsto> (v, Some l)) \<and>
     es_live es e' = es_live es e \<and> es_granted es e' = es_granted es e"

definition put_law :: "('e, 'v) etcd_server \<Rightarrow> bool" where
  "put_law es \<longleftrightarrow> (\<forall>k v l e err e'. es_Put es k v (Some l) e = (err, e') \<longrightarrow>
     written es k v l e e' \<or> (err \<and> untouched es e e'))"

definition grant_law :: "('e, 'v) etcd_server \<Rightarrow> bool" where
  "grant_law es \<longleftrightarrow> (\<forall>ttl e l e'. es_Grant es ttl e = (Some l, e') \<longrightarrow> \<not> es_granted es e l \<and>
     es_key es e' = es_key es e \<and> es_live es e' = (es_live es e)(l := True) \<and>
     es_granted es e' = (es_granted es e)(l := True))"

definition expire_law :: "('e, 'v) etcd_server \<Rightarrow> bool" where
  "expire_law es \<longleftrightarrow> (\<forall>l e. es_key es (es_expire es l e) = keys_without l (es_key es e) \<and>
     es_live es (es_expire es l e) = (es_live es e)(l := False) \<and>
     es_granted es (es_expire es l e) = es_granted es e)"

definition range_law :: "('e, 'v) etcd_server \<Rightarrow> bool" where
  "range_law es \<longleftrightarrow> (\<forall>p e kvs. es_Range es p e = Some kvs \<longrightarrow> distinct (map fst kvs) \<and>
     (\<forall>k v. (k, v) \<in> set kvs \<longleftrightarrow> take (length p) k = p \<and> (\<exists>l. es_key es e k = Some (v, l))))"

definition etcd_ok :: "('e, 'v) etcd_server \<Rightarrow> bool" where
  "etcd_ok es \<longleftrightarrow> put_law es \<and> grant_law es \<and> expire_law es \<and> range_law es"

lemma Put_effect: "etcd_ok es \<Longrightarrow> Put es k v (Some l) e = (err, e') \<Longrightarrow> written es k v l e e' \<or> (err \<and> untouched es e e')"
  unfolding etcd_ok_def put_law_def Put_def by blast

lemma Grant_effect:
  assumes "etcd_ok es" and "Grant es ttl e = ((l, False), e')"
  shows "\<not> es_granted es e l" and "es_key es e' = es_key es e" and "es_live es e' = (es_live es e)(l := True)"
    and "es_granted es e' = (es_granted es e)(l := True)"
proof -
  have "es_Grant es ttl e = (Some l, e')" using assms(2) by (auto simp: Grant_def split: prod.splits option.splits)
  with assms(1) show "\<not> es_granted es e l" and "es_key es e' = es_key es e"
    and "es_live es e' = (es_live es e)(l := True)" and "es_granted es e' = (es_granted es e)(l := True)"
    unfolding etcd_ok_def grant_law_def by blast+
qed

lemma expire_effect:
  assumes "etcd_ok es"
  shows "es_key es (es_expire es l e) = keys_without l (es_key es e)"
    and "es_live es (es_expire es l e) = (es_live es e)(l := False)"
    and "es_granted es (es_expire es l e) = es_granted es e"
  using assms unfolding etcd_ok_def expire_law_def by blast+

lemma Range_effect:
  assumes "etcd_ok es" and "es_Range es pfx e = Some kvs"
  shows "distinct (map fst kvs)"
    and "(k, v) \<in> set kvs \<longleftrightarrow> take (length pfx) k = pfx \<and> (\<exists>l. es_key es e k = Some (v, l))"
  using assms unfolding etcd_ok_def range_law_def by blast+

text \<open>A client that could not be opened leaves no connection behind; closing gives both back.\<close>

lemma NewClient_no_leak:
  assumes "\<And>e t w cli w'. connect e t w = (Some cli, w') \<Longrightarrow> opened w' = insert cli (opened w) \<and> cli \<notin> opened w"
    and "\<And>e t w w'. connect e t w = (None, w') \<Longrightarrow> opened w' = opened w"
    and "\<And>cli t w r w'. session cli t w = (r, w') \<Longrightarrow> opened w' = opened w"
    and "\<And>cli w. opened (disconnect cli w) = opened w - {cli}"
    and "NewClient connect session disconnect eps d r ttl w = (c, w')"
  shows "opened w' = (case c of None \<Rightarrow> opened w | Some c \<Rightarrow> insert (ec_cli c) (opened w))"
proof -
  obtain x w1 where x: "connect eps d w = (x, w1)" by force
  show ?thesis
  proof (cases x)
    case None
    with x assms(2,5) show ?thesis by (auto simp: NewClient_def)
  next
    case (Some cli)
    obtain y w2 where y: "session cli ttl w1 = (y, w2)" by force
    with x Some assms(5) have c: "(c, w') = (case y of None \<Rightarrow> (None, disconnect cli w2)
        | Some sess \<Rightarrow> (Some \<lparr>ec_cli = cli, ec_sess = sess, ec_timeout = r\<rparr>, w2))"
      by (simp add: NewClient_def)
    have "opened w2 = insert cli (opened w)" "cli \<notin> opened w" using assms(1) [OF x [unfolded Some]] assms(3) [OF y] by auto
    with c assms(4) show ?thesis by (cases y) auto
  qed
qed

section \<open>Reads\<close>

record kv =
  kv_Key :: string
  kv_Value :: string

text \<open>A range response: None for an error of the call; otherwise its keys and its revision.\<close>

type_synonym range_response = "(kv list \<times> int) option"

definition Get :: "range_response \<Rightarrow> string option option" where
  "Get resp =
     (case resp of
        None \<Rightarrow> None
      | Some (kvs, _) \<Rightarrow> Some (case kvs of [] \<Rightarrow> None | e # _ \<Rightarrow> Some (kv_Value e)))"

definition GetPrefix :: "range_response \<Rightarrow> kv list option" where
  "GetPrefix resp =
     (case resp of
        None \<Rightarrow> None
      | Some (kvs, _) \<Rightarrow> Some (fold (\<lambda>e out. out @ [\<lparr>kv_Key = kv_Key e, kv_Value = kv_Value e\<rparr>]) kvs []))"

section \<open>The mutex\<close>

text \<open>
  Locking may fail (the context ends first); then fn does not run. The mutex is released
  whatever fn returns.
\<close>

definition WithLock ::
    "('s \<Rightarrow> 's option) \<Rightarrow> ('s \<Rightarrow> 's) \<Rightarrow> ('s \<Rightarrow> string option \<times> 's) \<Rightarrow> 's \<Rightarrow> string option \<times> 's" where
  "WithLock Lock Unlock fn s =
     (case Lock s of
        None \<Rightarrow> (Some ''lock'', s)
      | Some s \<Rightarrow> let (err, s) = fn s in (err, Unlock s))"

section \<open>WatchPrefix\<close>

datatype event = EvPut kv | EvDelete string

record watch_response =
  wr_Canceled :: bool
  wr_Events :: "event list"
  wr_Revision :: int

text \<open>
  One watch channel, to its end: a response is passed on and moves the revision to resume
  from; a cancelled one ends the round.
\<close>

fun follow :: "int \<Rightarrow> watch_response list \<Rightarrow> watch_response list \<times> int" where
  "follow startRev [] = ([], startRev)"
| "follow startRev (resp # ch) =
     (if wr_Canceled resp then ([], startRev)
      else let (out, rv) = follow (if wr_Revision resp > 0 then wr_Revision resp + 1 else startRev) ch
           in (resp # out, rv))"

text \<open>
  The rounds: \<open>watch i rv\<close> is what the channel of the i-th call of Watch delivers, opened at
  the given revision (0: from now on). The loop ends with its context, here after n rounds.
\<close>

fun rounds :: "(nat \<Rightarrow> int \<Rightarrow> watch_response list) \<Rightarrow> nat \<Rightarrow> nat \<Rightarrow> int \<Rightarrow> watch_response list \<times> int" where
  "rounds watch i 0 startRev = ([], startRev)"
| "rounds watch i (Suc n) startRev =
     (let (out, rv) = follow startRev (watch i startRev);
          (rest, rv) = rounds watch (Suc i) n rv
      in (out @ rest, rv))"

definition seed :: "range_response \<Rightarrow> watch_response list \<times> int" where
  "seed gresp =
     (case gresp of
        None \<Rightarrow> ([], 0)
      | Some (kvs, rv) \<Rightarrow>
          ([\<lparr>wr_Canceled = False, wr_Events = map EvPut kvs, wr_Revision = 0\<rparr>], rv + 1))"

definition WatchPrefix ::
    "range_response \<Rightarrow> (nat \<Rightarrow> int \<Rightarrow> watch_response list) \<Rightarrow> nat \<Rightarrow> watch_response list \<times> int" where
  "WatchPrefix gresp watch n =
     (let (out, startRev) = seed gresp;
          (rest, rv) = rounds watch 0 n startRev
      in (out @ rest, rv))"

section \<open>What a consumer sees\<close>

text \<open>A consumer keeps a map of the keys and applies the events as they come.\<close>

fun apply_event :: "event \<Rightarrow> (string \<Rightarrow> string option) \<Rightarrow> string \<Rightarrow> string option" where
  "apply_event (EvPut e) m = m(kv_Key e \<mapsto> kv_Value e)"
| "apply_event (EvDelete k) m = m(k := None)"

definition replay :: "watch_response list \<Rightarrow> (string \<Rightarrow> string option) \<Rightarrow> string \<Rightarrow> string option" where
  "replay rs m = fold apply_event (concat (map wr_Events rs)) m"

text \<open>
  etcd's side: the events of each revision, and with them the content at each revision. A
  channel opened at a revision delivers the following events in order, a response carrying
  everything up to the revision in its header; it may break or be cancelled anywhere. A
  range read gives the content at its revision.
\<close>

record history =
  h_events :: "int \<Rightarrow> event list"
  h_content :: "int \<Rightarrow> string \<Rightarrow> string option"

definition history_ok :: "history \<Rightarrow> bool" where
  "history_ok h \<longleftrightarrow> (\<forall>r \<ge> 0. h_content h (r + 1) = fold apply_event (h_events h (r + 1)) (h_content h r))"

fun delivers :: "history \<Rightarrow> int \<Rightarrow> watch_response list \<Rightarrow> bool" where
  "delivers h rv [] = True"
| "delivers h rv (resp # ch) =
     (wr_Canceled resp \<or>
      rv \<le> wr_Revision resp \<and> wr_Events resp = concat (map (h_events h) [rv..wr_Revision resp]) \<and>
      delivers h (wr_Revision resp + 1) ch)"

definition range_of :: "history \<Rightarrow> kv list \<Rightarrow> int \<Rightarrow> bool" where
  "range_of h kvs rv \<longleftrightarrow> 0 \<le> rv \<and> fold apply_event (map EvPut kvs) Map.empty = h_content h rv"

lemma replay_simps: "replay [] m = m" "replay (r # rs) m = replay rs (fold apply_event (wr_Events r) m)"
  "replay (rs @ rs') m = replay rs' (replay rs m)"
  by (simp_all add: replay_def)

text \<open>The events of a stretch of revisions lead from the content before it to the one after.\<close>

lemma content_stretch:
  assumes "history_ok h" and "0 \<le> r" and "r \<le> s"
  shows "fold apply_event (concat (map (h_events h) [r + 1..s])) (h_content h r) = h_content h s"
  using assms(3)
proof (induction "nat (s - r)" arbitrary: s)
  case 0
  then show ?case by simp
next
  case (Suc n)
  then have s: "r \<le> s - 1" "n = nat (s - 1 - r)" by auto
  have "[r + 1..s] = [r + 1..s - 1] @ [s]" using s(1) by (simp add: upto_rec2)
  then have "fold apply_event (concat (map (h_events h) [r + 1..s])) (h_content h r) =
      fold apply_event (h_events h s) (h_content h (s - 1))"
    using Suc.hyps(1) [OF s(2,1)] by simp
  also have "\<dots> = h_content h s"
    using assms(1,2) s(1) unfolding history_ok_def by (metis diff_add_cancel dual_order.trans)
  finally show ?case .
qed

lemma follow_exact:
  assumes "history_ok h" and "0 < rv" and "delivers h rv ch" and "follow rv ch = (out, rv')"
  shows "0 < rv' \<and> rv \<le> rv' \<and> replay out (h_content h (rv - 1)) = h_content h (rv' - 1)"
  using assms(2-)
proof (induction ch arbitrary: rv out)
  case (Cons resp ch)
  show ?case
  proof (cases "wr_Canceled resp")
    case True
    with Cons.prems show ?thesis by (simp add: replay_simps)
  next
    case False
    let ?r = "wr_Revision resp"
    obtain out1 where f: "follow (?r + 1) ch = (out1, rv')" "out = resp # out1"
      using Cons.prems False by (auto split: prod.splits)
    have d: "rv \<le> ?r" "wr_Events resp = concat (map (h_events h) [rv..?r])" "delivers h (?r + 1) ch"
      using Cons.prems(2) False by auto
    have "fold apply_event (wr_Events resp) (h_content h (rv - 1)) = h_content h ?r"
      using content_stretch [OF assms(1), of "rv - 1" ?r] d(1,2) Cons.prems(1) by simp
    with Cons.IH [OF _ d(3) f(1)] d(1) Cons.prems(1) show ?thesis by (simp add: f(2) replay_simps)
  qed
qed (simp add: replay_simps)

lemma rounds_exact:
  assumes "history_ok h" and "\<And>i r. 0 < r \<Longrightarrow> delivers h r (watch i r)" and "0 < rv" and "rounds watch i n rv = (out, rv')"
  shows "rv \<le> rv' \<and> replay out (h_content h (rv - 1)) = h_content h (rv' - 1)"
  using assms(3-)
proof (induction n arbitrary: i rv out)
  case (Suc n)
  obtain o1 r1 o2 where f: "follow rv (watch i rv) = (o1, r1)" "rounds watch (Suc i) n r1 = (o2, rv')" "out = o1 @ o2"
    using Suc.prems(2) by (auto split: prod.splits)
  from follow_exact [OF assms(1) Suc.prems(1) assms(2) [OF Suc.prems(1)] f(1)] Suc.IH [OF _ f(2)] show ?case
    by (simp add: f(3) replay_simps)
qed (simp add: replay_simps)

section \<open>Properties\<close>


definition demo_history :: history where
  "demo_history =
     \<lparr>h_events = (\<lambda>r. if r = 1 then [EvPut \<lparr>kv_Key = ''a'', kv_Value = ''1''\<rparr>]
         else if r = 2 then [EvPut \<lparr>kv_Key = ''b'', kv_Value = ''2''\<rparr>] else if r = 3 then [EvDelete ''a''] else []),
      h_content = (\<lambda>r. if r \<le> 0 then Map.empty else if r = 1 then [''a'' \<mapsto> ''1'']
         else if r = 2 then [''a'' \<mapsto> ''1'', ''b'' \<mapsto> ''2''] else [''b'' \<mapsto> ''2''])\<rparr>"

definition demo_watch :: "nat \<Rightarrow> int \<Rightarrow> watch_response list" where
  "demo_watch i r =
     [\<lparr>wr_Canceled = False, wr_Events = h_events demo_history r, wr_Revision = r\<rparr>,
      \<lparr>wr_Canceled = True, wr_Events = [], wr_Revision = 0\<rparr>]"


text \<open>A watch whose resume point has been compacted away never recovers: every new channel is
  cancelled at once, the revision does not move, and the consumer is sent nothing, for as
  long as the loop runs; nor is it told.\<close>
theorem compacted_watch_starves:
  assumes "\<And>i. i \<ge> k \<Longrightarrow> \<exists>resp rest. watch i rv = resp # rest \<and> wr_Canceled resp"
  shows "rounds watch k n rv = ([], rv)"
  using assms
proof (induction n arbitrary: k)
  case (Suc n)
  from Suc.prems [of k] obtain resp rest where "watch k rv = resp # rest" "wr_Canceled resp" by auto
  with Suc.IH [of "Suc k"] Suc.prems show ?case by simp
qed simp

theorem compacted_watch_starves_witness:
  "rounds (\<lambda>_ _. [\<lparr>wr_Canceled = True, wr_Events = [], wr_Revision = 9\<rparr>]) 0 1000 5 = ([], 5)"
  by (rule compacted_watch_starves) simp

text \<open>A seed that cannot be read is left out: the keys that exist are not sent.\<close>

lemma unread_seed_left_out: "WatchPrefix None watch n = rounds watch 0 n 0"
  by (simp add: WatchPrefix_def seed_def)

text \<open>WithLock runs its function only under the lock and gives the lock back.\<close>

lemma WithLock_runs:
  "Lock s = Some s' \<Longrightarrow> WithLock Lock Unlock fn s = (fst (fn s'), Unlock (snd (fn s')))"
  "Lock s = None \<Longrightarrow> snd (WithLock Lock Unlock fn s) = s"
  by (simp_all add: WithLock_def case_prod_unfold Let_def)

lemma GetPrefix_all: "GetPrefix (Some (kvs, rv)) = Some kvs"
proof -
  have "fold (\<lambda>e out. out @ [\<lparr>kv_Key = kv_Key e, kv_Value = kv_Value e\<rparr>]) kvs out = out @ kvs" for out
    by (induction kvs arbitrary: out) simp_all
  then show ?thesis by (simp add: GetPrefix_def)
qed

end
