(* ===== verification/Registry.thy ===== *)
theory Registry
  imports Discovery Etcd "HOL-Library.DAList"
begin

text \<open>
  The registry of the fleet over time (master/discovery.go with etcd/client.go): oceans come
  up and register under a lease, change, take snapshots of themselves and put them whenever
  their goroutines get to it, and die; leases run out. Workers and other oceans read what is
  there at any moment. The behaviour of etcd that this relies on is \<open>etcd_ok\<close>.
\<close>

section \<open>Processes that register\<close>

text \<open>
  publishOcean and publishFleet take a snapshot under the mutex and put it afterwards; between
  the two other goroutines run. A publication is a snapshot that has not been put yet.
\<close>

datatype publication = PubOcean (snapshot: ocean) | is_fleet: PubFleet (snapshot: ocean)

fun publication_put :: "publication \<Rightarrow> (string \<times> json) option" where
  "publication_put (PubOcean oc) = publishOcean oc"
| "publication_put (PubFleet oc) = publishFleet oc"

definition put_publication :: "('e, json) etcd_server \<Rightarrow> int \<Rightarrow> publication \<Rightarrow> 'e \<Rightarrow> 'e" where
  "put_publication es lease p e =
     (case publication_put p of
        None \<Rightarrow> e
      | Some (k, v) \<Rightarrow> let (err, e) = Put es k v (Some lease) e in e)"

text \<open>
  An ocean that has registered: its state, its lease, whether it runs, its snapshots under
  way; and what the proofs keep track of: the states it has been in, and which snapshots
  (of itself: False, of its jobs: True) were the last to reach etcd.
\<close>

record node =
  nd_ocean :: ocean
  nd_lease :: int
  nd_up :: bool
  nd_pending :: "publication list"
  nd_past :: "ocean set"
  nd_shown :: "bool \<Rightarrow> publication option"

definition note_put :: "('e, json) etcd_server \<Rightarrow> publication \<Rightarrow> 'e \<Rightarrow> node \<Rightarrow> node" where
  "note_put es p e n =
     (if \<exists>k v. publication_put p = Some (k, v) \<and> es_key es e k = Some (v, Some (nd_lease n))
      then n\<lparr>nd_shown := (nd_shown n)(is_fleet p := Some p)\<rparr>
      else n)"

definition new_node :: "ocean \<Rightarrow> int \<Rightarrow> bool \<Rightarrow> node" where
  "new_node oc lease up =
     \<lparr>nd_ocean = oc, nd_lease = lease, nd_up = up, nd_pending = [], nd_past = {oc}, nd_shown = (\<lambda>_. None)\<rparr>"

text \<open>
  initDiscovery on etcd: grant, put, keep alive. Without a lease nothing else happens; when
  the keep-alive fails main ends the process, and what was put stays until the lease runs out.
\<close>

definition register_ocean :: "('e, json) etcd_server \<Rightarrow> int \<Rightarrow> ocean \<Rightarrow> 'e \<Rightarrow> node option \<times> 'e" where
  "register_ocean es ttl oc e =
     (let ((lease, err), e) = Grant es ttl e
      in if err then (None, e)
         else let e = put_publication es lease (PubOcean oc) e
              in (Some (note_put es (PubOcean oc) e (new_node oc lease (\<not> KeepAlive es lease e))), e))"

record 'e registry =
  rg_etcd :: 'e
  rg_nodes :: "node list"

text \<open>
  Steps: an ocean comes up; one of its operations; a snapshot (the goroutine of addWorker or
  removeWorker, or the ticker); a put, in any order; the end of a process; the end of a lease.
\<close>

inductive registry_step :: "('e, json) etcd_server \<Rightarrow> 'e registry \<Rightarrow> 'e registry \<Rightarrow> bool" for es where
  joined: "oc_discovery oc \<Longrightarrow> register_ocean es ttl oc (rg_etcd g) = (Some n, e) \<Longrightarrow>
    registry_step es g \<lparr>rg_etcd = e, rg_nodes = rg_nodes g @ [n]\<rparr>"
| acted: "i < length (rg_nodes g) \<Longrightarrow> rg_nodes g ! i = n \<Longrightarrow> nd_up n \<Longrightarrow> ocean_step True (nd_ocean n) oc' \<Longrightarrow>
    registry_step es g (g\<lparr>rg_nodes := (rg_nodes g)[i := n\<lparr>nd_ocean := oc', nd_past := insert oc' (nd_past n)\<rparr>]\<rparr>)"
| snapped: "i < length (rg_nodes g) \<Longrightarrow> rg_nodes g ! i = n \<Longrightarrow> nd_up n \<Longrightarrow> p \<in> {PubOcean (nd_ocean n), PubFleet (nd_ocean n)} \<Longrightarrow>
    registry_step es g (g\<lparr>rg_nodes := (rg_nodes g)[i := n\<lparr>nd_pending := p # nd_pending n\<rparr>]\<rparr>)"
| flushed: "i < length (rg_nodes g) \<Longrightarrow> rg_nodes g ! i = n \<Longrightarrow> nd_up n \<Longrightarrow> nd_pending n = ps @ p # qs \<Longrightarrow>
    put_publication es (nd_lease n) p (rg_etcd g) = e \<Longrightarrow>
    registry_step es g \<lparr>rg_etcd = e, rg_nodes = (rg_nodes g)[i := note_put es p e (n\<lparr>nd_pending := ps @ qs\<rparr>)]\<rparr>"
| died: "i < length (rg_nodes g) \<Longrightarrow> rg_nodes g ! i = n \<Longrightarrow>
    registry_step es g (g\<lparr>rg_nodes := (rg_nodes g)[i := n\<lparr>nd_up := False\<rparr>]\<rparr>)"
| expired: "registry_step es g (g\<lparr>rg_etcd := es_expire es l (rg_etcd g)\<rparr>)"

text \<open>At first nobody has registered.\<close>

definition ours :: "string \<Rightarrow> bool" where
  "ours k \<longleftrightarrow> take (length oceanPrefix) k = oceanPrefix \<or> take (length fleetPrefix) k = fleetPrefix"

definition registry_init :: "('e, json) etcd_server \<Rightarrow> 'e registry \<Rightarrow> bool" where
  "registry_init es g \<longleftrightarrow> rg_nodes g = [] \<and> (\<forall>k. ours k \<longrightarrow> es_key es (rg_etcd g) k = None) \<and>
     (\<forall>l. es_live es (rg_etcd g) l \<longrightarrow> es_granted es (rg_etcd g) l)"

text \<open>What a read of the registrations gives to those who decode it.\<close>

definition read_values :: "('e, json) etcd_server \<Rightarrow> string \<Rightarrow> 'e \<Rightarrow> kvs" where
  "read_values es pfx e = map_option (map (\<lambda>(k, v). Some v)) (es_Range es pfx e)"

section \<open>The invariant\<close>

text \<open>The operations of an ocean do not touch its identity.\<close>

lemma ocean_step_identity: "ocean_step r oc oc' \<Longrightarrow> \<exists>ws js. oc' = oc\<lparr>oc_workers := ws, oc_jobs := js\<rparr>"
proof (induction rule: ocean_step.induct)
  case (attach w oc ok oc')
  then have "oc' = oc\<lparr>oc_workers := oc_workers oc', oc_jobs := oc_jobs oc'\<rparr>"
    by (auto simp: addWorker_def split: if_splits)
  then show ?case by blast
next
  case (detach oc i)
  have "removeWorker i oc = oc\<lparr>oc_workers := oc_workers (removeWorker i oc), oc_jobs := oc_jobs (removeWorker i oc)\<rparr>"
    by (simp add: removeWorker_def split: option.split)
  then show ?case by blast
next
  case (report oc i m)
  have "onReport i m oc = oc\<lparr>oc_workers := oc_workers (onReport i m oc), oc_jobs := oc_jobs oc\<rparr>"
    by (simp add: onReport_def)
  then show ?case by blast
next
  case (sample oc i jb s)
  have "onSample i jb s oc = oc\<lparr>oc_workers := oc_workers (onSample i jb s oc), oc_jobs := oc_jobs oc\<rparr>"
    by (simp add: onSample_def)
  then show ?case by blast
next
  case (drained oc i)
  have "drain i oc = oc\<lparr>oc_workers := oc_workers (drain i oc), oc_jobs := oc_jobs oc\<rparr>"
    by (simp add: drain_def)
  then show ?case by blast
next
  case (start db c oc e oc')
  then have "oc' = oc\<lparr>oc_workers := oc_workers oc', oc_jobs := oc_jobs oc'\<rparr>"
    by (auto simp: start_job_def Let_def split: if_splits option.splits)
  then show ?case by blast
next
  case (stop n oc e oc')
  then have "oc' = oc\<lparr>oc_workers := oc_workers oc', oc_jobs := oc_jobs oc'\<rparr>"
    by (auto simp: stop_job_def Let_def split: option.splits)
  then show ?case by blast
next
  case (pause n oc e oc')
  then have "oc' = oc\<lparr>oc_workers := oc_workers oc', oc_jobs := oc_jobs oc'\<rparr>"
    by (auto simp: pause_job_def Let_def split: option.splits)
  then show ?case by blast
next
  case (resume db n oc e oc')
  then have "oc' = oc\<lparr>oc_workers := oc_workers oc', oc_jobs := oc_jobs oc'\<rparr>"
    by (auto simp: resume_job_def Let_def split: option.splits sum.splits prod.splits)
  then show ?case by blast
qed blast

lemma ocean_step_id [simp]:
  "ocean_step r oc oc' \<Longrightarrow> oc_id oc' = oc_id oc" "ocean_step r oc oc' \<Longrightarrow> oc_discovery oc' = oc_discovery oc"
  by (auto dest: ocean_step_identity)

definition node_id :: "node \<Rightarrow> string" where
  "node_id n = oc_id (nd_ocean n)"

lemma node_id_frame [simp]:
  "node_id (n\<lparr>nd_shown := s\<rparr>) = node_id n" "node_id (n\<lparr>nd_pending := ps\<rparr>) = node_id n"
  "node_id (n\<lparr>nd_up := u\<rparr>) = node_id n" "node_id (n\<lparr>nd_past := q\<rparr>) = node_id n"
  by (simp_all add: node_id_def)

definition node_ok :: "('e, json) etcd_server \<Rightarrow> 'e \<Rightarrow> node \<Rightarrow> bool" where
  "node_ok es e n \<longleftrightarrow> nd_ocean n \<in> nd_past n \<and>
     (\<forall>oc\<in>nd_past n. oc_id oc = node_id n \<and> oc_discovery oc) \<and>
     snapshot ` set (nd_pending n) \<subseteq> nd_past n \<and>
     (\<forall>f p. nd_shown n f = Some p \<longrightarrow> is_fleet p = f \<and> snapshot p \<in> nd_past n) \<and>
     es_granted es e (nd_lease n)"

text \<open>
  What is under the keys of the registry belongs to a process whose lease lives, and is what
  that process showed last; where the ids differ, what a process with a living lease showed
  last is there.
\<close>

definition owned :: "('e, json) etcd_server \<Rightarrow> 'e \<Rightarrow> string \<Rightarrow> json \<Rightarrow> int option \<Rightarrow> node \<Rightarrow> bool" where
  "owned es e k v b n \<longleftrightarrow> (\<exists>f p. nd_shown n f = Some p \<and> publication_put p = Some (k, v)) \<and>
     b = Some (nd_lease n) \<and> es_live es e (nd_lease n)"

definition keys_owned :: "('e, json) etcd_server \<Rightarrow> 'e \<Rightarrow> node list \<Rightarrow> bool" where
  "keys_owned es e ns \<longleftrightarrow>
     (\<forall>k v b. ours k \<longrightarrow> es_key es e k = Some (v, b) \<longrightarrow> (\<exists>n\<in>set ns. owned es e k v b n))"

definition shown_there :: "('e, json) etcd_server \<Rightarrow> 'e \<Rightarrow> node \<Rightarrow> bool" where
  "shown_there es e n \<longleftrightarrow> (\<forall>f p k v. es_live es e (nd_lease n) \<longrightarrow> nd_shown n f = Some p \<longrightarrow>
     publication_put p = Some (k, v) \<longrightarrow> es_key es e k = Some (v, Some (nd_lease n)))"

definition registry_ok :: "('e, json) etcd_server \<Rightarrow> 'e registry \<Rightarrow> bool" where
  "registry_ok es g \<longleftrightarrow>
     (\<forall>n\<in>set (rg_nodes g). node_ok es (rg_etcd g) n) \<and> distinct (map nd_lease (rg_nodes g)) \<and>
     (\<forall>l. es_live es (rg_etcd g) l \<longrightarrow> es_granted es (rg_etcd g) l) \<and>
     keys_owned es (rg_etcd g) (rg_nodes g) \<and>
     (distinct (map node_id (rg_nodes g)) \<longrightarrow> (\<forall>n\<in>set (rg_nodes g). shown_there es (rg_etcd g) n))"

lemma registry_okI:
  assumes "\<And>n. n \<in> set ns \<Longrightarrow> node_ok es e n" and "distinct (map nd_lease ns)"
    and "\<And>l. es_live es e l \<Longrightarrow> es_granted es e l"
    and "\<And>k v b. ours k \<Longrightarrow> es_key es e k = Some (v, b) \<Longrightarrow> \<exists>n\<in>set ns. owned es e k v b n"
    and "\<And>n. distinct (map node_id ns) \<Longrightarrow> n \<in> set ns \<Longrightarrow> shown_there es e n"
  shows "registry_ok es \<lparr>rg_etcd = e, rg_nodes = ns\<rparr>"
  unfolding registry_ok_def keys_owned_def registry.simps using assms by blast

lemma registry_okD:
  assumes "registry_ok es g"
  shows "n \<in> set (rg_nodes g) \<Longrightarrow> node_ok es (rg_etcd g) n"
    and "distinct (map nd_lease (rg_nodes g))"
    and "es_live es (rg_etcd g) l \<Longrightarrow> es_granted es (rg_etcd g) l"
    and "ours k \<Longrightarrow> es_key es (rg_etcd g) k = Some (v, b) \<Longrightarrow> \<exists>n\<in>set (rg_nodes g). owned es (rg_etcd g) k v b n"
    and "distinct (map node_id (rg_nodes g)) \<Longrightarrow> n \<in> set (rg_nodes g) \<Longrightarrow> shown_there es (rg_etcd g) n"
  using assms unfolding registry_ok_def keys_owned_def by blast+

text \<open>The key of a publication is made of its kind and of the ocean's id, and nothing else.\<close>

definition pub_key :: "bool \<Rightarrow> string \<Rightarrow> string" where
  "pub_key f i = (if f then fleetPrefix else oceanPrefix) @ i"

definition pub_json :: "publication \<Rightarrow> json" where
  "pub_json p = (if is_fleet p then fleet_json (fleet_of (snapshot p)) else reg_json (ocean_registration (snapshot p)))"

lemma publication_put_eq:
  "oc_discovery (snapshot p) \<Longrightarrow> publication_put p = Some (pub_key (is_fleet p) (oc_id (snapshot p)), pub_json p)"
  by (cases p) (simp_all add: publishOcean_def publishFleet_def pub_key_def pub_json_def)

lemma publication_put_Some:
  "publication_put p = Some (k, v) \<Longrightarrow> k = pub_key (is_fleet p) (oc_id (snapshot p)) \<and> v = pub_json p"
  by (cases p) (auto simp: publishOcean_def publishFleet_def pub_key_def pub_json_def split: if_splits)

lemma pub_key_inj: "pub_key f i = pub_key f' i' \<longleftrightarrow> f = f' \<and> i = i'"
  by (simp add: pub_key_def oceanPrefix_def fleetPrefix_def)

lemma pub_key_ours [simp]: "ours (pub_key f i)"
  by (simp add: ours_def pub_key_def)

lemma distinct_nodes:
  "distinct (map f ns) \<Longrightarrow> n \<in> set ns \<Longrightarrow> n' \<in> set ns \<Longrightarrow> f n = f n' \<Longrightarrow> n = n'"
  by (metis distinct_map inj_onD)

text \<open>Replacing one process of the list.\<close>

lemma set_replaced:
  assumes "i < length ns" and "ns ! i = n"
  shows "m \<in> set (ns[i := n']) \<Longrightarrow> m = n' \<or> m \<in> set ns"
    and "n' \<in> set (ns[i := n'])" and "m \<in> set ns \<Longrightarrow> m = n \<or> m \<in> set (ns[i := n'])"
    and "f n' = f n \<Longrightarrow> map f (ns[i := n']) = map f ns"
proof -
  show "m \<in> set (ns[i := n']) \<Longrightarrow> m = n' \<or> m \<in> set ns" using set_update_subset_insert by fastforce
  show "n' \<in> set (ns[i := n'])" using assms(1) by (rule set_update_memI)
  show "m \<in> set ns \<Longrightarrow> m = n \<or> m \<in> set (ns[i := n'])"
    using assms by (metis in_set_conv_nth length_list_update nth_list_update_neq)
  show "f n' = f n \<Longrightarrow> map f (ns[i := n']) = map f ns" using assms by (metis list_update_id map_update)
qed

text \<open>A step of one process that leaves its lease, its identity and what it shows.\<close>

lemma keep_node:
  assumes ok: "registry_ok es g" and i: "i < length (rg_nodes g)" "rg_nodes g ! i = n"
    and n': "node_ok es (rg_etcd g) n'" "nd_lease n' = nd_lease n" "node_id n' = node_id n" "nd_shown n' = nd_shown n"
  shows "registry_ok es (g\<lparr>rg_nodes := (rg_nodes g)[i := n']\<rparr>)"
proof -
  let ?e = "rg_etcd g" and ?ns = "(rg_nodes g)[i := n']"
  note R = set_replaced [OF i, where n' = n']
  have n: "n \<in> set (rg_nodes g)" using i by auto
  have same: "owned es ?e k v b n' = owned es ?e k v b n" "shown_there es ?e n' = shown_there es ?e n" for k v b
    using n' by (simp_all add: owned_def shown_there_def)
  have "registry_ok es \<lparr>rg_etcd = ?e, rg_nodes = ?ns\<rparr>"
  proof (rule registry_okI)
    show "node_ok es ?e m" if "m \<in> set ?ns" for m using R(1) [OF that] n'(1) registry_okD(1) [OF ok] by auto
    show "distinct (map nd_lease ?ns)" using registry_okD(2) [OF ok] R(4) [of nd_lease] n'(2) by simp
    show "es_granted es ?e l" if "es_live es ?e l" for l using registry_okD(3) [OF ok that] .
    show "\<exists>m\<in>set ?ns. owned es ?e k v b m" if "ours k" "es_key es ?e k = Some (v, b)" for k v b
      using registry_okD(4) [OF ok that] R(2,3) same(1) by blast
    show "shown_there es ?e m" if "distinct (map node_id ?ns)" "m \<in> set ?ns" for m
      using registry_okD(5) [OF ok] that R(1,4) n'(3) n same(2) by metis
  qed
  then show ?thesis by (cases g) simp
qed

text \<open>A process that is new shows nothing yet.\<close>

lemma node_ok_mono:
  "node_ok es e n \<Longrightarrow> (\<And>l. es_granted es e l \<Longrightarrow> es_granted es e' l) \<Longrightarrow> node_ok es e' n"
  unfolding node_ok_def by blast

lemma node_ok_shown: "node_ok es e n \<Longrightarrow> nd_shown n f = Some p \<Longrightarrow> is_fleet p = f \<and> snapshot p \<in> nd_past n"
  unfolding node_ok_def by blast

lemma new_node_ok: "oc_discovery oc \<Longrightarrow> es_granted es e l \<Longrightarrow> node_ok es e (new_node oc l up)"
  by (simp add: node_ok_def new_node_def node_id_def)

lemma add_node:
  assumes ok: "registry_ok es g" and etcd: "etcd_ok es" and grant: "Grant es ttl (rg_etcd g) = ((l, False), e)"
    and oc: "oc_discovery oc"
  shows "registry_ok es \<lparr>rg_etcd = e, rg_nodes = rg_nodes g @ [new_node oc l up]\<rparr>"
proof (rule registry_okI)
  let ?n = "new_node oc l up" and ?ns = "rg_nodes g @ [new_node oc l up]"
  note G = Grant_effect [OF etcd grant]
  have fresh: "nd_lease m \<noteq> l" if "m \<in> set (rg_nodes g)" for m
    using registry_okD(1) [OF ok that] G(1) by (auto simp: node_ok_def)
  have n: "nd_lease ?n = l" "nd_shown ?n f = None" for f by (simp_all add: new_node_def)
  have live: "es_live es e (nd_lease m) = es_live es (rg_etcd g) (nd_lease m)" if "m \<in> set (rg_nodes g)" for m
    using fresh [OF that] G(3) by simp
  show "node_ok es e m" if "m \<in> set ?ns" for m
  proof (cases "m = ?n")
    case True
    with G(4) show ?thesis by (simp add: new_node_ok [OF oc])
  next
    case False
    with that have "node_ok es (rg_etcd g) m" using registry_okD(1) [OF ok] by simp
    then show ?thesis by (rule node_ok_mono) (simp add: G(4))
  qed
  show "distinct (map nd_lease ?ns)" using registry_okD(2) [OF ok] fresh n by auto
  show "es_granted es e l'" if "es_live es e l'" for l'
    using that registry_okD(3) [OF ok, of l'] by (cases "l' = l") (simp_all add: G(3,4))
  show "\<exists>m\<in>set ?ns. owned es e k v b m" if k: "ours k" "es_key es e k = Some (v, b)" for k v b
  proof -
    obtain m where m: "m \<in> set (rg_nodes g)" "owned es (rg_etcd g) k v b m"
      using registry_okD(4) [OF ok k(1)] k(2) G(2) by auto
    then have "owned es e k v b m" by (simp add: owned_def live)
    with m(1) show ?thesis by auto
  qed
  show "shown_there es e m" if "distinct (map node_id ?ns)" "m \<in> set ?ns" for m
  proof (cases "m = ?n")
    case True
    then show ?thesis by (simp add: shown_there_def n)
  next
    case False
    with that have m: "m \<in> set (rg_nodes g)" by simp
    with registry_okD(5) [OF ok] that(1) have "shown_there es (rg_etcd g) m" by simp
    then show ?thesis by (simp add: shown_there_def live [OF m] G(2))
  qed
qed

text \<open>A put: whatever the call returns, what the process shows is what is there.\<close>

lemma note_put_simps [simp]:
  "nd_lease (note_put es p e n) = nd_lease n" "nd_ocean (note_put es p e n) = nd_ocean n"
  "nd_past (note_put es p e n) = nd_past n" "nd_pending (note_put es p e n) = nd_pending n"
  "nd_up (note_put es p e n) = nd_up n" "node_id (note_put es p e n) = node_id n"
  by (simp_all add: note_put_def node_id_def)


lemma put_publication_effect:
  assumes "etcd_ok es" and "publication_put p = Some (k, v)" and "put_publication es l p e = e'"
  shows "written es k v l e e' \<or> untouched es e e'"
  using assms(3) Put_effect [OF assms(1), of k v l e] unfolding put_publication_def assms(2)
  by (cases "Put es k v (Some l) e") auto

lemma registry_ok_untouched:
  assumes "untouched es (rg_etcd g) e" and "registry_ok es g"
  shows "registry_ok es \<lparr>rg_etcd = e, rg_nodes = rg_nodes g\<rparr>"
proof -
  have same: "es_key es e = es_key es (rg_etcd g)" "es_live es e = es_live es (rg_etcd g)"
    "es_granted es e = es_granted es (rg_etcd g)"
    using assms(1) by (simp_all add: untouched_def)
  have "registry_ok es \<lparr>rg_etcd = e, rg_nodes = rg_nodes g\<rparr> = registry_ok es g"
    unfolding registry_ok_def keys_owned_def owned_def shown_there_def node_ok_def registry.simps same by (rule refl)
  with assms(2) show ?thesis by simp
qed

lemma put_node:
  assumes ok: "registry_ok es g" and etcd: "etcd_ok es" and i: "i < length (rg_nodes g)" "rg_nodes g ! i = n"
    and snap: "snapshot p \<in> nd_past n" and put: "put_publication es (nd_lease n) p (rg_etcd g) = e"
  shows "registry_ok es \<lparr>rg_etcd = e, rg_nodes = (rg_nodes g)[i := note_put es p e n]\<rparr>"
proof -
  let ?n = "note_put es p e n" and ?ns = "(rg_nodes g)[i := note_put es p e n]"
  note R = set_replaced [OF i, where n' = ?n]
  have n: "n \<in> set (rg_nodes g)" using i by auto
  note nok = registry_okD(1) [OF ok n]
  have "oc_discovery (snapshot p)" using nok snap by (simp add: node_ok_def)
  then obtain k v where kv: "publication_put p = Some (k, v)" "k = pub_key (is_fleet p) (oc_id (snapshot p))"
    using publication_put_eq by blast
  note E = put_publication_effect [OF etcd kv(1) put]
  then have obs: "es_live es e = es_live es (rg_etcd g)" "es_granted es e = es_granted es (rg_etcd g)"
    by (auto simp: written_def untouched_def)
  show ?thesis
  proof (cases "es_key es e k = Some (v, Some (nd_lease n))")
    case False
    with E have "untouched es (rg_etcd g) e" by (auto simp: written_def)
    moreover have "?ns = rg_nodes g" using False kv(1) i by (auto simp: note_put_def)
    ultimately show ?thesis using registry_ok_untouched ok by simp
  next
    case True
    have live: "es_live es (rg_etcd g) (nd_lease n)"
      using E True registry_okD(4) [OF ok, of k v "Some (nd_lease n)"] kv(2)
      by (auto simp: written_def untouched_def owned_def)
    have key: "es_key es e = (es_key es (rg_etcd g))(k \<mapsto> (v, Some (nd_lease n)))"
      using E True by (auto simp: written_def untouched_def fun_eq_iff)
    have shown: "?n = n\<lparr>nd_shown := (nd_shown n)(is_fleet p := Some p)\<rparr>"
      using True kv(1) by (auto simp: note_put_def)
    show ?thesis
    proof (rule registry_okI)
      have "node_ok es (rg_etcd g) ?n" using nok snap by (simp add: node_ok_def shown)
      then have "node_ok es e ?n" by (rule node_ok_mono) (simp add: obs)
      moreover have "node_ok es e m" if "m \<in> set (rg_nodes g)" for m
        using node_ok_mono [OF registry_okD(1) [OF ok that]] obs by simp
      ultimately show "node_ok es e m" if "m \<in> set ?ns" for m using R(1) [OF that] by blast
      show "distinct (map nd_lease ?ns)" using registry_okD(2) [OF ok] R(4) [of nd_lease] by simp
      show "es_granted es e l" if "es_live es e l" for l using that registry_okD(3) [OF ok, of l] obs by simp
    next
      fix k' v' b assume k': "ours k'" "es_key es e k' = Some (v', b)"
      show "\<exists>m\<in>set ?ns. owned es e k' v' b m"
      proof (cases "k' = k")
        case True
        have "nd_shown ?n (is_fleet p) = Some p" by (simp add: shown)
        with True k'(2) key kv(1) live obs have "owned es e k' v' b ?n" by (auto simp: owned_def)
        with R(2) show ?thesis by blast
      next
        case False
        with k' key obtain m where m: "m \<in> set (rg_nodes g)" "owned es (rg_etcd g) k' v' b m"
          using registry_okD(4) [OF ok k'(1)] by auto
        show ?thesis
        proof (cases "m = n")
          case True
          with m(2) obtain f q where q: "nd_shown n f = Some q" "publication_put q = Some (k', v')" by (auto simp: owned_def)
          have "f \<noteq> is_fleet p"
          proof
            assume "f = is_fleet p"
            moreover have "is_fleet q = f" "oc_id (snapshot q) = oc_id (snapshot p)"
              using nok q(1) snap by (auto simp: node_ok_def)
            ultimately have "k' = k" using publication_put_Some [OF q(2)] kv(2) by simp
            with False show False by simp
          qed
          with q(1) have "nd_shown ?n f = Some q" by (simp add: shown)
          with m(2) True q(2) obs have "owned es e k' v' b ?n" by (auto simp: owned_def)
          with R(2) show ?thesis by blast
        next
          case False
          have "owned es e k' v' b m" using m(2) obs by (simp add: owned_def)
          with R(3) [OF m(1)] False show ?thesis by blast
        qed
      qed
    next
      fix m assume d: "distinct (map node_id ?ns)" and m: "m \<in> set ?ns"
      have d': "distinct (map node_id (rg_nodes g))" using d R(4) [of node_id] by simp
      show "shown_there es e m"
        unfolding shown_there_def
      proof (intro allI impI)
        fix f q k' v' assume q: "es_live es e (nd_lease m)" "nd_shown m f = Some q" "publication_put q = Some (k', v')"
        show "es_key es e k' = Some (v', Some (nd_lease m))"
        proof (cases "m = ?n \<and> f = is_fleet p")
          case True
          with q(2) have "q = p" by (simp add: shown)
          with q(3) kv(1) key True show ?thesis by simp
        next
          case False
          obtain m0 where m0: "m0 \<in> set (rg_nodes g)" "nd_lease m0 = nd_lease m" "nd_shown m0 f = Some q" "node_id m0 = node_id m"
          proof (cases "m = ?n")
            case True
            with False q(2) have "nd_shown n f = Some q" by (simp add: shown split: if_splits)
            with that [of n] n True show thesis by simp
          next
            case False
            with that [of m] R(1) [OF m] q(2) show thesis by simp
          qed
          have ids: "oc_id (snapshot q) = node_id m" "oc_id (snapshot p) = node_id n" "is_fleet q = f"
            using registry_okD(1) [OF ok m0(1)] m0(3,4) nok snap by (simp_all add: node_ok_def)
          have "k' \<noteq> k"
          proof
            assume "k' = k"
            then have "f = is_fleet p" "node_id m = node_id ?n"
              using publication_put_Some [OF q(3)] kv(2) ids by (auto simp: pub_key_inj)
            with False distinct_nodes [OF d m R(2)] show False by simp
          qed
          moreover have "es_key es (rg_etcd g) k' = Some (v', Some (nd_lease m))"
            using registry_okD(5) [OF ok d' m0(1)] m0 q(1,3) obs by (auto simp: shown_there_def)
          ultimately show ?thesis by (simp add: key)
        qed
      qed
    qed
  qed
qed


lemma expire_nodes:
  assumes ok: "registry_ok es g" and etcd: "etcd_ok es"
  shows "registry_ok es (g\<lparr>rg_etcd := es_expire es l (rg_etcd g)\<rparr>)"
proof -
  let ?e = "es_expire es l (rg_etcd g)"
  note X = expire_effect [OF etcd]
  have key: "es_key es ?e k = Some (v, b) \<longleftrightarrow> es_key es (rg_etcd g) k = Some (v, b) \<and> b \<noteq> Some l" for k v b
    unfolding X(1) keys_without_def by (auto split: option.splits prod.splits)
  have "registry_ok es \<lparr>rg_etcd = ?e, rg_nodes = rg_nodes g\<rparr>"
  proof (rule registry_okI)
    show "node_ok es ?e n" if "n \<in> set (rg_nodes g)" for n
      using node_ok_mono [OF registry_okD(1) [OF ok that]] X(3) by simp
    show "es_granted es ?e l'" if "es_live es ?e l'" for l'
      using that registry_okD(3) [OF ok, of l'] by (auto simp: X(2,3) split: if_splits)
    show "\<exists>n\<in>set (rg_nodes g). owned es ?e k v b n" if "ours k" "es_key es ?e k = Some (v, b)" for k v b
      using registry_okD(4) [OF ok that(1)] that(2) by (auto simp: key owned_def X(2))
    show "shown_there es ?e n" if "distinct (map node_id (rg_nodes g))" "n \<in> set (rg_nodes g)" for n
      using registry_okD(5) [OF ok that] by (auto simp: shown_there_def key X(2))
  qed (rule registry_okD(2) [OF ok])
  then show ?thesis by (cases g) simp
qed

lemma register_step:
  assumes ok: "registry_ok es g" and etcd: "etcd_ok es" and oc: "oc_discovery oc"
    and reg: "register_ocean es ttl oc (rg_etcd g) = (Some n, e)"
  shows "registry_ok es \<lparr>rg_etcd = e, rg_nodes = rg_nodes g @ [n]\<rparr>"
proof -
  obtain l e1 where grant: "Grant es ttl (rg_etcd g) = ((l, False), e1)" and e: "e = put_publication es l (PubOcean oc) e1"
    and n: "n = note_put es (PubOcean oc) e (new_node oc l (\<not> KeepAlive es l e))"
    using reg by (auto simp: register_ocean_def Let_def split: prod.splits if_splits)
  let ?n = "new_node oc l (\<not> KeepAlive es l e)" and ?k = "length (rg_nodes g)"
  have "registry_ok es \<lparr>rg_etcd = e1, rg_nodes = rg_nodes g @ [?n]\<rparr>" by (rule add_node [OF ok etcd grant oc])
  from put_node [OF this etcd, of ?k ?n "PubOcean oc" e] show ?thesis
    by (simp add: n) (simp add: e new_node_def)
qed

lemma registry_step_ok: "registry_step es g g' \<Longrightarrow> etcd_ok es \<Longrightarrow> registry_ok es g \<Longrightarrow> registry_ok es g'"
proof (induction rule: registry_step.induct)
  case (joined oc ttl g n e)
  then show ?case by (intro register_step)
next
  case (acted i g n oc')
  let ?n = "n\<lparr>nd_ocean := oc', nd_past := insert oc' (nd_past n)\<rparr>"
  have nok: "node_ok es (rg_etcd g) n" using acted registry_okD(1) nth_mem by metis
  have nid: "node_id ?n = node_id n" using ocean_step_id(1) [OF acted(4)] by (simp add: node_id_def)
  have new: "oc_id oc' = node_id n" "oc_discovery oc'"
    using ocean_step_id [OF acted(4)] nok unfolding node_ok_def node_id_def by blast+
  have "node_ok es (rg_etcd g) ?n" using nok new unfolding node_ok_def nid by auto
  then show ?case using acted(1,2,6) nid keep_node [of es g i n ?n] acted(5) by simp
next
  case (snapped i g n p)
  then have "node_ok es (rg_etcd g) n" using registry_okD(1) nth_mem by metis
  with snapped(4) have "node_ok es (rg_etcd g) (n\<lparr>nd_pending := p # nd_pending n\<rparr>)" by (auto simp: node_ok_def)
  with snapped show ?case by (intro keep_node) simp_all
next
  case (flushed i g n ps p qs e)
  then have nok: "node_ok es (rg_etcd g) n" using registry_okD(1) nth_mem by metis
  with flushed(4) have less: "node_ok es (rg_etcd g) (n\<lparr>nd_pending := ps @ qs\<rparr>)" "snapshot p \<in> nd_past n"
    by (auto simp: node_ok_def)
  let ?n = "n\<lparr>nd_pending := ps @ qs\<rparr>"
  have "registry_ok es (g\<lparr>rg_nodes := (rg_nodes g)[i := ?n]\<rparr>)"
    using flushed less by (intro keep_node) simp_all
  from put_node [OF this flushed(6), of i ?n p e] flushed less(2) show ?case by simp
next
  case (died i g n)
  then have "node_ok es (rg_etcd g) n" using registry_okD(1) nth_mem by metis
  then have "node_ok es (rg_etcd g) (n\<lparr>nd_up := False\<rparr>)" by (simp add: node_ok_def)
  with died show ?case by (intro keep_node) simp_all
next
  case (expired g l)
  then show ?case by (intro expire_nodes)
qed

lemma put_keeps_live:
  assumes "etcd_ok es"
  shows "es_live es (put_publication es l p e) = es_live es e"
proof (cases "publication_put p")
  case (Some kv)
  obtain k v where kv: "kv = (k, v)" by force
  from put_publication_effect [OF assms Some [unfolded kv] refl] show ?thesis
    by (auto simp: written_def untouched_def)
qed (simp add: put_publication_def)

lemma step_keeps_lost:
  "registry_step es g g' \<Longrightarrow> etcd_ok es \<Longrightarrow> registry_ok es g \<Longrightarrow> es_granted es (rg_etcd g) l \<Longrightarrow>
   \<not> es_live es (rg_etcd g) l \<Longrightarrow> \<not> es_live es (rg_etcd g') l"
proof (induction rule: registry_step.induct)
  case (joined oc ttl g n e)
  then obtain l' e1 where grant: "Grant es ttl (rg_etcd g) = ((l', False), e1)" and e: "e = put_publication es l' (PubOcean oc) e1"
    by (auto simp: register_ocean_def Let_def split: prod.splits if_splits)
  note G = Grant_effect [OF joined(3) grant]
  have "l \<noteq> l'" using G(1) joined(5) by auto
  then show ?case using joined(6) by (simp add: e put_keeps_live [OF joined(3)] G(3))
next
  case (flushed i g n ps p qs e)
  then show ?case using put_keeps_live [OF flushed(6)] by auto
next
  case (expired g l')
  then show ?case using expire_effect(2) [OF expired(1)] by simp
qed simp_all

lemma replaced_keeps:
  assumes "i < length ns" and "ns ! i = m" and "n \<in> set ns" and "nd_lease m' = nd_lease m" and "node_id m' = node_id m"
  shows "\<exists>n'\<in>set (ns[i := m']). nd_lease n' = nd_lease n \<and> node_id n' = node_id n"
  using set_replaced(2) [OF assms(1,2), of m'] set_replaced(3) [OF assms(1-3), of m'] assms(4,5) by auto

lemma step_keeps_nodes:
  "registry_step es g g' \<Longrightarrow> n \<in> set (rg_nodes g) \<Longrightarrow> \<exists>n'\<in>set (rg_nodes g'). nd_lease n' = nd_lease n \<and> node_id n' = node_id n"
proof (induction rule: registry_step.induct)
  case (acted i g m oc')
  have "node_id (m\<lparr>nd_ocean := oc', nd_past := insert oc' (nd_past m)\<rparr>) = node_id m"
    using ocean_step_id(1) [OF acted(4)] by (simp add: node_id_def)
  with replaced_keeps [OF acted(1,2,5)] show ?case by simp
next
  case (snapped i g m p)
  with replaced_keeps [OF snapped(1,2,5)] show ?case by simp
next
  case (flushed i g m ps p qs e)
  with replaced_keeps [OF flushed(1,2,6)] show ?case by simp
next
  case (died i g m)
  with replaced_keeps [OF died(1,2,3)] show ?case by simp
qed auto

lemma registry_init_ok: "registry_init es g \<Longrightarrow> registry_ok es g"
  by (auto simp: registry_init_def registry_ok_def keys_owned_def)

interpretation rgy: machine "registry_init es" "registry_step es" "\<lambda>g. etcd_ok es \<longrightarrow> registry_ok es g" for es
  by unfold_locales (auto intro: registry_init_ok registry_step_ok)


text \<open>A lease that has run out never lives again: it is never granted a second time.\<close>

lemma lease_stays_lost:
  assumes etcd: "etcd_ok es" and run: "(registry_step es)\<^sup>*\<^sup>* g g'" and ok: "registry_ok es g"
    and n: "n \<in> set (rg_nodes g)" and lost: "\<not> es_live es (rg_etcd g) (nd_lease n)"
  shows "\<exists>n'\<in>set (rg_nodes g'). nd_lease n' = nd_lease n \<and> node_id n' = node_id n \<and>
    \<not> es_live es (rg_etcd g') (nd_lease n)"
  using run
proof (induction rule: rtranclp_induct)
  case base
  with n lost show ?case by blast
next
  case (step h h')
  from step(3) obtain m where m: "m \<in> set (rg_nodes h)" "nd_lease m = nd_lease n" "node_id m = node_id n"
    "\<not> es_live es (rg_etcd h) (nd_lease n)" by blast
  have okh: "registry_ok es h" using rgy.inv_steps [OF _ step(1)] ok etcd by blast
  have "es_granted es (rg_etcd h) (nd_lease n)" using registry_okD(1) [OF okh m(1)] m(2) by (simp add: node_ok_def)
  from step_keeps_lost [OF step(2) etcd okh this m(4)] step_keeps_nodes [OF step(2) m(1)] m(2,3)
  show ?case by metis
qed

section \<open>What a reader sees\<close>

text \<open>The last snapshots of themselves that oceans with a living lease brought to etcd.\<close>

definition shown_by :: "('e, json) etcd_server \<Rightarrow> 'e registry \<Rightarrow> node \<Rightarrow> ocean \<Rightarrow> bool" where
  "shown_by es g n oc \<longleftrightarrow> n \<in> set (rg_nodes g) \<and> es_live es (rg_etcd g) (nd_lease n) \<and>
     nd_shown n False = Some (PubOcean oc)"

definition proper_oceans :: "'e registry \<Rightarrow> bool" where
  "proper_oceans g \<longleftrightarrow> (\<forall>n\<in>set (rg_nodes g). node_id n \<noteq> [] \<and> (\<forall>oc\<in>nd_past n. reg_ok (ocean_registration oc)))"

lemma registration_id [simp]: "o_ID (ocean_registration oc) = oc_id oc"
  by (simp add: ocean_registration_def Let_def)

lemma shown_past:
  assumes "registry_ok es g" and "shown_by es g n oc"
  shows "oc \<in> nd_past n" and "oc_id oc = node_id n" and "publication_put (PubOcean oc) = Some (oceanPrefix @ node_id n, reg_json (ocean_registration oc))"
proof -
  have nok: "node_ok es (rg_etcd g) n" using registry_okD(1) [OF assms(1)] assms(2) by (simp add: shown_by_def)
  then show oc: "oc \<in> nd_past n" using node_ok_shown [of es _ n False "PubOcean oc"] assms(2) by (simp add: shown_by_def)
  with nok have "oc_id oc = node_id n" "oc_discovery oc" by (auto simp: node_ok_def)
  then show "oc_id oc = node_id n" "publication_put (PubOcean oc) = Some (oceanPrefix @ node_id n, reg_json (ocean_registration oc))"
    by (simp_all add: publishOcean_def)
qed

lemma range_entry:
  assumes ok: "registry_ok es g" and etcd: "etcd_ok es" and read: "es_Range es oceanPrefix (rg_etcd g) = Some kvs"
    and kv: "(k, v) \<in> set kvs"
  obtains n oc where "shown_by es g n oc" and "k = oceanPrefix @ node_id n" and "v = reg_json (ocean_registration oc)"
proof -
  obtain b where k: "take (length oceanPrefix) k = oceanPrefix" "es_key es (rg_etcd g) k = Some (v, b)"
    using Range_effect(2) [OF etcd read] kv by blast
  then have "ours k" by (simp add: ours_def)
  with registry_okD(4) [OF ok this k(2)] obtain n f p where n: "n \<in> set (rg_nodes g)" "nd_shown n f = Some p"
    "publication_put p = Some (k, v)" "es_live es (rg_etcd g) (nd_lease n)" by (auto simp: owned_def)
  note nok = registry_okD(1) [OF ok n(1)]
  have f: "is_fleet p = f" "oc_id (snapshot p) = node_id n" using nok n(2) by (auto simp: node_ok_def)
  note kp = publication_put_Some [OF n(3)]
  have "\<not> f" using k(1) kp f(1) by (auto simp: pub_key_def oceanPrefix_def fleetPrefix_def)
  with f obtain oc where p: "p = PubOcean oc" by (cases p) auto
  show thesis
    by (rule that [of n oc]) (use n kp f \<open>\<not> f\<close> p in \<open>auto simp: shown_by_def pub_key_def pub_json_def\<close>)
qed

lemma allOceans_map:
  assumes "\<And>k v. (k, v) \<in> set kvs \<Longrightarrow> \<exists>r. unmarshal reg_fields zero_reg v = Some r \<and> o_ID r \<noteq> []"
  shows "allOceans True (Some (map (\<lambda>(k, v). Some v) kvs)) = map (\<lambda>(k, v). the (unmarshal reg_fields zero_reg v)) kvs"
  using assms
proof (induction kvs)
  case (Cons kv kvs)
  obtain k v where kv: "kv = (k, v)" by force
  with Cons.prems obtain r where r: "unmarshal reg_fields zero_reg v = Some r" "o_ID r \<noteq> []" by auto
  from Cons.prems have "\<And>k v. (k, v) \<in> set kvs \<Longrightarrow> \<exists>r. unmarshal reg_fields zero_reg v = Some r \<and> o_ID r \<noteq> []"
    by (meson list.set_intros(2))
  with Cons.IH r show ?case by (simp add: kv allOceans_def)
qed (simp add: allOceans_def)

text \<open>Every entry that is read is what a process with a living lease showed, one for an id.\<close>

lemma read_entries:
  assumes ok: "registry_ok es g" and etcd: "etcd_ok es" and good: "proper_oceans g"
    and read: "es_Range es oceanPrefix (rg_etcd g) = Some kvs"
  shows "distinct (map o_ID (allOceans True (read_values es oceanPrefix (rg_etcd g))))"
    and "r \<in> set (allOceans True (read_values es oceanPrefix (rg_etcd g))) \<Longrightarrow>
      \<exists>n oc. shown_by es g n oc \<and> r = ocean_registration oc"
    and "(k, reg_json (ocean_registration oc)) \<in> set kvs \<Longrightarrow> reg_ok (ocean_registration oc) \<Longrightarrow>
      ocean_registration oc \<in> set (allOceans True (read_values es oceanPrefix (rg_etcd g)))"
    and "decoded (map (\<lambda>(k, v). Some v) kvs) = map worker_view (allOceans True (read_values es oceanPrefix (rg_etcd g)))"
proof -
  let ?dec = "\<lambda>v. the (unmarshal reg_fields zero_reg v)"
  have entry: "\<exists>n oc. shown_by es g n oc \<and> k = oceanPrefix @ o_ID (ocean_registration oc) \<and>
      unmarshal reg_fields zero_reg v = Some (ocean_registration oc) \<and> o_ID (ocean_registration oc) \<noteq> [] \<and>
      unmarshal worker_reg_fields zero_worker_reg v = Some (worker_view (ocean_registration oc))"
    if kv: "(k, v) \<in> set kvs" for k v
  proof -
    obtain n oc where n: "shown_by es g n oc" "k = oceanPrefix @ node_id n" "v = reg_json (ocean_registration oc)"
      using range_entry [OF ok etcd read kv] .
    note past = shown_past [OF ok n(1)]
    have "n \<in> set (rg_nodes g)" using n(1) by (simp add: shown_by_def)
    with good past(1) have "reg_ok (ocean_registration oc)" "node_id n \<noteq> []" by (auto simp: proper_oceans_def)
    with n past show ?thesis using unmarshal_reg unmarshal_worker_reg by (intro exI [of _ n] exI [of _ oc]) simp
  qed
  have vals: "read_values es oceanPrefix (rg_etcd g) = Some (map (\<lambda>(k, v). Some v) kvs)"
    by (simp add: read_values_def read)
  have all: "allOceans True (read_values es oceanPrefix (rg_etcd g)) = map (\<lambda>(k, v). ?dec v) kvs"
    unfolding vals by (rule allOceans_map) (use entry in blast)
  have "map (\<lambda>r. oceanPrefix @ o_ID r) (allOceans True (read_values es oceanPrefix (rg_etcd g))) = map fst kvs"
    unfolding all map_map by (rule map_cong [OF refl]) (use entry in fastforce)
  with Range_effect(1) [OF etcd read]
  have "distinct (map ((@) oceanPrefix) (map o_ID (allOceans True (read_values es oceanPrefix (rg_etcd g)))))"
    by (simp add: comp_def)
  then show "distinct (map o_ID (allOceans True (read_values es oceanPrefix (rg_etcd g))))" using distinct_map by blast
  show "\<exists>n oc. shown_by es g n oc \<and> r = ocean_registration oc"
    if "r \<in> set (allOceans True (read_values es oceanPrefix (rg_etcd g)))"
  proof -
    from that obtain k v where kv: "(k, v) \<in> set kvs" "r = ?dec v" by (auto simp: all)
    from entry [OF kv(1)] obtain n oc where "shown_by es g n oc" "unmarshal reg_fields zero_reg v = Some (ocean_registration oc)"
      by blast
    with kv(2) show ?thesis by auto
  qed
  show "ocean_registration oc \<in> set (allOceans True (read_values es oceanPrefix (rg_etcd g)))"
    if "(k, reg_json (ocean_registration oc)) \<in> set kvs" "reg_ok (ocean_registration oc)"
    using that unmarshal_reg [OF that(2)] by (force simp: all)
  show "decoded (map (\<lambda>(k, v). Some v) kvs) = map worker_view (allOceans True (read_values es oceanPrefix (rg_etcd g)))"
    unfolding all decoded_def map_filter_def using entry
    by (induction kvs) (auto, fastforce+)
qed


section \<open>A small etcd\<close>

text \<open>An instance of the assumed behaviour, on which the statements are tried out.\<close>

record demo_etcd =
  de_keys :: "(string, json \<times> int option) alist"
  de_live :: "int list"
  de_next :: int

definition demo_server :: "(demo_etcd, json) etcd_server" where
  "demo_server =
     \<lparr>es_Put = (\<lambda>k v l e. case l of
          None \<Rightarrow> (False, e\<lparr>de_keys := DAList.update k (v, None) (de_keys e)\<rparr>)
        | Some l' \<Rightarrow> if l' \<in> set (de_live e) then (False, e\<lparr>de_keys := DAList.update k (v, Some l') (de_keys e)\<rparr>)
                    else (True, e)),
      es_Delete = (\<lambda>k pfx e. (False, e\<lparr>de_keys := DAList.filter (\<lambda>(k', _). if pfx then take (length k) k' \<noteq> k else k' \<noteq> k) (de_keys e)\<rparr>)),
      es_Range = (\<lambda>pfx e. Some (map (\<lambda>(k, v, _). (k, v)) (filter (\<lambda>(k, _). take (length pfx) k = pfx) (DAList.impl_of (de_keys e))))),
      es_Grant = (\<lambda>ttl e. (Some (de_next e), e\<lparr>de_live := de_next e # de_live e, de_next := de_next e + 1\<rparr>)),
      es_KeepAlive = (\<lambda>l e. l \<notin> set (de_live e)),
      es_Revoke = (\<lambda>l e. (False, e)),
      es_expire = (\<lambda>l e. e\<lparr>de_keys := DAList.filter (\<lambda>(_, _, b). b \<noteq> Some l) (de_keys e), de_live := removeAll l (de_live e)\<rparr>),
      es_key = (\<lambda>e. DAList.lookup (de_keys e)),
      es_live = (\<lambda>e l. l \<in> set (de_live e)),
      es_granted = (\<lambda>e l. l < de_next e)\<rparr>"

lemma map_of_filter_entries:
  "distinct (map fst m) \<Longrightarrow>
   map_of (filter P m) k = (case map_of m k of None \<Rightarrow> None | Some v \<Rightarrow> if P (k, v) then Some v else None)"
  by (induction m) (auto split: option.splits dest: map_of_SomeD intro: rev_image_eqI simp: map_of_eq_None_iff)

lemma lookup_filter:
  "DAList.lookup (DAList.filter P m) k = (case DAList.lookup m k of None \<Rightarrow> None | Some v \<Rightarrow> if P (k, v) then Some v else None)"
  by transfer (simp add: map_of_filter_entries)

lemma lookup_entry: "(k, v) \<in> set (DAList.impl_of m) \<longleftrightarrow> DAList.lookup m k = Some v"
  by transfer simp

lemma demo_etcd_ok: "etcd_ok demo_server"
  unfolding etcd_ok_def
proof (intro conjI)
  show "put_law demo_server"
    by (auto simp: put_law_def demo_server_def written_def untouched_def split: if_splits)
  show "grant_law demo_server"
    by (auto simp: grant_law_def demo_server_def fun_eq_iff)
  show "expire_law demo_server"
    by (auto simp: expire_law_def demo_server_def keys_without_def fun_eq_iff lookup_filter split: option.split)
  show "range_law demo_server"
    unfolding range_law_def
  proof (intro allI impI conjI)
    fix p e kvs assume r: "es_Range demo_server p e = Some kvs"
    then have kvs: "kvs = map (\<lambda>(k, v, _). (k, v)) (filter (\<lambda>(k, _). take (length p) k = p) (DAList.impl_of (de_keys e)))"
      by (simp add: demo_server_def)
    have "map fst kvs = map fst (filter (\<lambda>(k, _). take (length p) k = p) (DAList.impl_of (de_keys e)))"
      by (auto simp: kvs)
    also have "distinct \<dots>" by (rule distinct_map_filter) (rule DAList.impl_of_distinct)
    finally show "distinct (map fst kvs)" .
    show "(k, v) \<in> set kvs \<longleftrightarrow> take (length p) k = p \<and> (\<exists>l. es_key demo_server e k = Some (v, l))" for k v
      by (auto simp: kvs demo_server_def lookup_entry image_iff)
  qed
qed


section \<open>Properties\<close>

text \<open>C13: The registry is the fleet. Whatever oceans come up, do, put in whatever order, and die of,
  and whichever leases run out: the registrations that a reader decodes are one for an id,
  each is the registration of a state its ocean has been in, and its lease lives; and where
  the ids differ they are exactly the last ones that the oceans with a living lease brought
  to etcd.\<close>
theorem registry_exact:
  assumes "etcd_ok es" and "reach (registry_init es) (registry_step es) g" and "proper_oceans g"
    and "es_Range es oceanPrefix (rg_etcd g) = Some kvs"
  shows "distinct (map o_ID (allOceans True (read_values es oceanPrefix (rg_etcd g)))) \<and>
    (\<forall>r\<in>set (allOceans True (read_values es oceanPrefix (rg_etcd g))).
       \<exists>n oc. shown_by es g n oc \<and> oc \<in> nd_past n \<and> r = ocean_registration oc) \<and>
    (distinct (map node_id (rg_nodes g)) \<longrightarrow>
       set (allOceans True (read_values es oceanPrefix (rg_etcd g))) = {ocean_registration oc | n oc. shown_by es g n oc})"
proof -
  have ok: "registry_ok es g" using rgy.reach_inv [OF assms(2)] assms(1) by blast
  note E = read_entries [OF ok assms(1,3,4)]
  have "ocean_registration oc \<in> set (allOceans True (read_values es oceanPrefix (rg_etcd g)))"
    if d: "distinct (map node_id (rg_nodes g))" and n: "shown_by es g n oc" for n oc
  proof -
    note past = shown_past [OF ok n]
    have "n \<in> set (rg_nodes g)" using n by (simp add: shown_by_def)
    with registry_okD(5) [OF ok d] n past(3)
    have "es_key es (rg_etcd g) (oceanPrefix @ node_id n) = Some (reg_json (ocean_registration oc), Some (nd_lease n))"
      unfolding shown_there_def shown_by_def by blast
    then have "(oceanPrefix @ node_id n, reg_json (ocean_registration oc)) \<in> set kvs"
      using Range_effect(2) [OF assms(1,4)] by auto
    then show ?thesis using E(3) past(1) assms(3) \<open>n \<in> set (rg_nodes g)\<close> by (auto simp: proper_oceans_def)
  qed
  with E(1,2) shown_past(1) [OF ok] show ?thesis by blast
qed

text \<open>C38: A lost lease is lost for good: once the lease of an ocean has run out, no later state of the
  registry shows the ocean again, however long it runs and however often it refreshes its
  registration, unless another process registers under the same id. Nothing grants a second
  lease.\<close>
theorem lost_lease_never_returns:
  assumes "etcd_ok es" and "reach (registry_init es) (registry_step es) g"
    and "n \<in> set (rg_nodes g)" and "\<not> es_live es (rg_etcd g) (nd_lease n)"
    and "(registry_step es)\<^sup>*\<^sup>* g g'" and "proper_oceans g'" and "distinct (map node_id (rg_nodes g'))"
    and "es_Range es oceanPrefix (rg_etcd g') = Some kvs"
  shows "\<forall>r\<in>set (allOceans True (read_values es oceanPrefix (rg_etcd g'))). o_ID r \<noteq> node_id n"
proof
  fix r assume r: "r \<in> set (allOceans True (read_values es oceanPrefix (rg_etcd g')))"
  have ok: "registry_ok es g" "registry_ok es g'"
    using rgy.reach_inv [OF assms(2)] rgy.reach_inv [OF reach_steps [OF assms(2,5)]] assms(1) by blast+
  obtain m oc where m: "shown_by es g' m oc" "r = ocean_registration oc"
    using read_entries(2) [OF ok(2) assms(1,6,8) r] by blast
  obtain n' where n': "n' \<in> set (rg_nodes g')" "nd_lease n' = nd_lease n" "node_id n' = node_id n"
    "\<not> es_live es (rg_etcd g') (nd_lease n)"
    using lease_stays_lost [OF assms(1,5) ok(1) assms(3,4)] by blast
  show "o_ID r \<noteq> node_id n"
  proof
    assume "o_ID r = node_id n"
    with m shown_past(2) [OF ok(2) m(1)] n'(3) have "node_id m = node_id n'" by simp
    moreover have "m \<in> set (rg_nodes g')" using m(1) by (simp add: shown_by_def)
    ultimately have "m = n'" using distinct_nodes [OF assms(7)] n'(1) by blast
    with m(1) n'(2,4) show False by (simp add: shown_by_def)
  qed
qed

text \<open>C23: A worker that looks for an ocean is sent to one whose lease lives, at the address and with
  the free slots that the ocean last brought to etcd, and to none with fewer free slots than
  another that qualifies.\<close>
theorem worker_finds_living_ocean:
  assumes "etcd_ok es" and "reach (registry_init es) (registry_step es) g" and "proper_oceans g"
    and "distinct (map node_id (rg_nodes g))"
    and "es_Range es oceanPrefix (rg_etcd g) = Some kvs"
    and "selectOcean (read_values es oceanPrefix (rg_etcd g)) \<noteq> []"
  shows "\<exists>n oc. shown_by es g n oc \<and> selectOcean (read_values es oceanPrefix (rg_etcd g)) = oc_advertiseGRPC oc \<and>
    (0 < oc_maxConnections oc \<longrightarrow> int (length (oc_workers oc)) < oc_maxConnections oc) \<and>
    (\<forall>n' oc'. shown_by es g n' oc' \<and> oc_advertiseGRPC oc' \<noteq> [] \<and>
       int (length (oc_workers oc')) < oc_maxConnections oc' \<longrightarrow>
       oc_maxConnections oc' - int (length (oc_workers oc')) \<le> oc_maxConnections oc - int (length (oc_workers oc)))"
proof -
  let ?rs = "allOceans True (read_values es oceanPrefix (rg_etcd g))" and ?vs = "map (\<lambda>(k, v). Some v) kvs"
  have ok: "registry_ok es g" using rgy.reach_inv [OF assms(2)] assms(1) by blast
  note X = registry_exact [OF assms(1-3,5)]
  have vals: "read_values es oceanPrefix (rg_etcd g) = Some ?vs" by (simp add: read_values_def assms(5))
  have dec: "decoded ?vs = map worker_view ?rs" by (rule read_entries(4) [OF ok assms(1,3,5)])
  have all: "set ?rs = {ocean_registration oc | n oc. shown_by es g n oc}" using X assms(4) by blast
  have view: "wo_GRPC (worker_view (ocean_registration oc)) = oc_advertiseGRPC oc"
    "wo_MaxConnections (worker_view (ocean_registration oc)) = oc_maxConnections oc"
    "wo_Workers (worker_view (ocean_registration oc)) = int (length (oc_workers oc))" for oc
    by (simp_all add: worker_view_def ocean_registration_def Let_def)
  show ?thesis
  proof (cases rule: selectOcean_cases [of ?vs])
    case none
    with assms(6) vals show ?thesis by simp
  next
    case (some r)
    from some(1) dec all obtain n oc where n: "shown_by es g n oc" "r = worker_view (ocean_registration oc)" by auto
    have "oc_maxConnections oc' - int (length (oc_workers oc')) \<le> oc_maxConnections oc - int (length (oc_workers oc))"
      if "shown_by es g n' oc'" "oc_advertiseGRPC oc' \<noteq> []" "int (length (oc_workers oc')) < oc_maxConnections oc'" for n' oc'
    proof -
      let ?q = "worker_view (ocean_registration oc')"
      have "?q \<in> set (decoded ?vs)" using that(1) dec all by auto
      moreover have "eligible ?q" using that(2,3) by (simp add: eligible_def view)
      ultimately have "score_of ?q \<le> score_of r" using some(5) by blast
      then show ?thesis by (auto simp: n(2) score_of_def reg_slots_def view less_eq_score_def less_score_def)
    qed
    moreover have "0 < oc_maxConnections oc \<longrightarrow> int (length (oc_workers oc)) < oc_maxConnections oc"
      using some(2) by (simp add: eligible_def n(2) view)
    moreover have "selectOcean (read_values es oceanPrefix (rg_etcd g)) = oc_advertiseGRPC oc"
      using some(3) by (simp add: vals n(2) view)
    ultimately show ?thesis using n(1) by blast
  qed
qed


text \<open>Registrations can go backwards. An attach or a detach starts a goroutine that takes its
  snapshot under the mutex and puts it afterwards, so two of them may put in the other order:
  then everything has been put without an error, nothing is under way, and what readers find
  is the older snapshot, until the next refresh.\<close>
theorem older_snapshot_wins:
  assumes "etcd_ok es" and "reach (registry_init es) (registry_step es) g"
    and "i < length (rg_nodes g)" and "nd_up (rg_nodes g ! i)"
    and "nd_pending (rg_nodes g ! i) = [PubOcean newer, PubOcean older]"
    and "es_live es (rg_etcd g) (nd_lease (rg_nodes g ! i))"
    and "\<And>k v l e. es_live es e l \<Longrightarrow> \<not> fst (Put es k v (Some l) e)"
  shows "\<exists>g'. (registry_step es)\<^sup>*\<^sup>* g g' \<and> nd_pending (rg_nodes g' ! i) = [] \<and>
    nd_ocean (rg_nodes g' ! i) = nd_ocean (rg_nodes g ! i) \<and>
    es_key es (rg_etcd g') (oceanPrefix @ node_id (rg_nodes g ! i)) =
      Some (reg_json (ocean_registration older), Some (nd_lease (rg_nodes g ! i)))"
proof -
  let ?n = "rg_nodes g ! i"
  let ?l = "nd_lease ?n"
  have "registry_ok es g" using rgy.reach_inv [OF assms(2)] assms(1) by blast
  from registry_okD(1) [OF this nth_mem [OF assms(3)]] have nok: "node_ok es (rg_etcd g) ?n" .
  define e1 where "e1 = put_publication es ?l (PubOcean newer) (rg_etcd g)"
  define n1 where "n1 = note_put es (PubOcean newer) e1 (?n\<lparr>nd_pending := [PubOcean older]\<rparr>)"
  define e2 where "e2 = put_publication es ?l (PubOcean older) e1"
  define n2 where "n2 = note_put es (PubOcean older) e2 (n1\<lparr>nd_pending := []\<rparr>)"
  let ?g1 = "\<lparr>rg_etcd = e1, rg_nodes = (rg_nodes g)[i := n1]\<rparr>" and ?g2 = "\<lparr>rg_etcd = e2, rg_nodes = (rg_nodes g)[i := n2]\<rparr>"
  have "registry_step es g ?g1"
    using registry_step.flushed [OF assms(3) refl assms(4), of "[]" "PubOcean newer" "[PubOcean older]" es e1] assms(5)
    by (simp add: e1_def n1_def)
  moreover have n1: "nd_up n1" "nd_pending n1 = [PubOcean older]" "nd_lease n1 = ?l" "nd_ocean n1 = nd_ocean ?n"
    using assms(4) by (simp_all add: n1_def)
  have "registry_step es ?g1 ?g2"
    using registry_step.flushed [of i ?g1 n1 "[]" "PubOcean older" "[]" es e2] assms(3) n1
    by (simp add: e2_def n2_def)
  ultimately have "(registry_step es)\<^sup>*\<^sup>* g ?g2" by (meson converse_rtranclp_into_rtranclp r_into_rtranclp)
  moreover have "es_key es e2 (oceanPrefix @ node_id ?n) = Some (reg_json (ocean_registration older), Some ?l)"
  proof -
    have "oc_id older = node_id ?n" "oc_discovery older" using nok assms(5) by (auto simp: node_ok_def)
    then have p: "publication_put (PubOcean older) = Some (oceanPrefix @ node_id ?n, reg_json (ocean_registration older))"
      by (simp add: publishOcean_def)
    have "es_live es e1 ?l" using assms(6) put_keeps_live [OF assms(1)] by (simp add: e1_def)
    then have "\<not> fst (Put es (oceanPrefix @ node_id ?n) (reg_json (ocean_registration older)) (Some ?l) e1)" using assms(7) by blast
    moreover obtain err e where put: "Put es (oceanPrefix @ node_id ?n) (reg_json (ocean_registration older)) (Some ?l) e1 = (err, e)"
      by force
    ultimately have "written es (oceanPrefix @ node_id ?n) (reg_json (ocean_registration older)) ?l e1 e"
      using Put_effect [OF assms(1) put] by simp
    moreover have "e2 = e" using put by (simp add: e2_def put_publication_def p del: publication_put.simps)
    ultimately show ?thesis by (simp add: written_def)
  qed
  ultimately show ?thesis
    using assms(3) n1(4) by (intro exI [of _ ?g2]) (simp add: n2_def)
qed

section \<open>Witnesses\<close>

definition demo_ocean :: ocean where
  "demo_ocean = run_init\<lparr>oc_discovery := True\<rparr>"

definition demo_empty :: "demo_etcd registry" where
  "demo_empty = \<lparr>rg_etcd = \<lparr>de_keys = DAList.empty, de_live = [], de_next = 1\<rparr>, rg_nodes = []\<rparr>"

definition demo_node :: node where
  "demo_node = (new_node demo_ocean 1 True)\<lparr>nd_shown := (\<lambda>_. None)(False := Some (PubOcean demo_ocean))\<rparr>"

definition demo_joined :: "demo_etcd registry" where
  "demo_joined = \<lparr>rg_etcd = \<lparr>de_keys = DAList.update (oceanPrefix @ oc_id demo_ocean)
       (reg_json (ocean_registration demo_ocean), Some 1) DAList.empty, de_live = [1], de_next = 2\<rparr>,
     rg_nodes = [demo_node]\<rparr>"

lemma demo_ocean_simps: "oc_discovery demo_ocean" "oc_id demo_ocean = ''ocean-0''" "oc_workers demo_ocean = []"
  "oc_advertiseGRPC demo_ocean = ''10.0.0.1:8050''" "oc_maxConnections demo_ocean = 2"
  by (simp_all add: demo_ocean_def run_init_def)

lemma demo_join: "reach (registry_init demo_server) (registry_step demo_server) demo_joined"
proof -
  have "registry_init demo_server demo_empty"
    by (simp add: registry_init_def demo_empty_def demo_server_def)
  moreover have "register_ocean demo_server 10 demo_ocean (rg_etcd demo_empty) = (Some demo_node, rg_etcd demo_joined)"
    by (simp add: register_ocean_def Grant_def Put_def KeepAlive_def demo_server_def put_publication_def publishOcean_def
        note_put_def demo_empty_def demo_joined_def demo_node_def new_node_def demo_ocean_simps)
  from registry_step.joined [OF demo_ocean_simps(1) this]
  have "registry_step demo_server demo_empty demo_joined" by (simp add: demo_empty_def demo_joined_def)
  ultimately show ?thesis by (meson reach.intros)
qed

lemma demo_reg_reads:
  "reg_ok (ocean_registration demo_ocean)"
  "unmarshal reg_fields zero_reg (reg_json (ocean_registration demo_ocean)) = Some (ocean_registration demo_ocean)"
proof -
  show "reg_ok (ocean_registration demo_ocean)"
    by (simp add: demo_ocean_simps reg_ok_def int64_ok_def ocean_registration_def Let_def int64_min_def int64_max_def)
  then show "unmarshal reg_fields zero_reg (reg_json (ocean_registration demo_ocean)) = Some (ocean_registration demo_ocean)"
    by (rule unmarshal_reg)
qed

lemma demo_proper: "proper_oceans demo_joined"
  by (simp add: proper_oceans_def demo_joined_def demo_node_def new_node_def node_id_def demo_ocean_simps
      reg_ok_def int64_ok_def ocean_registration_def Let_def int64_min_def int64_max_def)

lemma demo_shown: "shown_by demo_server demo_joined n oc \<longleftrightarrow> n = demo_node \<and> oc = demo_ocean"
  by (auto simp: shown_by_def demo_joined_def demo_server_def demo_node_def new_node_def)

lemma demo_range: "\<exists>kvs. es_Range demo_server pfx e = Some kvs"
  by (simp add: demo_server_def)

lemma single_element: "distinct xs \<Longrightarrow> set xs = {x} \<Longrightarrow> xs = [x]"
proof (cases xs)
  case (Cons a ys)
  assume "distinct xs" and s: "set xs = {x}"
  with Cons have "a \<notin> set ys" "a = x" "set ys \<subseteq> {x}" by auto
  then have "ys = []" by (cases ys) auto
  with Cons \<open>a = x\<close> show ?thesis by simp
qed simp

lemma demo_read: "set (allOceans True (read_values demo_server oceanPrefix (rg_etcd demo_joined))) = {ocean_registration demo_ocean}"
  by (simp add: read_values_def demo_server_def demo_joined_def oceanPrefix_def demo_ocean_simps DAList.update.rep_eq
      DAList.empty.rep_eq allOceans_def demo_reg_reads)

theorem registry_exact_witness:
  "allOceans True (read_values demo_server oceanPrefix (rg_etcd demo_joined)) = [ocean_registration demo_ocean]"
proof -
  obtain kvs where "es_Range demo_server oceanPrefix (rg_etcd demo_joined) = Some kvs" using demo_range by blast
  from conjunct1 [OF registry_exact [OF demo_etcd_ok demo_join demo_proper this]]
  have "distinct (allOceans True (read_values demo_server oceanPrefix (rg_etcd demo_joined)))" unfolding distinct_map ..
  then show ?thesis using demo_read by (rule single_element)
qed


text \<open>The lease runs out; the ocean, which does not notice, goes on refreshing.\<close>

definition demo_lost :: "demo_etcd registry" where
  "demo_lost = demo_joined\<lparr>rg_etcd := es_expire demo_server 1 (rg_etcd demo_joined)\<rparr>"

definition demo_retrying :: "demo_etcd registry" where
  "demo_retrying = demo_lost\<lparr>rg_nodes := [demo_node\<lparr>nd_pending := [PubOcean demo_ocean]\<rparr>]\<rparr>"

lemma demo_lost_reach: "reach (registry_init demo_server) (registry_step demo_server) demo_lost"
  unfolding demo_lost_def by (rule reach_step [OF demo_join registry_step.expired])

lemma demo_retries: "registry_step demo_server demo_lost demo_retrying"
proof -
  have "rg_nodes demo_lost = [demo_node]" "nd_up demo_node" "nd_ocean demo_node = demo_ocean" "nd_pending demo_node = []"
    by (simp_all add: demo_lost_def demo_joined_def demo_node_def new_node_def)
  with registry_step.snapped [of 0 demo_lost demo_node "PubOcean demo_ocean" demo_server]
  show ?thesis by (simp add: demo_retrying_def)
qed

theorem lost_lease_never_returns_witness:
  "(registry_step demo_server)\<^sup>*\<^sup>* demo_lost demo_retrying \<and> nd_up (hd (rg_nodes demo_retrying)) \<and>
   ''ocean-0'' \<notin> o_ID ` set (allOceans True (read_values demo_server oceanPrefix (rg_etcd demo_retrying)))"
proof -
  obtain kvs where kvs: "es_Range demo_server oceanPrefix (rg_etcd demo_retrying) = Some kvs" using demo_range by blast
  have run: "(registry_step demo_server)\<^sup>*\<^sup>* demo_lost demo_retrying" using demo_retries by (rule r_into_rtranclp)
  have n: "demo_node \<in> set (rg_nodes demo_lost)" "\<not> es_live demo_server (rg_etcd demo_lost) (nd_lease demo_node)"
    by (simp_all add: demo_lost_def demo_joined_def demo_node_def new_node_def demo_server_def)
  have good: "proper_oceans demo_retrying" "distinct (map node_id (rg_nodes demo_retrying))"
    using demo_proper by (simp_all add: proper_oceans_def demo_retrying_def demo_joined_def)
  have "node_id demo_node = ''ocean-0''" "nd_up (hd (rg_nodes demo_retrying))"
    by (simp_all add: demo_retrying_def demo_node_def new_node_def node_id_def demo_ocean_simps)
  with lost_lease_never_returns [OF demo_etcd_ok demo_lost_reach n run good kvs] run show ?thesis by auto
qed

theorem worker_finds_living_ocean_witness:
  "selectOcean (read_values demo_server oceanPrefix (rg_etcd demo_joined)) = ''10.0.0.1:8050''"
proof -
  obtain kvs where kvs: "es_Range demo_server oceanPrefix (rg_etcd demo_joined) = Some kvs" using demo_range by blast
  have d: "distinct (map node_id (rg_nodes demo_joined))" by (simp add: demo_joined_def)
  have ok: "registry_ok demo_server demo_joined" using rgy.reach_inv [OF demo_join] demo_etcd_ok by blast
  let ?r = "worker_view (ocean_registration demo_ocean)" and ?vs = "map (\<lambda>(k, v). Some v) kvs"
  have all: "set (decoded ?vs) = {?r}"
    using read_entries(4) [OF ok demo_etcd_ok demo_proper kvs] demo_read by simp
  have "eligible ?r \<and> wo_MaxConnections ?r > 0"
    by (simp add: eligible_def worker_view_def ocean_registration_def Let_def demo_ocean_simps)
  then have "selectOcean (Some ?vs) \<noteq> []"
    using selectOcean_cases [of ?vs] all
    by (cases rule: selectOcean_cases [of ?vs])
      (auto simp: eligible_def score_of_def reg_slots_def less_eq_score_def less_score_def)
  then have "selectOcean (read_values demo_server oceanPrefix (rg_etcd demo_joined)) \<noteq> []"
    by (simp add: read_values_def kvs)
  from worker_finds_living_ocean [OF demo_etcd_ok demo_join demo_proper d kvs this] show ?thesis
    by (auto simp: demo_shown demo_ocean_simps)
qed

end
