(* ===== verification/Database.thy ===== *)
theory Database
  imports Server
begin

text \<open>
  The database file (master/auth/store.go: Open, migrate, Close): the directories that are
  made, the schema that is completed, and what a process that starts again finds. The file
  system and the driver are not under src/: which of their calls fail is an argument, and so
  is the content of a file, as the tables that exist in it and their rows.
\<close>

section \<open>Paths\<close>

text \<open>path/filepath: Clean and Dir, for a file system with slashes.\<close>

fun path_elems :: "bool \<Rightarrow> string list \<Rightarrow> string list \<Rightarrow> string list" where
  "path_elems rooted acc [] = rev acc"
| "path_elems rooted acc (e # es) =
     (if e = [] \<or> e = ''.'' then path_elems rooted acc es
      else if e = ''..'' then
        (case acc of
           [] \<Rightarrow> path_elems rooted (if rooted then [] else [e]) es
         | a # acc' \<Rightarrow> path_elems rooted (if a = ''..'' then e # acc else acc') es)
      else path_elems rooted (e # acc) es)"

definition filepath_Clean :: "string \<Rightarrow> string" where
  "filepath_Clean p =
     (if p = [] then ''.''
      else let rooted = (hd p = CHR ''/''); es = path_elems rooted [] (split_path p)
           in if rooted then CHR ''/'' # join ''/'' es
              else if es = [] then ''.'' else join ''/'' es)"

definition filepath_Dir :: "string \<Rightarrow> string" where
  "filepath_Dir p = filepath_Clean (rev (dropWhile (\<lambda>c. c \<noteq> CHR ''/'') (rev p)))"

section \<open>The schema\<close>

text \<open>The tables of a file, None where one does not exist; AUTOINCREMENT has a counter.\<close>

record tables =
  t_users :: "(user list \<times> int) option"
  t_sessions :: "(string, session_row) gomap option"
  t_bookmarks :: "(string, bookmark_row) gomap option"
  t_envs :: "(string, env_row) gomap option"
  t_settings :: "(string, string) gomap option"

definition if_not_exists :: "'a \<Rightarrow> 'a option \<Rightarrow> 'a option" where
  "if_not_exists new t = (case t of None \<Rightarrow> Some new | Some rows \<Rightarrow> Some rows)"

text \<open>The statements of migrate in their order; the two indexes hold nothing of their own.\<close>

definition schema :: "(tables \<Rightarrow> tables) list" where
  "schema =
     [\<lambda>t. t\<lparr>t_users := if_not_exists ([], 1) (t_users t)\<rparr>,
      \<lambda>t. t\<lparr>t_sessions := if_not_exists [] (t_sessions t)\<rparr>,
      \<lambda>t. t, \<lambda>t. t,
      \<lambda>t. t\<lparr>t_bookmarks := if_not_exists [] (t_bookmarks t)\<rparr>,
      \<lambda>t. t\<lparr>t_envs := if_not_exists [] (t_envs t)\<rparr>,
      \<lambda>t. t\<lparr>t_settings := if_not_exists [] (t_settings t)\<rparr>]"

text \<open>
  The driver runs them one after the other and may stop with an error after some; those have
  had their effect. The result is whether there was an error.
\<close>

definition migrate :: "nat option \<Rightarrow> tables \<Rightarrow> bool \<times> tables" where
  "migrate stops t =
     (case stops of
        None \<Rightarrow> (False, fold (\<lambda>stmt. stmt) schema t)
      | Some n \<Rightarrow> (True, fold (\<lambda>stmt. stmt) (take n schema) t))"

section \<open>Open\<close>

record disk =
  dk_mkdir :: "string \<Rightarrow> bool"
  dk_driver :: "string \<Rightarrow> bool"
  dk_pragma :: "string \<Rightarrow> bool"
  dk_stops :: "string \<Rightarrow> nat option"
  dk_refuses :: "statement \<Rightarrow> bool"
  dk_file :: "string \<Rightarrow> tables"

definition store_of :: "(statement \<Rightarrow> bool) \<Rightarrow> tables \<Rightarrow> store option" where
  "store_of refuses t =
     (case (t_users t, t_sessions t, t_bookmarks t, t_envs t, t_settings t) of
        (Some (us, next), Some ss, Some bs, Some es, Some aps) \<Rightarrow>
          Some \<lparr>db_refuses = refuses, users = us, next_user_id = next, sessions = ss, bookmarks = bs,
            envs = es, app_settings = aps\<rparr>
      | _ \<Rightarrow> None)"

text \<open>None: an error. The file keeps what migrate has done to it either way.\<close>

definition Open :: "string \<Rightarrow> disk \<Rightarrow> store option \<times> disk" where
  "Open path dk =
     (let dir = filepath_Dir path
      in if dir \<noteq> [] \<and> dir \<noteq> ''.'' \<and> \<not> dk_mkdir dk dir then (None, dk)
         else if \<not> dk_driver dk path then (None, dk)
         else if \<not> dk_pragma dk path then (None, dk)
         else let (err, t) = migrate (dk_stops dk path) (dk_file dk path);
                  dk = dk\<lparr>dk_file := (dk_file dk)(path := t)\<rparr>
              in if err then (None, dk) else (store_of (dk_refuses dk) t, dk))"

text \<open>Close leaves the rows in the file; so does the end of the process, as every statement is
  committed by itself.\<close>

definition Close_store :: "string \<Rightarrow> store \<Rightarrow> disk \<Rightarrow> disk" where
  "Close_store path s dk = dk\<lparr>dk_file := (dk_file dk)(path :=
     \<lparr>t_users = Some (users s, next_user_id s), t_sessions = Some (sessions s), t_bookmarks = Some (bookmarks s),
      t_envs = Some (envs s), t_settings = Some (app_settings s)\<rparr>)\<rparr>"

section \<open>What is found again\<close>

text \<open>The disk answers: nothing fails for the file at this path.\<close>

definition disk_ok :: "disk \<Rightarrow> string \<Rightarrow> bool" where
  "disk_ok dk path \<longleftrightarrow> dk_mkdir dk (filepath_Dir path) \<and> dk_driver dk path \<and> dk_pragma dk path \<and> dk_stops dk path = None"

definition completed :: "tables \<Rightarrow> tables" where
  "completed t = \<lparr>t_users = if_not_exists ([], 1) (t_users t), t_sessions = if_not_exists [] (t_sessions t),
     t_bookmarks = if_not_exists [] (t_bookmarks t), t_envs = if_not_exists [] (t_envs t),
     t_settings = if_not_exists [] (t_settings t)\<rparr>"

lemma migrate_complete: "migrate None t = (False, completed t)"
  by (cases t) (simp add: migrate_def schema_def completed_def)

lemma migrate_failed: "migrate (Some n) t = (True, fold (\<lambda>stmt. stmt) (take n schema) t)"
  by (simp add: migrate_def)

lemma if_not_exists_twice: "if_not_exists new (if_not_exists new' t) = if_not_exists new' t"
  by (simp add: if_not_exists_def split: option.split)

lemma fold_completed:
  "(\<And>stmt t. stmt \<in> set ss \<Longrightarrow> completed (stmt t) = completed t) \<Longrightarrow> completed (fold (\<lambda>stmt. stmt) ss t) = completed t"
  by (induction ss arbitrary: t) simp_all

lemma schema_completed: "stmt \<in> set schema \<Longrightarrow> completed (stmt t) = completed t"
  by (auto simp: schema_def completed_def if_not_exists_twice)

lemma completed_once: "completed (fold (\<lambda>stmt. stmt) schema t) = completed t" "completed (fold (\<lambda>stmt. stmt) (take n schema) t) = completed t"
  by (rule fold_completed, erule schema_completed, rule fold_completed, blast dest: in_set_takeD intro: schema_completed)

lemma completed_twice: "completed (completed t) = completed t"
  by (simp add: completed_def if_not_exists_twice)

text \<open>A migration that was cut short is made up for by the next one.\<close>

lemma migrate_resumes: "migrate None (snd (migrate stops t)) = migrate None t"
proof (cases stops)
  case (Some n)
  then show ?thesis by (simp add: migrate_complete) (simp add: migrate_def completed_once)
qed (simp add: migrate_complete completed_def if_not_exists_twice)

text \<open>A successful Open: the rows that were there, and empty tables where there were none.\<close>

definition opened_store :: "disk \<Rightarrow> tables \<Rightarrow> store" where
  "opened_store dk t =
     \<lparr>db_refuses = dk_refuses dk,
      users = (case t_users t of None \<Rightarrow> [] | Some (us, _) \<Rightarrow> us),
      next_user_id = (case t_users t of None \<Rightarrow> 1 | Some (_, next) \<Rightarrow> next),
      sessions = (case t_sessions t of None \<Rightarrow> [] | Some l \<Rightarrow> l),
      bookmarks = (case t_bookmarks t of None \<Rightarrow> [] | Some l \<Rightarrow> l),
      envs = (case t_envs t of None \<Rightarrow> [] | Some l \<Rightarrow> l),
      app_settings = (case t_settings t of None \<Rightarrow> [] | Some l \<Rightarrow> l)\<rparr>"

lemma store_of_completed: "store_of (dk_refuses dk) (completed t) = Some (opened_store dk t)"
  by (simp add: store_of_def completed_def opened_store_def if_not_exists_def split: option.split prod.split)

lemma Open_ok: "disk_ok dk path \<Longrightarrow> fst (Open path dk) = Some (opened_store dk (dk_file dk path))"
  by (simp add: Open_def disk_ok_def migrate_complete store_of_completed Let_def)

lemma Open_Some: "fst (Open path dk) = Some s \<Longrightarrow> s = opened_store dk (dk_file dk path)"
  by (cases "dk_stops dk path")
    (auto simp: Open_def migrate_complete store_of_completed Let_def migrate_failed split: if_splits)

lemma opened_closed:
  "opened_store dk (dk_file (Close_store path s dk') path) = s\<lparr>db_refuses := dk_refuses dk\<rparr>"
  by (simp add: opened_store_def Close_store_def)

section \<open>Properties\<close>

text \<open>Attempts to open the file one after the other, each under its own conditions.\<close>

definition attempt :: "string \<Rightarrow> disk \<Rightarrow> tables \<Rightarrow> tables" where
  "attempt path dk t = dk_file (snd (Open path (dk\<lparr>dk_file := (dk_file dk)(path := t)\<rparr>))) path"

lemma attempt_completed: "completed (attempt path dk t) = completed t"
  by (cases "dk_stops dk path")
    (auto simp: attempt_def Open_def Let_def migrate_complete migrate_failed completed_once completed_twice)

text \<open>C35: However often opening the database has failed, and however far its migration got each
  time, the first Open that succeeds finds every row that was there before the first attempt,
  and empty tables for those that did not exist.\<close>
theorem interrupted_migration_loses_nothing:
  assumes "dk_file dk path = fold (attempt path) ds t" and "fst (Open path dk) = Some s"
  shows "users s = (case t_users t of None \<Rightarrow> [] | Some (us, _) \<Rightarrow> us) \<and>
    sessions s = (case t_sessions t of None \<Rightarrow> [] | Some l \<Rightarrow> l) \<and>
    bookmarks s = (case t_bookmarks t of None \<Rightarrow> [] | Some l \<Rightarrow> l) \<and>
    envs s = (case t_envs t of None \<Rightarrow> [] | Some l \<Rightarrow> l) \<and>
    app_settings s = (case t_settings t of None \<Rightarrow> [] | Some l \<Rightarrow> l)"
proof -
  have "completed (fold (attempt path) ds t) = completed t"
    by (induction ds arbitrary: t) (simp_all add: attempt_completed)
  then have "completed (dk_file dk path) = completed t" using assms(1) by simp
  moreover have "Some s = store_of (dk_refuses dk) (completed (dk_file dk path))"
    using Open_Some [OF assms(2)] by (simp add: store_of_completed)
  ultimately have "s = opened_store dk t" by (simp add: store_of_completed)
  then show ?thesis by (simp add: opened_store_def)
qed

definition demo_disk :: disk where
  "demo_disk = \<lparr>dk_mkdir = (\<lambda>_. True), dk_driver = (\<lambda>_. True), dk_pragma = (\<lambda>_. True), dk_stops = (\<lambda>_. None),
     dk_refuses = (\<lambda>_. False), dk_file = (\<lambda>_. \<lparr>t_users = None, t_sessions = None, t_bookmarks = None,
       t_envs = None, t_settings = None\<rparr>)\<rparr>"

text \<open>A file with one saved environment; the first two attempts break off.\<close>

theorem interrupted_migration_loses_nothing_witness:
  "\<exists>s. fst (Open ''a.db'' (demo_disk\<lparr>dk_file := (\<lambda>_. fold (attempt ''a.db'')
       [demo_disk\<lparr>dk_stops := (\<lambda>_. Some 1)\<rparr>, demo_disk\<lparr>dk_stops := (\<lambda>_. Some 5)\<rparr>]
       ((dk_file demo_disk [])\<lparr>t_envs := Some [(''e'', \<lparr>er_vars = [], er_created_at = 1, er_updated_at = 1\<rparr>)]\<rparr>))\<rparr>)) = Some s \<and>
     envs s = [(''e'', \<lparr>er_vars = [], er_created_at = 1, er_updated_at = 1\<rparr>)] \<and> users s = []"
proof -
  let ?t = "(dk_file demo_disk [])\<lparr>t_envs := Some [(''e'', \<lparr>er_vars = [], er_created_at = 1, er_updated_at = 1\<rparr>)]\<rparr>"
  let ?ds = "[demo_disk\<lparr>dk_stops := (\<lambda>_. Some 1)\<rparr>, demo_disk\<lparr>dk_stops := (\<lambda>_. Some 5)\<rparr>]"
  let ?dk = "demo_disk\<lparr>dk_file := (\<lambda>_. fold (attempt ''a.db'') ?ds ?t)\<rparr>"
  have "disk_ok ?dk ''a.db''" by (simp add: disk_ok_def demo_disk_def)
  then obtain s where s: "fst (Open ''a.db'' ?dk) = Some s" using Open_ok by blast
  have "dk_file ?dk ''a.db'' = fold (attempt ''a.db'') ?ds ?t" by simp
  from interrupted_migration_loses_nothing [OF this s]
  have "envs s = [(''e'', \<lparr>er_vars = [], er_created_at = 1, er_updated_at = 1\<rparr>)] \<and> users s = []"
    by (simp add: demo_disk_def)
  with s show ?thesis by blast
qed

text \<open>
  A process that starts again on the file: the server as main leaves it, when the database it
  opens is the one that the earlier process left.
\<close>

definition restarted :: "viper \<Rightarrow> disk \<Rightarrow> host \<Rightarrow> server \<Rightarrow> server \<Rightarrow> bool" where
  "restarted v dk h t s \<longleftrightarrow>
     (let path = GetString v ''auth.db_path''
      in (\<exists>an. main_ocean v (h\<lparr>h_open := (\<lambda>p. fst (Open p (Close_store path (sv_store t) dk)))\<rparr>) = Inr (s, an)))"

text \<open>C22: A restart keeps what is in the file and forgets what is in memory. After any run of an
  ocean, a process that comes up on its database has the same accounts, saved tests,
  environments and settings, and accepts exactly the session tokens that were accepted, as
  the same users; but it has no worker and no test.\<close>
theorem restart_keeps_sessions:
  assumes "server_init s" and "server_step\<^sup>*\<^sup>* s t" and "restarted v dk h t s'"
  shows "users (sv_store s') = users (sv_store t) \<and> bookmarks (sv_store s') = bookmarks (sv_store t) \<and>
    envs (sv_store s') = envs (sv_store t) \<and> app_settings (sv_store s') = app_settings (sv_store t) \<and>
    (dk_refuses dk GetValidSessionQ = db_refuses (sv_store t) GetValidSessionQ \<longrightarrow>
       (\<forall>cr now raw. Validate cr now (sv_auth s') raw = Validate cr now (sv_auth t) raw)) \<and>
    oc_workers (sv_ocean s') = [] \<and> oc_jobs (sv_ocean s') = []"
proof -
  let ?path = "GetString v ''auth.db_path''"
  let ?h = "h\<lparr>h_open := (\<lambda>p. fst (Open p (Close_store ?path (sv_store t) dk)))\<rparr>"
  have ok: "server_ok t" by (rule srv.inv_steps [OF server_init_ok [OF assms(1)] assms(2)])
  obtain an where up: "main_ocean v ?h = Inr (s', an)" using assms(3) by (auto simp: restarted_def Let_def)
  show ?thesis
  proof (rule New_fields [OF main_New [OF up]])
    fix adv db a
    assume opened: "h_open ?h ?path = Some db"
      and seed: "SeedAdmin (h_crypto ?h) (h_now ?h) (GetString v ''auth.bootstrap_admin.username'')
        (GetString v ''auth.bootstrap_admin.password'') (New_auth db (session_ttl v) (GetBool v ''auth.cookie_secure'')) = Some a"
      and s': "s' = \<lparr>sv_ocean = new_ocean v adv, sv_auth = a\<rparr>"
    from opened have "fst (Open ?path (Close_store ?path (sv_store t) dk)) = Some db" by simp
    from Open_Some [OF this] have db: "db = (sv_store t)\<lparr>db_refuses := dk_refuses dk\<rparr>"
      by (simp add: opened_store_def Close_store_def)
    have "users db \<noteq> []" using ok by (simp add: db server_ok_def)
    with seed have "a = New_auth db (session_ttl v) (GetBool v ''auth.cookie_secure'')"
      by (auto simp: SeedAdmin_def CountUsers_def split: if_splits)
    then show ?thesis
      by (auto simp: s' db new_ocean_def Validate_def GetValidSession_def user_by_id_frame split: option.split)
  qed
qed


lemma demo_restarts:
  assumes "server_ok t"
  shows "\<exists>s'. restarted demo_viper demo_disk demo_host t s'"
proof -
  let ?path = "GetString demo_viper ''auth.db_path''"
  let ?h = "demo_host\<lparr>h_open := (\<lambda>p. fst (Open p (Close_store ?path (sv_store t) demo_disk)))\<rparr>"
  have "disk_ok (Close_store ?path (sv_store t) demo_disk) ?path" by (simp add: disk_ok_def Close_store_def demo_disk_def)
  from Open_ok [OF this] have db: "h_open ?h ?path = Some ((sv_store t)\<lparr>db_refuses := dk_refuses demo_disk\<rparr>)"
    by (simp add: opened_store_def Close_store_def)
  have "users (sv_store t) \<noteq> []" using assms by (simp add: server_ok_def)
  then have "SeedAdmin c now n p (New_auth ((sv_store t)\<lparr>db_refuses := dk_refuses demo_disk\<rparr>) ttl sec) =
      Some (New_auth ((sv_store t)\<lparr>db_refuses := dk_refuses demo_disk\<rparr>) ttl sec)" for c now n p ttl sec
    by (simp add: SeedAdmin_def CountUsers_def demo_disk_def)
  moreover obtain adv where "advertised demo_viper ?h = Inr adv"
    by (simp add: advertised_def GetIP_def demo_host_def demo_viper_def ocean_defaults_def Let_def split: option.split)
  ultimately have "\<exists>s'. New demo_viper ?h = Inr s' \<and> \<not> oc_discovery (sv_ocean s')"
    using db by (simp add: New_def new_ocean_def demo_viper_def ocean_defaults_def)
  then show ?thesis by (auto simp: restarted_def Let_def main_ocean_def demo_host_def)
qed

theorem restart_keeps_sessions_witness:
  "\<exists>s s'. server_init s \<and> restarted demo_viper demo_disk demo_host (snd (serve web_outside demo_login s)) s' \<and>
     users (sv_store s') = users (sv_store s) \<and> oc_jobs (sv_ocean s') = []"
proof -
  obtain s where up: "main_ocean demo_viper demo_host = Inr (s, None)" using demo_boots by blast
  have "h_open demo_host (GetString demo_viper ''auth.db_path'') = Some empty_store" by (simp add: demo_host_def)
  with up store_ok_empty have init: "server_init s" by (auto simp: server_init_def)
  let ?t = "snd (serve web_outside demo_login s)"
  have run: "server_step\<^sup>*\<^sup>* s ?t" by (rule r_into_rtranclp) (rule server_step.request)
  have ok: "server_ok ?t" by (rule srv.inv_steps [OF server_init_ok [OF init] run])
  then obtain s' where s': "restarted demo_viper demo_disk demo_host ?t s'" using demo_restarts by blast
  have "users (sv_store ?t) = users (sv_store s)" by (rule users_constant [OF run server_init_ok [OF init]])
  with restart_keeps_sessions [OF init run s'] init s' show ?thesis by auto
qed

end
