(* ===== verification/Typed.thy ===== *)
theory Typed
  imports Cluster
begin

text \<open>
  The type of what an ocean sends: every message that waits in the channel of a worker
  (master/services.go: startCommand, stopCommand, push; master/client.go) is one that the
  worker's receive loop (worker/server.go: handleCommand) acts on, with a share of the
  worker's capacity.
\<close>

section \<open>Well-typed messages\<close>

inductive command_ok :: "int \<Rightarrow> ocean_message \<Rightarrow> bool" for cap :: int where
  starts: "0 < c \<Longrightarrow> c \<le> cap \<Longrightarrow> command_ok cap (startCommand n conf c)"
| stops: "command_ok cap (stopCommand n)"

definition typed :: "ocean \<Rightarrow> bool" where
  "typed oc \<longleftrightarrow> (\<forall>i w. map_of (oc_workers oc) i = Some w \<longrightarrow> (\<forall>msg\<in>set (w_send w). command_ok (w_maxCap w) msg))"

lemma typedD: "typed oc \<Longrightarrow> map_of (oc_workers oc) i = Some w \<Longrightarrow> msg \<in> set (w_send w) \<Longrightarrow> command_ok (w_maxCap w) msg"
  by (simp add: typed_def)

text \<open>A step that only queues well-typed messages keeps the type.\<close>

definition queues :: "attached_worker \<Rightarrow> attached_worker \<Rightarrow> bool" where
  "queues w w' \<longleftrightarrow> w_maxCap w' = w_maxCap w \<and>
     (\<forall>msg\<in>set (w_send w'). msg \<in> set (w_send w) \<or> command_ok (w_maxCap w) msg)"

lemma typed_step:
  assumes "typed oc"
    and "\<And>i w'. map_of (oc_workers oc') i = Some w' \<Longrightarrow> \<exists>w. map_of (oc_workers oc) i = Some w \<and> queues w w'"
  shows "typed oc'"
  unfolding typed_def
proof (intro allI impI ballI)
  fix i w' msg
  assume w': "map_of (oc_workers oc') i = Some w'" and msg: "msg \<in> set (w_send w')"
  obtain w where "map_of (oc_workers oc) i = Some w" "queues w w'" using assms(2) [OF w'] by blast
  with msg assms(1) show "command_ok (w_maxCap w') msg" by (auto simp: queues_def dest: typedD)
qed

lemma queues_push: "queues w v \<Longrightarrow> command_ok (w_maxCap w) msg \<Longrightarrow> queues w (push_command msg v)"
  by (auto simp: queues_def push_command_def)

lemma queues_refl [simp]: "queues w w"
  by (simp add: queues_def)

lemma queues_simps [simp]:
  "queues w (forget n v) = queues w v" "queues w (take_slots c v) = queues w v" "queues w (free_slots c v) = queues w v"
  by (simp_all add: queues_def)

lemma queues_same: "w_maxCap w' = w_maxCap w \<Longrightarrow> w_send w' = w_send w \<Longrightarrow> queues w w'"
  by (simp add: queues_def)

lemma typed_mapply:
  assumes "typed oc" and "\<And>c w. queues w (f c w)" and "oc_workers oc' = mapply f al (oc_workers oc)"
  shows "typed oc'"
proof (rule typed_step [OF assms(1)])
  fix i w'
  assume "map_of (oc_workers oc') i = Some w'"
  then obtain w where "map_of (oc_workers oc) i = Some w" "w' = (case map_of al i of None \<Rightarrow> w | Some c \<Rightarrow> f c w)"
    by (auto simp: assms(3) map_of_mapply)
  then show "\<exists>w. map_of (oc_workers oc) i = Some w \<and> queues w w'" using assms(2) by (simp split: option.split)
qed

text \<open>A share is within the capacity of its worker.\<close>

lemma share_cap:
  assumes "wf_ocean oc" and "ledger oc" and "map_of (oc_jobs oc) n = Some j"
    and "map_of (j_assignments j) i = Some c" and "map_of (oc_workers oc) i = Some w"
  shows "0 < c \<and> c \<le> w_maxCap w"
proof -
  have "0 < c" by (rule share_fits [OF assms(1-4)])
  moreover have "c \<le> held i (oc_jobs oc)" using held_ge_job [OF assms(1,3), of i] assms(4) by (simp add: mget0_def)
  moreover have "held i (oc_jobs oc) \<le> max 0 (w_maxCap w)" using ledgerD [OF assms(2,5)] by simp
  ultimately show ?thesis by simp
qed

section \<open>The operations keep the type\<close>

lemma start_typed:
  assumes "wf_ocean oc" and "typed oc" and "wf_ocean oc'" and "ledger oc'" and step: "start_job db c oc = (e, oc')"
  shows "typed oc'"
  using step
proof (cases rule: start_job_cases)
  case (started alloc)
  let ?cf = "confWithEnv (confFromReq c) (envVars db (activeEnv db))"
  have wf: "wf_map alloc" by (rule pl.plan_wf [OF wf_oceanD(1) [OF assms(1)] started(3)])
  show ?thesis
  proof (rule typed_step [OF assms(2)])
    fix i w'
    assume w': "map_of (oc_workers oc') i = Some w'"
    then obtain w where w: "map_of (oc_workers oc) i = Some w" and
      eq: "w' = (case map_of alloc i of None \<Rightarrow> forget (q_Name c) w
        | Some n \<Rightarrow> push_command (startCommand (q_Name c) ?cf n) (take_slots n (forget (q_Name c) w)))"
      by (auto simp: started(4) fold_madj_eq_mapply [OF wf] map_of_mapply map_of_map_snd)
    have "command_ok (w_maxCap w) (startCommand (q_Name c) ?cf n)" if "map_of alloc i = Some n" for n
    proof (rule command_ok.starts)
      have "map_of (oc_jobs oc') (q_Name c) = Some \<lparr>j_name = q_Name c, j_conf = ?cf,
          j_rawConf = confFromReq c, j_assignments = alloc, j_paused = False\<rparr>" by (simp add: started(4))
      from share_cap [OF assms(3,4) this _ w'] that eq show "0 < n" "n \<le> w_maxCap w" by simp_all
    qed
    then have "queues w w'"
      by (cases "map_of alloc i") (simp_all add: eq queues_push)
    with w show "\<exists>w. map_of (oc_workers oc) i = Some w \<and> queues w w'" by blast
  qed
qed (use assms(2) in simp)

lemma stop_typed:
  assumes "wf_ocean oc" and "typed oc" and step: "stop_job n oc = (e, oc')"
  shows "typed oc'"
  using assms(1) step
proof (cases rule: stop_job_cases)
  case (stopped j)
  show ?thesis
    by (rule typed_mapply [OF assms(2)]) (auto simp: stopped(3) intro: queues_push command_ok.stops)
qed (use assms(2) in simp)

lemma pause_typed:
  assumes "wf_ocean oc" and "typed oc" and step: "pause_job n oc = (e, oc')"
  shows "typed oc'"
  using assms(1) step
proof (cases rule: pause_job_cases)
  case (paused j)
  show ?thesis
    by (rule typed_mapply [OF assms(2)]) (auto simp: paused(3) intro: queues_push command_ok.stops)
qed (use assms(2) in simp)

lemma resume_typed:
  assumes "wf_ocean oc" and "ledger oc" and "typed oc" and "wf_ocean oc'" and "ledger oc'"
    and step: "resume_job db n oc = (e, oc')"
  shows "typed oc'"
  using assms(1) step
proof (cases rule: resume_job_cases)
  case (refused j ws)
  with resume_refused_unchanged [OF assms(1,2) refused(2,3)] assms(3) show ?thesis by simp
next
  case (resumed j al ws)
  let ?cf = "confWithEnv (resume_conf db n j) (envVars db (activeEnv db))"
  note good = resume_plan_good [OF assms(1) resumed(2,3), unfolded good_plan_def]
  have wf: "wf_map al" using good by blast
  show ?thesis
  proof (rule typed_step [OF assms(3)])
    fix i w'
    assume w': "map_of (oc_workers oc') i = Some w'"
    then obtain v where v: "map_of ws i = Some v" and
      eq: "w' = (case map_of al i of None \<Rightarrow> v | Some c \<Rightarrow> push_command (startCommand (j_name j) ?cf c) v)"
      by (auto simp: resumed(4) fold_madj_eq_mapply [OF wf] map_of_mapply)
    obtain w where w: "map_of (oc_workers oc) i = Some w" and same: "w_send v = w_send w" "w_maxCap v = w_maxCap w"
      using good v unfolding replanned_def by blast
    have "command_ok (w_maxCap w) (startCommand (j_name j) ?cf c)" if "map_of al i = Some c" for c
    proof (rule command_ok.starts)
      have "map_of (oc_jobs oc') n = Some (j\<lparr>j_assignments := al, j_conf := ?cf, j_rawConf := resume_conf db n j, j_paused := False\<rparr>)"
        by (simp add: resumed(4))
      from share_cap [OF assms(4,5) this _ w'] that eq same show "0 < c" "c \<le> w_maxCap w" by simp_all
    qed
    then have "queues w w'"
      using queues_same [OF same(2,1)] by (cases "map_of al i") (simp_all add: eq queues_push)
    with w show "\<exists>w. map_of (oc_workers oc) i = Some w \<and> queues w w'" by blast
  qed
qed (use assms(3) in simp)

lemma in_tl: "x \<in> set (tl xs) \<Longrightarrow> x \<in> set xs"
  by (cases xs) auto

lemma ocean_step_typed:
  "ocean_step False oc oc' \<Longrightarrow> wf_ocean oc \<Longrightarrow> ledger oc \<Longrightarrow> wf_ocean oc' \<Longrightarrow> ledger oc' \<Longrightarrow> typed oc \<Longrightarrow> typed oc'"
proof (induction rule: ocean_step.induct)
  case (attach w oc ok oc')
  then show ?case by (auto simp: addWorker_def fresh_worker_def typed_def split: if_splits)
next
  case (detach oc i)
  then show ?case by (auto simp: removeWorker_def typed_def split: option.splits if_splits)
next
  case (report oc i m)
  then show ?case by (auto simp: onReport_def typed_def map_of_madj split: if_splits)
next
  case (sample oc i jb s)
  then show ?case by (auto simp: onSample_def typed_def map_of_madj split: if_splits)
next
  case (drained oc i)
  have "queues w (w\<lparr>w_send := tl (w_send w)\<rparr>)" for w by (auto simp: queues_def dest: in_tl)
  then show ?case
    by (intro typed_step [OF drained(5)]) (auto simp: drain_def map_of_madj split: if_splits)
next
  case (reorder ws oc js)
  then have "map_of ws = map_of (oc_workers oc)" using wf_oceanD(1) map_of_mset_eq by blast
  with reorder show ?case by (simp add: typed_def)
qed (auto intro: start_typed stop_typed pause_typed resume_typed)

interpretation tym: machine ocean_init "ocean_step False" "\<lambda>oc. (wf_ocean oc \<and> ledger oc) \<and> typed oc"
proof unfold_locales
  show "(wf_ocean oc \<and> ledger oc) \<and> typed oc" if "ocean_init oc" for oc
    using tidy.inv_init [OF that] that by (simp add: ocean_init_def typed_def)
  show "(wf_ocean t \<and> ledger t) \<and> typed t" if "(wf_ocean s \<and> ledger s) \<and> typed s" "ocean_step False s t" for s t
    using that tidy.inv_step [OF _ that(2)] ocean_step_typed [OF that(2)] by blast
qed

section \<open>Property\<close>

text \<open>C24: The messages are well-typed. In every run in which no attached worker id registers again,
  each message in the channel of a worker is a command that the worker's receive loop acts
  on: a START with parameters for the test it names and a number of loops between 1 and
  what the worker announced, which then run, or a STOP without parameters, after which none
  runs.\<close>
theorem commands_well_typed:
  assumes "reach ocean_init (ocean_step False) oc" and "map_of (oc_workers oc) i = Some w" and "msg \<in> set (w_send w)"
  shows "\<exists>cmd. GetCommand msg = Some cmd \<and>
    (case c_action cmd of
       START \<Rightarrow> (\<exists>p. c_params cmd = Some p \<and> p_name p = c_job cmd \<and> 1 \<le> p_concurrency p \<and> p_concurrency p \<le> w_maxCap w \<and>
         (\<forall>parse now cl. running (receive parse now msg cl) (c_job cmd) = Some (nat (p_concurrency p))))
     | STOP \<Rightarrow> c_params cmd = None \<and> (\<forall>parse now cl. running (receive parse now msg cl) (c_job cmd) = None)
     | _ \<Rightarrow> False)"
proof -
  note inv = tym.reach_inv [OF assms(1)]
  have "wf_worker i w" using inv assms(2) wf_oceanD(3) by blast
  then have cap: "w_maxCap w < 2 ^ 31" by (simp add: wf_worker_def)
  have "command_ok (w_maxCap w) msg" using inv assms(2,3) typedD by blast
  then show ?thesis
  proof cases
    case (starts c n conf)
    have run: "running (receive parse now msg cl) n = Some (nat c)" for parse now cl
      using starts cap by (simp add: running_receive effect_startCommand)
    have "to_int32 c = c" using starts cap by (simp add: to_int32_id)
    with starts run show ?thesis by (simp add: startCommand_def)
  next
    case (stops n)
    have "running (receive parse now msg cl) n = None" for parse now cl
      using stops by (simp add: running_receive effect_stopCommand)
    with stops show ?thesis by (simp add: stopCommand_def)
  qed
qed

theorem commands_well_typed_witness:
  "\<exists>w msg cmd. map_of (oc_workers run_started) ''b'' = Some w \<and> w_send w = [msg] \<and> GetCommand msg = Some cmd \<and>
     c_action cmd = START \<and> map_option p_concurrency (c_params cmd) = Some 3 \<and> w_maxCap w = 4 \<and>
     (\<exists>p. c_params cmd = Some p \<and> p_concurrency p \<le> w_maxCap w)"
proof -
  have "map_option (\<lambda>w. (map (\<lambda>m. map_option (\<lambda>c. (c_action c, map_option p_concurrency (c_params c))) (GetCommand m)) (w_send w), w_maxCap w))
      (map_of (oc_workers run_started) ''b'') = Some ([Some (START, Some 3)], 4)" by code_simp
  then obtain w msg cmd where w: "map_of (oc_workers run_started) ''b'' = Some w" "w_send w = [msg]" "GetCommand msg = Some cmd"
    "c_action cmd = START" "map_option p_concurrency (c_params cmd) = Some 3" "w_maxCap w = 4"
    by (auto simp: map_eq_Cons_conv)
  from commands_well_typed [OF run_started_reach w(1), of msg] w show ?thesis by auto
qed

end
