(* ===== verification/CommandLine.thy ===== *)
theory CommandLine
  imports WorkerBoot
begin

text \<open>
  How the two programs read their command lines: the standard library's flag package
  and the reader of flags in worker/help.go; the version switch of both mains and what
  readConf (master/ocean.go, worker/tsunami.go) asks of pflag and viper, which are
  arguments.
\<close>

section \<open>Package flag\<close>

text \<open>strconv.ParseInt with base 0 and 64 bits: the base is in the prefix, digits may be grouped.\<close>

definition lower :: "char \<Rightarrow> char" where
  "lower c = (if 65 \<le> byte c \<and> byte c \<le> 90 then char_of (byte c + 32) else c)"

definition digit_of :: "char \<Rightarrow> nat option" where
  "digit_of c =
     (let b = byte (lower c)
      in if 48 \<le> b \<and> b \<le> 57 then Some (b - 48) else if 97 \<le> b \<and> b \<le> 122 then Some (b - 87) else None)"

definition split_base :: "string \<Rightarrow> nat \<times> string" where
  "split_base s =
     (if s \<noteq> [] \<and> hd s = CHR ''0'' then
        (if length s \<ge> 3 \<and> lower (s ! 1) = CHR ''b'' then (2, drop 2 s)
         else if length s \<ge> 3 \<and> lower (s ! 1) = CHR ''o'' then (8, drop 2 s)
         else if length s \<ge> 3 \<and> lower (s ! 1) = CHR ''x'' then (16, drop 2 s)
         else (8, tl s))
      else (10, s))"

fun digits_in :: "nat \<Rightarrow> nat \<Rightarrow> string \<Rightarrow> nat option" where
  "digits_in base n [] = Some n"
| "digits_in base n (c # cs) =
     (if c = CHR ''_'' then digits_in base n cs
      else case digit_of c of
             None \<Rightarrow> None
           | Some d \<Rightarrow> if d < base then digits_in base (n * base + d) cs else None)"

text \<open>strconv.underscoreOK: an underscore stands between digits, or after the prefix of the base.\<close>

datatype seen = Start_of_number | Digit | Underscore | Other

fun underscores_between :: "bool \<Rightarrow> seen \<Rightarrow> string \<Rightarrow> bool" where
  "underscores_between hex saw [] \<longleftrightarrow> saw \<noteq> Underscore"
| "underscores_between hex saw (c # cs) \<longleftrightarrow>
     (if is_digit c \<or> hex \<and> 97 \<le> byte (lower c) \<and> byte (lower c) \<le> 102 then underscores_between hex Digit cs
      else if c = CHR ''_'' then saw = Digit \<and> underscores_between hex Underscore cs
      else saw \<noteq> Underscore \<and> underscores_between hex Other cs)"

definition underscoreOK :: "string \<Rightarrow> bool" where
  "underscoreOK s =
     (if length s \<ge> 2 \<and> hd s = CHR ''0'' \<and> lower (s ! 1) \<in> set ''box''
      then underscores_between (lower (s ! 1) = CHR ''x'') Digit (drop 2 s)
      else underscores_between False Start_of_number s)"

definition ParseInt0 :: "string \<Rightarrow> int option" where
  "ParseInt0 s =
     (let neg = (s \<noteq> [] \<and> hd s = CHR ''-'');
          u = (if s \<noteq> [] \<and> (hd s = CHR ''-'' \<or> hd s = CHR ''+'') then tl s else s)
      in if u = [] then None
         else case split_base u of (base, ds) \<Rightarrow>
           (case digits_in base 0 ds of
              None \<Rightarrow> None
            | Some n \<Rightarrow>
                let v = (if neg then - int n else int n)
                in if CHR ''_'' \<in> set ds \<and> \<not> underscoreOK u \<or> v < int64_min \<or> int64_max < v then None else Some v))"

text \<open>
  A flag is declared with its default value; the declarations are the values to start
  with. An error ends the process with 2, a request for help with 0.
\<close>

datatype flag_value = FString string | FInt int

type_synonym flags = "(string, flag_value) gomap"

fun flag_set :: "flag_value \<Rightarrow> string \<Rightarrow> flag_value option" where
  "flag_set (FString _) s = Some (FString s)"
| "flag_set (FInt _) s = map_option FInt (ParseInt0 s)"

datatype dissected = NoFlag | BadSyntax | Flag string "string option"

definition flag_name :: "string \<Rightarrow> dissected" where
  "flag_name name =
     (if name = [] \<or> hd name = CHR ''-'' \<or> hd name = CHR ''='' then BadSyntax
      else let n = takeWhile (\<lambda>c. c \<noteq> CHR ''='') name
           in if n = name then Flag name None else Flag n (Some (drop (Suc (length n)) name)))"

definition dissect :: "string \<Rightarrow> dissected" where
  "dissect s =
     (if length s < 2 \<or> hd s \<noteq> CHR ''-'' then NoFlag
      else if s ! 1 = CHR ''-'' then (if length s = 2 then NoFlag else flag_name (drop 2 s))
      else flag_name (drop 1 s))"

fun flag_parse :: "string list \<Rightarrow> flags \<Rightarrow> int + flags" where
  "flag_parse [] fs = Inr fs"
| "flag_parse (s # args) fs =
     (case dissect s of
        NoFlag \<Rightarrow> Inr fs
      | BadSyntax \<Rightarrow> Inl 2
      | Flag n v \<Rightarrow>
          (case map_of fs n of
             None \<Rightarrow> Inl (if n = ''help'' \<or> n = ''h'' then 0 else 2)
           | Some old \<Rightarrow>
               (case v of
                  Some x \<Rightarrow> (case flag_set old x of None \<Rightarrow> Inl 2 | Some new \<Rightarrow> flag_parse args (mput n new fs))
                | None \<Rightarrow>
                    (case args of
                       [] \<Rightarrow> Inl 2
                     | x # args' \<Rightarrow>
                         (case flag_set old x of None \<Rightarrow> Inl 2 | Some new \<Rightarrow> flag_parse args' (mput n new fs))))))"

section \<open>The flags of a stand-alone test\<close>

definition conf_flags :: flags where
  "conf_flags =
     [(''url'', FString []), (''host'', FString []), (''port'', FString ''80''), (''uri'', FString ''/''),
      (''concurrence'', FInt 10), (''maxQueues'', FInt 60000), (''maxConns'', FInt 1024)]"

definition string_flag :: "flags \<Rightarrow> string \<Rightarrow> string" where
  "string_flag fs n = (case map_of fs n of Some (FString s) \<Rightarrow> s | _ \<Rightarrow> [])"

definition int_flag :: "flags \<Rightarrow> string \<Rightarrow> int" where
  "int_flag fs n = (case map_of fs n of Some (FInt i) \<Rightarrow> i | _ \<Rightarrow> 0)"

text \<open>ReadConf: the configuration, or the status with which the process ends.\<close>

definition ReadConf :: "string list \<Rightarrow> int + conf" where
  "ReadConf args =
     (case flag_parse args conf_flags of
        Inl status \<Rightarrow> Inl status
      | Inr fs \<Rightarrow>
          if string_flag fs ''url'' = [] \<and> string_flag fs ''host'' = [] then Inl 1
          else Inr (zero_conf\<lparr>URL := string_flag fs ''url'', Host := string_flag fs ''host'',
                 Port := string_flag fs ''port'', Path := string_flag fs ''uri'',
                 Concurrence := int_flag fs ''concurrence'', MaxQueues := int_flag fs ''maxQueues'',
                 MaxConns := int_flag fs ''maxConns''\<rparr>))"

section \<open>The configuration of a program\<close>

text \<open>What readConf tells viper before it reads the file.\<close>

record viper_setup =
  su_name :: string
  su_type :: string
  su_paths :: "string list"
  su_defaults :: "(string \<times> setting) list"
  su_env :: "(string \<times> string) list"

definition program_flags :: "(string \<times> string) list" where
  "program_flags = [(''path'', ''.''), (''file'', ''config.yaml'')]"

definition ocean_setup :: "(string \<Rightarrow> string) \<Rightarrow> viper_setup" where
  "ocean_setup fl =
     \<lparr>su_name = confName (fl ''file''), su_type = ''yaml'', su_paths = [''./'', fl ''path''],
      su_defaults = ocean_defaults,
      su_env = [(''auth.bootstrap_admin.username'', ''ADMIN_USER''), (''auth.bootstrap_admin.password'', ''ADMIN_PASS'')]\<rparr>"

definition worker_setup :: "(string \<Rightarrow> string) \<Rightarrow> viper_setup" where
  "worker_setup fl =
     \<lparr>su_name = confName (fl ''file''), su_type = ''yaml'', su_paths = [''./'', fl ''path''],
      su_defaults = worker_defaults, su_env = []\<rparr>"

text \<open>
  The arguments: pflag makes of the declared flags and the command line the values of the
  flags, or ends the process; viper makes of the setup and the flags the answers to all
  keys, or finds no readable file.
\<close>

record libraries =
  lb_pflag :: "(string \<times> string) list \<Rightarrow> string list \<Rightarrow> (string \<Rightarrow> string) option"
  lb_viper :: "viper_setup \<Rightarrow> (string \<Rightarrow> string) \<Rightarrow> viper option"

datatype ending = Version | Usage | NoConfig | Fatal fatal

definition readConf :: "((string \<Rightarrow> string) \<Rightarrow> viper_setup) \<Rightarrow> libraries \<Rightarrow> string list \<Rightarrow> ending + viper" where
  "readConf su lb args =
     (case lb_pflag lb program_flags args of
        None \<Rightarrow> Inl Usage
      | Some fl \<Rightarrow> (case lb_viper lb (su fl) fl of None \<Rightarrow> Inl NoConfig | Some v \<Rightarrow> Inr v))"

definition version_asked :: "string list \<Rightarrow> bool" where
  "version_asked args \<longleftrightarrow> list_ex (\<lambda>a. a = ''--version'' \<or> a = ''-v'') args"

definition ocean_program ::
  "libraries \<Rightarrow> host \<Rightarrow> string list \<Rightarrow> ending + server \<times> announced option" where
  "ocean_program lb h args =
     (if version_asked args then Inl Version
      else case readConf ocean_setup lb args of
             Inl e \<Rightarrow> Inl e
           | Inr v \<Rightarrow> (case main_ocean v h of Inl f \<Rightarrow> Inl (Fatal f) | Inr r \<Rightarrow> Inr r))"

definition worker_program ::
  "libraries \<Rightarrow> (string list \<Rightarrow> bool) \<Rightarrow> string list \<Rightarrow> ending + worker_process" where
  "worker_program lb connect args =
     (if version_asked args then Inl Version
      else case readConf worker_setup lb args of
             Inl e \<Rightarrow> Inl e
           | Inr v \<Rightarrow> (case main_worker v connect of None \<Rightarrow> Inl (Fatal NoDiscovery) | Some p \<Rightarrow> Inr p))"

section \<open>Numbers on the command line\<close>

lemma lower_digit: "is_digit c \<Longrightarrow> lower c = c"
  by (simp add: is_digit_def lower_def)

lemma digit_of_digit: "is_digit c \<Longrightarrow> digit_of c = Some (byte c - 48)"
  by (simp add: digit_of_def lower_digit Let_def) (simp add: is_digit_def)

lemma digits_in_digits:
  "list_all is_digit s \<Longrightarrow> digits_in 10 n s = Some (foldl (\<lambda>n c. 10 * n + (byte c - 48)) n s)"
proof (induction s arbitrary: n)
  case (Cons c s)
  then have "c \<noteq> CHR ''_''" by (auto simp: is_digit_def byte_def)
  moreover have "byte c - 48 < 10" using Cons.prems by (auto simp: is_digit_def)
  ultimately show ?case using Cons by (simp add: digit_of_digit mult.commute)
qed simp

lemma nat_str_zero: "hd (nat_str n) = CHR ''0'' \<Longrightarrow> n = 0"
proof (induction n rule: nat_str.induct)
  case (1 n)
  show ?case
  proof (cases "n < 10")
    case True
    with 1(2) have "digit_char n = CHR ''0''" by (simp add: nat_str.simps [of n])
    with True byte_digit_char [of n] show ?thesis by (simp add: byte_def)
  next
    case False
    with 1(2) nat_str_nonempty have "hd (nat_str (n div 10)) = CHR ''0''" by (simp add: nat_str.simps [of n])
    with 1(1) [OF False] False show ?thesis by simp
  qed
qed

lemma split_base_decimal: "n \<noteq> 0 \<Longrightarrow> split_base (nat_str n) = (10, nat_str n)"
  using nat_str_zero by (auto simp: split_base_def)

lemma ParseInt0_unsigned:
  assumes "u = nat_str n"
  shows "u \<noteq> [] \<and> hd u \<noteq> CHR ''-'' \<and> hd u \<noteq> CHR ''+'' \<and>
    (\<exists>base ds. split_base u = (base, ds) \<and> digits_in base 0 ds = Some n \<and> CHR ''_'' \<notin> set ds)"
proof (cases "n = 0")
  case True
  have "digit_char 0 = CHR ''0''" by code_simp
  then have "u = ''0''" using assms True by (simp add: nat_str.simps [of 0])
  with True show ?thesis by (simp add: split_base_def)
next
  case False
  have ds: "list_all is_digit (nat_str n)" by (rule nat_str_digits)
  then have "CHR ''_'' \<notin> set (nat_str n)" by (auto simp: list_all_iff is_digit_def byte_def)
  moreover have "digits_in 10 0 (nat_str n) = Some n"
    using digits_in_digits [OF ds, of 0] digits_val_nat_str [of n] by (simp add: digits_val_def)
  ultimately show ?thesis
    using split_base_decimal [OF False] nat_str_hd nat_str_nonempty by (simp add: assms)
qed

lemma ParseInt0_int_str: "int64_min \<le> i \<Longrightarrow> i \<le> int64_max \<Longrightarrow> ParseInt0 (int_str i) = Some i"
  using ParseInt0_unsigned [OF refl, of "nat i"] ParseInt0_unsigned [OF refl, of "nat (- i)"]
  by (auto simp: ParseInt0_def int_str_def Let_def)

section \<open>What is written is read\<close>

text \<open>A setting on the command line: with one or two dashes, its value behind = or as the next word.\<close>

datatype setting_form = Form bool bool

fun flag_text :: "flag_value \<Rightarrow> string" where
  "flag_text (FString s) = s"
| "flag_text (FInt i) = int_str i"

fun flag_words :: "string \<times> flag_value \<times> setting_form \<Rightarrow> string list" where
  "flag_words (n, v, Form two eq) =
     (let dash = (if two then ''--'' else ''-'')
      in if eq then [dash @ n @ ''='' @ flag_text v] else [dash @ n, flag_text v])"

fun same_kind :: "flag_value \<Rightarrow> flag_value \<Rightarrow> bool" where
  "same_kind (FString _) (FString _) \<longleftrightarrow> True"
| "same_kind (FInt _) (FInt i) \<longleftrightarrow> int64_min \<le> i \<and> i \<le> int64_max"
| "same_kind _ _ \<longleftrightarrow> False"

definition fits :: "flags \<Rightarrow> string \<times> flag_value \<times> setting_form \<Rightarrow> bool" where
  "fits fs s \<longleftrightarrow> (case s of (n, v, _) \<Rightarrow>
     n \<noteq> [] \<and> hd n \<noteq> CHR ''-'' \<and> CHR ''='' \<notin> set n \<and> (\<exists>old. map_of fs n = Some old \<and> same_kind old v))"

lemma flag_set_text: "same_kind old v \<Longrightarrow> flag_set old (flag_text v) = Some v"
  by (induction old v rule: same_kind.induct) (simp_all add: ParseInt0_int_str)

lemma same_kind_trans: "same_kind old v \<Longrightarrow> same_kind old v' \<Longrightarrow> same_kind v v'"
  by (cases old; cases v; cases v') auto

lemma dissect_written:
  assumes "n \<noteq> []" and "hd n \<noteq> CHR ''-''" and "CHR ''='' \<notin> set n"
  shows "dissect ((if two then ''--'' else ''-'') @ n) = Flag n None"
    and "dissect ((if two then ''--'' else ''-'') @ n @ ''='' @ x) = Flag n (Some x)"
proof -
  have "takeWhile (\<lambda>c. c \<noteq> CHR ''='') n = n" using assms(3) by (simp add: takeWhile_eq_all_conv) blast
  moreover have "takeWhile (\<lambda>c. c \<noteq> CHR ''='') (n @ CHR ''='' # x) = n"
    using assms(3) by (subst takeWhile_append2) auto
  moreover have "hd n \<noteq> CHR ''=''" using assms(1,3) hd_in_set by metis
  ultimately have "flag_name n = Flag n None" "flag_name (n @ CHR ''='' # x) = Flag n (Some x)"
    using assms(1,2) by (simp_all add: flag_name_def Let_def)
  with assms(1,2) show "dissect ((if two then ''--'' else ''-'') @ n) = Flag n None"
    and "dissect ((if two then ''--'' else ''-'') @ n @ ''='' @ x) = Flag n (Some x)"
    by (cases n; simp add: dissect_def)+
qed

lemma parse_written:
  assumes "fits fs (n, v, f)"
  shows "flag_parse (flag_words (n, v, f) @ args) fs = flag_parse args (mput n v fs)"
proof -
  obtain two eq where f: "f = Form two eq" by (cases f)
  obtain old where old: "map_of fs n = Some old" "same_kind old v" and n: "n \<noteq> []" "hd n \<noteq> CHR ''-''" "CHR ''='' \<notin> set n"
    using assms by (auto simp: fits_def)
  show ?thesis
    using dissect_written(1) [OF n, of two] dissect_written(2) [OF n, of two "flag_text v"] old flag_set_text [OF old(2)]
    by (simp add: f Let_def)
qed

lemma fits_mput: "fits fs s \<Longrightarrow> fits fs (n, v, f) \<Longrightarrow> fits (mput n v fs) s"
  by (auto simp: fits_def split: prod.splits intro: same_kind_trans)

text \<open>The command line of a stand-alone test is read as it is written: whatever declared flags
  it sets, in whatever order and form (one dash or two, the value after = or as the next
  word), the parser ends with exactly these values, the last one where a flag is repeated,
  and the defaults of the rest.\<close>
theorem command_line_read_back:
  assumes "\<And>s. s \<in> set ss \<Longrightarrow> fits fs s"
  shows "flag_parse (concat (map flag_words ss)) fs = Inr (fold (\<lambda>(n, v, _). mput n v) ss fs)"
  using assms
proof (induction ss arbitrary: fs)
  case (Cons s ss)
  obtain n v f where s: "s = (n, v, f)" using prod_cases3 by blast
  have fit: "fits fs (n, v, f)" using Cons.prems [of s] by (simp add: s)
  have "flag_parse (concat (map flag_words ss)) (mput n v fs) = Inr (fold (\<lambda>(n, v, _). mput n v) ss (mput n v fs))"
    by (rule Cons.IH) (use Cons.prems fit fits_mput in auto)
  then show ?case using parse_written [OF fit] by (simp add: s)
qed simp

theorem command_line_read_back_witness:
  "map_option (\<lambda>c. (URL c, Port c, Concurrence c)) (case ReadConf [''-url'', ''http://t/'', ''--concurrence=0x1F''] of Inl _ \<Rightarrow> None | Inr c \<Rightarrow> Some c) =
     Some (''http://t/'', ''80'', 31) \<and>
   flag_parse (concat (map flag_words [(''url'', FString ''http://t/'', Form False False), (''maxConns'', FInt (-5), Form True True)])) conf_flags =
     Inr (fold (\<lambda>(n, v, _). mput n v) [(''url'', FString ''http://t/'', Form False False), (''maxConns'', FInt (-5), Form True True)] conf_flags)"
proof (rule conjI)
  show "map_option (\<lambda>c. (URL c, Port c, Concurrence c)) (case ReadConf [''-url'', ''http://t/'', ''--concurrence=0x1F''] of Inl _ \<Rightarrow> None | Inr c \<Rightarrow> Some c) =
     Some (''http://t/'', ''80'', 31)" by code_simp
  show "flag_parse (concat (map flag_words [(''url'', FString ''http://t/'', Form False False), (''maxConns'', FInt (-5), Form True True)])) conf_flags =
     Inr (fold (\<lambda>(n, v, _). mput n v) [(''url'', FString ''http://t/'', Form False False), (''maxConns'', FInt (-5), Form True True)] conf_flags)"
    by (rule command_line_read_back) (auto simp: fits_def conf_flags_def int64_min_def int64_max_def)
qed

section \<open>The configuration file that is looked for\<close>

text \<open>The name is cut at the first dot of the whole argument, so a path that starts with ./ or
  has a dot in a directory names another file than the one meant.\<close>

theorem dotted_path_names_another_file:
  assumes "CHR ''.'' \<notin> set dir"
  shows "su_name (ocean_setup (\<lambda>_. dir @ ''.'' @ rest)) = dir" and "su_name (worker_setup (\<lambda>_. dir @ ''.'' @ rest)) = dir"
proof -
  have "takeWhile (\<lambda>c. c \<noteq> CHR ''.'') (dir @ CHR ''.'' # rest) = dir"
    using assms by (subst takeWhile_append2) auto
  then show "su_name (ocean_setup (\<lambda>_. dir @ ''.'' @ rest)) = dir" and "su_name (worker_setup (\<lambda>_. dir @ ''.'' @ rest)) = dir"
    by (simp_all add: ocean_setup_def worker_setup_def confName_def)
qed

text \<open>A program that is up has read its configuration with these defaults.\<close>

lemma ocean_program_up:
  "ocean_program lb h args = Inr r \<Longrightarrow> \<not> version_asked args \<and>
   (\<exists>fl v. lb_pflag lb program_flags args = Some fl \<and> lb_viper lb (ocean_setup fl) fl = Some v \<and> main_ocean v h = Inr r)"
  by (auto simp: ocean_program_def readConf_def split: if_splits option.splits sum.splits)

lemma worker_program_up:
  "worker_program lb connect args = Inr p \<Longrightarrow> \<not> version_asked args \<and>
   (\<exists>fl v. lb_pflag lb program_flags args = Some fl \<and> lb_viper lb (worker_setup fl) fl = Some v \<and> main_worker v connect = Some p)"
  by (auto simp: worker_program_def readConf_def split: if_splits option.splits sum.splits)

end
