(* ===== verification/JsonText.thy ===== *)
theory JsonText
  imports Libs
begin

text \<open>
  The text that encoding/json makes of a value, and a reader of JSON texts. A reader is
  what the web console and every other client apply to an answer: RFC 8259, with the white
  space it allows. The text of a float (strconv) and the value of a number that is no integer
  are arguments. The lemmas end in the round trip: what is written is read.
\<close>

section \<open>Runes\<close>

text \<open>unicode/utf8: the length of the rune at the front, 0 where the bytes are not one.\<close>

definition continuation :: "char \<Rightarrow> bool" where
  "continuation c \<longleftrightarrow> 0x80 \<le> byte c \<and> byte c \<le> 0xBF"

definition second_ok :: "nat \<Rightarrow> nat \<Rightarrow> bool" where
  "second_ok b b1 \<longleftrightarrow>
     (if b = 0xE0 then 0xA0 \<le> b1 else if b = 0xED then b1 \<le> 0x9F
      else if b = 0xF0 then 0x90 \<le> b1 else if b = 0xF4 then b1 \<le> 0x8F else True)"

definition announced_len :: "nat \<Rightarrow> nat" where
  "announced_len b =
     (if b < 0x80 then 1 else if 0xC2 \<le> b \<and> b \<le> 0xDF then 2 else if 0xE0 \<le> b \<and> b \<le> 0xEF then 3
      else if 0xF0 \<le> b \<and> b \<le> 0xF4 then 4 else 0)"

definition rune_len :: "string \<Rightarrow> nat" where
  "rune_len s =
     (case s of
        [] \<Rightarrow> 0
      | c # t \<Rightarrow>
          let n = announced_len (byte c)
          in if n \<le> length s \<and> list_all continuation (take (n - 1) t) \<and> (1 < n \<longrightarrow> second_ok (byte c) (byte (hd t)))
             then n else 0)"

lemma rune_len_le: "rune_len s \<le> length s"
  by (simp add: rune_len_def Let_def split: list.split)

function valid_utf8 :: "string \<Rightarrow> bool" where
  "valid_utf8 s =
     (if s = [] then True else if rune_len s = 0 then False else valid_utf8 (drop (rune_len s) s))"
  by pat_completeness auto
termination
  by (relation "measure length") auto

declare valid_utf8.simps [simp del]

section \<open>JSON texts\<close>

text \<open>encoding/json: a string with the characters escaped that HTML or JavaScript would mistake;
  a byte that belongs to no rune comes out as an escaped replacement character.\<close>

definition dquote :: char where "dquote = CHR 0x22"
definition backslash :: char where "backslash = CHR 0x5C"

definition hex_char :: "nat \<Rightarrow> char" where
  "hex_char n = char_of (if n < 10 then 48 + n else 87 + n)"

definition escape :: "char \<Rightarrow> string" where
  "escape c =
     (if c = dquote \<or> c = backslash then [backslash, c]
      else if byte c = 8 then [backslash, CHR ''b'']
      else if byte c = 9 then [backslash, CHR ''t'']
      else if byte c = 10 then [backslash, CHR ''n'']
      else if byte c = 12 then [backslash, CHR ''f'']
      else if byte c = 13 then [backslash, CHR ''r'']
      else if byte c < 0x20 \<or> c = CHR ''<'' \<or> c = CHR ''>'' \<or> c = CHR ''&'' then
        [backslash, CHR ''u'', CHR ''0'', CHR ''0'', hex_char (byte c div 16), hex_char (byte c mod 16)]
      else [c])"

definition escape_rune :: "string \<Rightarrow> string" where
  "escape_rune r =
     (if r = [CHR 0xE2, CHR 0x80, CHR 0xA8] then backslash # ''u2028''
      else if r = [CHR 0xE2, CHR 0x80, CHR 0xA9] then backslash # ''u2029''
      else r)"

function json_chars :: "string \<Rightarrow> string" where
  "json_chars [] = []"
| "json_chars (c # s) =
     (if byte c < 0x80 then escape c @ json_chars s
      else let n = rune_len (c # s)
           in if n = 0 then backslash # ''ufffd'' @ json_chars s
              else escape_rune (take n (c # s)) @ json_chars (drop n (c # s)))"
  by pat_completeness auto
termination
  by (relation "measure length") (auto simp: Let_def)

definition json_str :: "string \<Rightarrow> string" where
  "json_str s = dquote # json_chars s @ [dquote]"


primrec json_text :: "(real \<Rightarrow> string) \<Rightarrow> json \<Rightarrow> string" where
  "json_text fr JNull = ''null''"
| "json_text fr (JBool b) = (if b then ''true'' else ''false'')"
| "json_text fr (JInt i) = int_str i"
| "json_text fr (JReal x) = fr x"
| "json_text fr (JStr s) = json_str s"
| "json_text fr (JArr xs) = ''['' @ join '','' (map (json_text fr) xs) @ '']''"
| "json_text fr (JObj ms) =
     ''{'' @ join '','' (map (\<lambda>(k, t). json_str k @ '':'' @ t) (map (map_prod id (json_text fr)) ms)) @ ''}''"

section \<open>Reading\<close>

definition is_ws :: "char \<Rightarrow> bool" where
  "is_ws c \<longleftrightarrow> byte c \<in> {9, 10, 13, 32}"

definition skip_ws :: "string \<Rightarrow> string" where
  "skip_ws s = dropWhile is_ws s"

definition hex_val :: "char \<Rightarrow> nat option" where
  "hex_val c =
     (let b = byte c
      in if 48 \<le> b \<and> b \<le> 57 then Some (b - 48)
         else if 97 \<le> b \<and> b \<le> 102 then Some (b - 87)
         else if 65 \<le> b \<and> b \<le> 70 then Some (b - 55) else None)"

fun hex4 :: "string \<Rightarrow> (nat \<times> string) option" where
  "hex4 (a # b # c # d # s) =
     (case (hex_val a, hex_val b, hex_val c, hex_val d) of
        (Some a, Some b, Some c, Some d) \<Rightarrow> Some (((a * 16 + b) * 16 + c) * 16 + d, s)
      | _ \<Rightarrow> None)"
| "hex4 _ = None"

text \<open>The UTF-8 bytes of a rune.\<close>

definition rune_bytes :: "nat \<Rightarrow> string" where
  "rune_bytes n =
     (if n < 0x80 then [char_of n]
      else if n < 0x800 then [char_of (0xC0 + n div 0x40), char_of (0x80 + n mod 0x40)]
      else if n < 0x10000 then
        [char_of (0xE0 + n div 0x1000), char_of (0x80 + n div 0x40 mod 0x40), char_of (0x80 + n mod 0x40)]
      else [char_of (0xF0 + n div 0x40000), char_of (0x80 + n div 0x1000 mod 0x40),
            char_of (0x80 + n div 0x40 mod 0x40), char_of (0x80 + n mod 0x40)])"

text \<open>After the letter u of an escape: a pair of surrogates is one rune, a lone one is replaced.\<close>

definition surrogate :: "nat \<Rightarrow> bool" where
  "surrogate n \<longleftrightarrow> 0xD800 \<le> n \<and> n < 0xE000"

definition unicode_escape :: "string \<Rightarrow> (string \<times> string) option" where
  "unicode_escape s =
     (case hex4 s of
        None \<Rightarrow> None
      | Some (n, t) \<Rightarrow>
          if \<not> surrogate n then Some (rune_bytes n, t)
          else (case (if take 2 t = backslash # ''u'' then hex4 (drop 2 t) else None) of
                  Some (m, u) \<Rightarrow>
                    if n < 0xDC00 \<and> 0xDC00 \<le> m \<and> m < 0xE000
                    then Some (rune_bytes (0x10000 + (n - 0xD800) * 0x400 + (m - 0xDC00)), u)
                    else Some (rune_bytes 0xFFFD, t)
                | None \<Rightarrow> Some (rune_bytes 0xFFFD, t)))"

definition short_escape :: "char \<Rightarrow> char option" where
  "short_escape c =
     map_of [(dquote, dquote), (backslash, backslash), (CHR ''/'', CHR ''/''), (CHR ''b'', CHR 0x08),
             (CHR ''f'', CHR 0x0C), (CHR ''n'', CHR 0x0A), (CHR ''r'', CHR 0x0D), (CHR ''t'', CHR 0x09)] c"

text \<open>What follows a backslash, and the rest.\<close>

definition read_escape :: "string \<Rightarrow> (string \<times> string) option" where
  "read_escape s =
     (case s of
        [] \<Rightarrow> None
      | c # t \<Rightarrow>
          if c = CHR ''u'' then unicode_escape t
          else map_option (\<lambda>d. ([d], t)) (short_escape c))"

lemma hex4_length: "hex4 s = Some (n, t) \<Longrightarrow> length t < length s"
  by (induction s rule: hex4.induct) (auto split: option.splits)

lemma read_escape_length: "read_escape s = Some (r, t) \<Longrightarrow> length t < length s"
  by (auto simp: read_escape_def unicode_escape_def split: list.splits option.splits if_splits dest!: hex4_length)

text \<open>
  The characters of a string whose opening quote is read, up to the closing one; a byte that
  belongs to no rune is replaced.
\<close>

function read_chars :: "string \<Rightarrow> (string \<times> string) option" where
  "read_chars [] = None"
| "read_chars (c # s) =
     (if c = dquote then Some ([], s)
      else if c = backslash then
        (case read_escape s of
           None \<Rightarrow> None
         | Some (r, t) \<Rightarrow> map_option (apfst ((@) r)) (read_chars t))
      else if byte c < 0x20 then None
      else if byte c < 0x80 then map_option (apfst ((#) c)) (read_chars s)
      else let n = rune_len (c # s)
           in if n = 0 then map_option (apfst ((@) (rune_bytes 0xFFFD))) (read_chars s)
              else map_option (apfst ((@) (take n (c # s)))) (read_chars (drop n (c # s))))"
  by pat_completeness auto
termination
  by (relation "measure length") (auto dest: read_escape_length simp: Let_def)

declare read_chars.simps [simp del]

text \<open>Numbers: an integer has no leading zero; other numbers are read by the argument.\<close>

definition number_char :: "char \<Rightarrow> bool" where
  "number_char c \<longleftrightarrow> is_digit c \<or> c \<in> set ''+-.eE''"

definition integer_val :: "string \<Rightarrow> int option" where
  "integer_val s =
     (let neg = (s \<noteq> [] \<and> hd s = CHR ''-''); ds = (if neg then tl s else s)
      in if ds = [] \<or> \<not> list_all is_digit ds \<or> (hd ds = CHR ''0'' \<and> tl ds \<noteq> []) then None
         else Some (if neg then - int (digits_val ds) else int (digits_val ds)))"

definition read_number :: "(string \<Rightarrow> real option) \<Rightarrow> string \<Rightarrow> (json \<times> string) option" where
  "read_number fl s =
     (let tok = takeWhile number_char s; rest = dropWhile number_char s
      in case integer_val tok of
           Some i \<Rightarrow> Some (JInt i, rest)
         | None \<Rightarrow> if tok = [] then None else map_option (\<lambda>x. (JReal x, rest)) (fl tok))"

definition read_word :: "(string \<Rightarrow> real option) \<Rightarrow> string \<Rightarrow> (json \<times> string) option" where
  "read_word fl s =
     (if starts_with ''null'' s then Some (JNull, drop 4 s)
      else if starts_with ''true'' s then Some (JBool True, drop 4 s)
      else if starts_with ''false'' s then Some (JBool False, drop 5 s)
      else read_number fl s)"

text \<open>The key of a member with its colon.\<close>

definition read_key :: "string \<Rightarrow> (string \<times> string) option" where
  "read_key s =
     (case skip_ws s of
        [] \<Rightarrow> None
      | q # t \<Rightarrow>
          if q \<noteq> dquote then None
          else (case read_chars t of
                  None \<Rightarrow> None
                | Some (k, u) \<Rightarrow>
                    (case skip_ws u of
                       [] \<Rightarrow> None
                     | c # v \<Rightarrow> if c = CHR '':'' then Some (k, v) else None)))"

text \<open>
  Values, the elements of an array and the members of an object whose bracket is read. The fuel
  bounds the depth of the calls; twice the length of the text is enough, since no more than two
  calls follow each other without a character read in between.
\<close>

fun read_value :: "(string \<Rightarrow> real option) \<Rightarrow> nat \<Rightarrow> string \<Rightarrow> (json \<times> string) option"
  and read_elems :: "(string \<Rightarrow> real option) \<Rightarrow> nat \<Rightarrow> string \<Rightarrow> (json list \<times> string) option"
  and read_members :: "(string \<Rightarrow> real option) \<Rightarrow> nat \<Rightarrow> string \<Rightarrow> ((string \<times> json) list \<times> string) option"
where
  "read_value fl 0 s = None"
| "read_value fl (Suc n) s =
     (case skip_ws s of
        [] \<Rightarrow> None
      | c # t \<Rightarrow>
          if c = dquote then map_option (apfst JStr) (read_chars t)
          else if c = CHR ''['' then
            (if take 1 (skip_ws t) = '']'' then Some (JArr [], tl (skip_ws t))
             else map_option (apfst JArr) (read_elems fl n t))
          else if c = CHR ''{'' then
            (if take 1 (skip_ws t) = ''}'' then Some (JObj [], tl (skip_ws t))
             else map_option (apfst JObj) (read_members fl n t))
          else read_word fl (c # t))"
| "read_elems fl 0 s = None"
| "read_elems fl (Suc n) s =
     (case read_value fl n s of
        None \<Rightarrow> None
      | Some (v, t) \<Rightarrow>
          (case skip_ws t of
             [] \<Rightarrow> None
           | c # u \<Rightarrow>
               if c = CHR '']'' then Some ([v], u)
               else if c = CHR '','' then map_option (apfst ((#) v)) (read_elems fl n u)
               else None))"
| "read_members fl 0 s = None"
| "read_members fl (Suc n) s =
     (case read_key s of
        None \<Rightarrow> None
      | Some (k, s') \<Rightarrow>
          (case read_value fl n s' of
             None \<Rightarrow> None
           | Some (v, t) \<Rightarrow>
               (case skip_ws t of
                  [] \<Rightarrow> None
                | c # u \<Rightarrow>
                    if c = CHR ''}'' then Some ([(k, v)], u)
                    else if c = CHR '','' then map_option (apfst ((#) (k, v))) (read_members fl n u)
                    else None)))"

definition read_json :: "(string \<Rightarrow> real option) \<Rightarrow> string \<Rightarrow> json option" where
  "read_json fl s =
     (case read_value fl (Suc (2 * length s)) s of
        None \<Rightarrow> None
      | Some (v, t) \<Rightarrow> if skip_ws t = [] then Some v else None)"

section \<open>The fuel is enough\<close>

lemma skip_ws_length: "length (skip_ws s) \<le> length s"
  by (simp add: skip_ws_def length_dropWhile_le)

lemma skip_ws_shorter: "skip_ws s = c # t \<Longrightarrow> length t < length s"
  using skip_ws_length [of s] by simp

lemma tl_skip_ws: "take 1 (skip_ws s) = [c] \<Longrightarrow> length (tl (skip_ws s)) < length s"
  using skip_ws_length [of s] by (cases "skip_ws s") auto

lemma read_chars_length: "read_chars s = Some (r, t) \<Longrightarrow> length t < length s"
proof (induction s arbitrary: r t rule: read_chars.induct)
  case 1
  then show ?case by (simp add: read_chars.simps)
next
  case (2 c s)
  consider (quote) "c = dquote" | (escape) "c = backslash" "c \<noteq> dquote"
    | (ascii) "c \<noteq> dquote" "c \<noteq> backslash" "\<not> byte c < 0x20" "byte c < 0x80"
    | (lone) "c \<noteq> dquote" "c \<noteq> backslash" "\<not> byte c < 0x20" "\<not> byte c < 0x80" "rune_len (c # s) = 0"
    | (rune) "c \<noteq> dquote" "c \<noteq> backslash" "\<not> byte c < 0x20" "\<not> byte c < 0x80" "rune_len (c # s) \<noteq> 0"
    using 2(5) by (subst (asm) read_chars.simps) (fastforce split: if_splits)
  then show ?case
  proof cases
    case quote
    with 2(5) show ?thesis by (subst (asm) read_chars.simps) auto
  next
    case escape
    with 2(5) obtain q u v where "read_escape s = Some (q, u)" "read_chars u = Some (v, t)"
      by (subst (asm) read_chars.simps) (auto simp: apfst_def split: option.splits)
    then show ?thesis using escape 2(1) [of "(q, u)" q u] read_escape_length [of s q u] by auto
  next
    case ascii
    with 2(5) obtain v where "read_chars s = Some (v, t)"
      by (subst (asm) read_chars.simps) (auto simp: apfst_def)
    then show ?thesis using 2(2) ascii by fastforce
  next
    case lone
    with 2(5) obtain v where "read_chars s = Some (v, t)"
      by (subst (asm) read_chars.simps) (auto simp: apfst_def Let_def)
    then show ?thesis using 2(3) [OF _ _ _ _ refl] lone by fastforce
  next
    case rune
    with 2(5) obtain v where "read_chars (drop (rune_len (c # s)) (c # s)) = Some (v, t)"
      by (subst (asm) read_chars.simps) (auto simp: apfst_def Let_def)
    then have "length t < length (drop (rune_len (c # s)) (c # s))" using 2(4) [OF rune(1-4) refl rune(5)] by blast
    then show ?thesis by simp
  qed
qed

lemma read_number_length: "read_number fl s = Some (v, t) \<Longrightarrow> length t < length s"
proof -
  assume r: "read_number fl s = Some (v, t)"
  then have "t = dropWhile number_char s" "takeWhile number_char s \<noteq> []"
    by (auto simp: read_number_def Let_def integer_val_def split: option.splits if_splits)
  then show ?thesis
    using arg_cong [OF takeWhile_dropWhile_id [of number_char s], of length] by (cases "takeWhile number_char s") auto
qed

lemma read_word_length: "read_word fl s = Some (v, t) \<Longrightarrow> length t < length s"
  by (auto simp: read_word_def dest: read_number_length starts_with_length split: if_splits)

lemma read_key_length: "read_key s = Some (k, t) \<Longrightarrow> length t < length s"
  by (auto simp: read_key_def split: list.splits if_splits option.splits
      dest!: skip_ws_shorter read_chars_length)

text \<open>Whatever is read, at least one character is.\<close>

lemma read_length:
  "read_value fl n s = Some (v, t) \<Longrightarrow> length t < length s"
  "read_elems fl n s = Some (vs, t) \<Longrightarrow> length t < length s"
  "read_members fl n s = Some (ms, t) \<Longrightarrow> length t < length s"
proof (induction fl n s and fl n s and fl n s arbitrary: v t and vs t and ms t rule: read_value_read_elems_read_members.induct)
  case (2 fl n s)
  then obtain c u where c: "skip_ws s = c # u" by (auto split: list.splits)
  note l = skip_ws_shorter [OF c]
  consider "c = dquote" | "c = CHR ''[''" "c \<noteq> dquote" | "c = CHR ''{''" "c \<noteq> dquote"
    | "c \<noteq> dquote" "c \<noteq> CHR ''[''" "c \<noteq> CHR ''{''" by blast
  then show ?case
  proof cases
    case 1
    then show ?thesis using 2(3) c l by (auto simp: apfst_def dest: read_chars_length)
  next
    case b: 2
    show ?thesis
    proof (cases "take 1 (skip_ws u) = '']''")
      case True
      then show ?thesis using 2(3) c l b tl_skip_ws [OF True] by auto
    next
      case False
      then obtain r where "read_elems fl n u = Some (r, t)" using 2(3) c b by (auto simp: apfst_def)
      then show ?thesis using 2(1) [OF c b(2,1) False] l by auto
    qed
  next
    case b: 3
    show ?thesis
    proof (cases "take 1 (skip_ws u) = ''}''")
      case True
      then show ?thesis using 2(3) c l b tl_skip_ws [OF True] by auto
    next
      case False
      then obtain r where "read_members fl n u = Some (r, t)" using 2(3) c b by (auto simp: apfst_def)
      moreover have "c \<noteq> CHR ''[''" using b by simp
      ultimately show ?thesis using 2(2) [OF c b(2) _ b(1) False] l by auto
    qed
  next
    case 4
    then show ?thesis using 2(3) c skip_ws_length [of s] by (auto dest!: read_word_length)
  qed
next
  case (4 fl n s)
  then obtain v u where v: "read_value fl n s = Some (v, u)" by (auto split: option.splits)
  with 4(3) obtain c w where c: "skip_ws u = c # w" by (auto split: list.splits)
  have "length u < length s" using 4(1) [OF v] .
  moreover have "length w < length u" by (rule skip_ws_shorter [OF c])
  ultimately show ?case using 4 v c by (force simp: apfst_def split: if_splits)
next
  case (6 fl n s)
  obtain k s' where k: "read_key s = Some (k, s')" using 6(3) by (auto split: option.splits)
  obtain v u where v: "read_value fl n s' = Some (v, u)" using 6(3) k by (auto split: option.splits)
  obtain c w where c: "skip_ws u = c # w" using 6(3) k v by (auto split: list.splits)
  have "length u < length s'" using 6(1) [OF k refl v] .
  then have l: "length w < length s" using read_key_length [OF k] skip_ws_shorter [OF c] by linarith
  show ?case
  proof (cases "c = CHR ''}''")
    case True
    then show ?thesis using 6(3) k v c l by simp
  next
    case False
    then obtain r where r: "c = CHR '',''" "read_members fl n w = Some (r, t)"
      using 6(3) k v c by (auto simp: apfst_def split: if_splits)
    then show ?thesis using 6(2) [OF k refl v refl c False r] l by simp
  qed
qed simp_all

text \<open>More fuel than twice the length of the text changes nothing.\<close>

lemma read_fuel:
  "2 * length s < n \<Longrightarrow> read_value fl (Suc n) s = read_value fl n s"
  "2 * length s + 1 < n \<Longrightarrow> read_elems fl (Suc n) s = read_elems fl n s"
  "2 * length s + 1 < n \<Longrightarrow> read_members fl (Suc n) s = read_members fl n s"
proof (induction fl n s and fl n s and fl n s rule: read_value_read_elems_read_members.induct)
  case (2 fl n s)
  show ?case
  proof (cases "skip_ws s")
    case Nil
    then show ?thesis by (simp only: read_value.simps list.case)
  next
    case (Cons c t)
    with 2(3) skip_ws_shorter [OF Cons] have l: "2 * length t + 1 < n" by simp
    have A: "c = CHR ''['' \<Longrightarrow> take 1 (skip_ws t) \<noteq> '']'' \<Longrightarrow> read_elems fl (Suc n) t = read_elems fl n t"
      by (rule 2(1) [OF Cons _ _ _ l]) (auto simp: dquote_def)
    have B: "c = CHR ''{'' \<Longrightarrow> take 1 (skip_ws t) \<noteq> ''}'' \<Longrightarrow> read_members fl (Suc n) t = read_members fl n t"
      by (rule 2(2) [OF Cons _ _ _ _ l]) (auto simp: dquote_def)
    show ?thesis unfolding read_value.simps(2) Cons list.case
      by (intro if_cong refl) (simp_all only: A B not_False_eq_True)
  qed
next
  case (4 fl n s)
  have v: "read_value fl (Suc n) s = read_value fl n s" using 4(1,3) by simp
  note e = read_elems.simps(2) [of fl _ s]
  show ?case
  proof (cases "read_value fl n s")
    case None
    then show ?thesis unfolding e v by simp
  next
    case (Some r)
    obtain x t where r: "r = (x, t)" by (cases r)
    show ?thesis
    proof (cases "skip_ws t")
      case Nil
      then show ?thesis unfolding e v Some r by simp
    next
      case (Cons c u)
      have "length t < length s" using read_length(1) Some r by blast
      then have "2 * length u + 1 < n" using 4(3) skip_ws_shorter [OF Cons] by linarith
      then have A: "c = CHR '','' \<Longrightarrow> read_elems fl (Suc n) u = read_elems fl n u"
        using 4(2) [OF Some r [symmetric] Cons] by simp
      show ?thesis unfolding e v Some r prod.case option.case Cons list.case
        by (intro if_cong refl) (simp_all only: A)
    qed
  qed
next
  case (6 fl n s)
  note e = read_members.simps(2) [of fl _ s]
  show ?case
  proof (cases "read_key s")
    case None
    then show ?thesis unfolding e by simp
  next
    case (Some p)
    obtain k s' where p: "p = (k, s')" by (cases p)
    have s': "length s' < length s" using read_key_length Some p by blast
    then have v: "read_value fl (Suc n) s' = read_value fl n s'" using 6(1) [OF Some p [symmetric]] 6(3) by simp
    show ?thesis
    proof (cases "read_value fl n s'")
      case None
      then show ?thesis by (simp only: e v Some p option.case prod.case)
    next
      case r: (Some r)
      obtain x t where x: "r = (x, t)" by (cases r)
      show ?thesis
      proof (cases "skip_ws t")
        case Nil
        then show ?thesis by (simp only: e v Some p r x option.case prod.case list.case)
      next
        case (Cons c u)
        have "length t < length s'" using read_length(1) r x by blast
        then have "2 * length u + 1 < n" using 6(3) s' skip_ws_shorter [OF Cons] by linarith
        then have A: "c = CHR '','' \<Longrightarrow> read_members fl (Suc n) u = read_members fl n u"
          using 6(2) [OF Some p [symmetric] r x [symmetric] Cons] by simp
        show ?thesis unfolding e Some p prod.case option.case v r x Cons list.case
          by (intro if_cong refl) (simp_all only: A)
      qed
    qed
  qed
qed simp_all

lemma read_value_fuel: "2 * length s < n \<Longrightarrow> read_value fl n s = read_value fl (Suc (2 * length s)) s"
proof (induction n)
  case (Suc n)
  then show ?case using read_fuel(1) [of s n fl] by (cases "n = 2 * length s") auto
qed simp

section \<open>What is written is read\<close>

lemma byte_simps [simp]: "byte (char_of n) = n mod 256" "char_of (byte c) = (c :: char)" "byte c < 256"
  by (simp_all add: byte_def)

lemma byte_dquote [simp]: "byte dquote = 0x22" and byte_backslash [simp]: "byte backslash = 0x5C"
  by (simp_all add: dquote_def backslash_def byte_def)

lemma dquote_backslash [simp]: "dquote \<noteq> backslash" "backslash \<noteq> dquote"
  by (simp_all add: dquote_def backslash_def)

lemma hex_val_char: "n < 16 \<Longrightarrow> hex_val (hex_char n) = Some n"
  by (auto simp: hex_val_def hex_char_def Let_def)

lemma read_chars_plain:
  "c \<noteq> dquote \<Longrightarrow> c \<noteq> backslash \<Longrightarrow> 0x20 \<le> byte c \<Longrightarrow> byte c < 0x80 \<Longrightarrow> read_chars (c # s) = map_option (apfst ((#) c)) (read_chars s)"
  by (subst read_chars.simps) simp

lemma read_chars_quote: "read_chars (dquote # s) = Some ([], s)"
  by (subst read_chars.simps) simp

lemma read_chars_escape:
  "read_escape s = Some (r, t) \<Longrightarrow> read_chars (backslash # s) = map_option (apfst ((@) r)) (read_chars t)"
  by (subst read_chars.simps) simp

lemma apfst_Cons: "apfst ((@) [c]) = apfst ((#) c)"
  by (simp add: fun_eq_iff apfst_def)

lemma read_escape_control: "byte c < 0x80 \<Longrightarrow>
    read_escape (CHR ''u'' # CHR ''0'' # CHR ''0'' # hex_char (byte c div 16) # hex_char (byte c mod 16) # s) = Some ([c], s)"
proof -
  assume c: "byte c < 0x80"
  have "hex_val (CHR ''0'') = Some 0" by (simp add: hex_val_def byte_def)
  moreover have "hex_val (hex_char (byte c div 16)) = Some (byte c div 16)" "hex_val (hex_char (byte c mod 16)) = Some (byte c mod 16)"
    using c by (auto intro: hex_val_char)
  ultimately show ?thesis using c by (simp add: read_escape_def unicode_escape_def surrogate_def rune_bytes_def)
qed

lemma short_escapes [simp]:
  "short_escape dquote = Some dquote" "short_escape backslash = Some backslash" "short_escape (CHR ''b'') = Some (CHR 0x08)"
  "short_escape (CHR ''t'') = Some (CHR 0x09)" "short_escape (CHR ''n'') = Some (CHR 0x0A)"
  "short_escape (CHR ''f'') = Some (CHR 0x0C)" "short_escape (CHR ''r'') = Some (CHR 0x0D)"
  by (simp_all add: short_escape_def dquote_def backslash_def)

lemma short_escape_read: "c \<noteq> CHR ''u'' \<Longrightarrow> short_escape c = Some d \<Longrightarrow> read_escape (c # s) = Some ([d], s)"
  by (simp add: read_escape_def)

lemma named_controls:
  "byte c = 8 \<longleftrightarrow> c = CHR 0x08" "byte c = 9 \<longleftrightarrow> c = CHR 0x09" "byte c = 10 \<longleftrightarrow> c = CHR 0x0A"
  "byte c = 12 \<longleftrightarrow> c = CHR 0x0C" "byte c = 13 \<longleftrightarrow> c = CHR 0x0D"
  using byte_inj [of c "CHR 0x08"] byte_inj [of c "CHR 0x09"] byte_inj [of c "CHR 0x0A"] byte_inj [of c "CHR 0x0C"]
    byte_inj [of c "CHR 0x0D"] by (simp_all add: byte_def)

lemma u_not_quote [simp]: "dquote \<noteq> CHR ''u''" "backslash \<noteq> CHR ''u''"
  by (simp_all add: dquote_def backslash_def)

lemma read_escaped: "byte c < 0x80 \<Longrightarrow> read_chars (escape c @ s) = map_option (apfst ((#) c)) (read_chars s)"
  using byte_simps(3) [of c]
  by (auto simp: escape_def read_chars_escape short_escape_read read_escape_control apfst_Cons named_controls read_chars_plain)

lemma separator_bytes:
  "char_of (0xE2 :: nat) = CHR 0xE2" "char_of (0x80 :: nat) = CHR 0x80" "char_of (0xA8 :: nat) = CHR 0xA8"
  "char_of (0xA9 :: nat) = CHR 0xA9"
  by (simp_all flip: byte_inj) (simp_all add: byte_def)

lemma read_separators:
  "read_escape (''u2028'' @ s) = Some ([CHR 0xE2, CHR 0x80, CHR 0xA8], s)"
  "read_escape (''u2029'' @ s) = Some ([CHR 0xE2, CHR 0x80, CHR 0xA9], s)"
  by (simp_all add: read_escape_def unicode_escape_def hex_val_def byte_def surrogate_def rune_bytes_def
      separator_bytes)

text \<open>A string of runes and its text.\<close>

lemma rune_len_ascii: "byte c < 0x80 \<Longrightarrow> rune_len (c # s) = 1"
  by (simp add: rune_len_def announced_len_def)

lemma rune_len_high: "\<not> byte c < 0x80 \<Longrightarrow> rune_len (c # s) \<noteq> 0 \<Longrightarrow> list_all (\<lambda>d. 0x80 \<le> byte d) (take (rune_len (c # s)) (c # s))"
  by (auto simp: rune_len_def Let_def continuation_def list_all_iff take_Cons' split: if_splits)

lemma valid_utf8_Nil [simp]: "valid_utf8 []"
  by (subst valid_utf8.simps) simp

lemma valid_utf8_Cons: "valid_utf8 (c # s) \<longleftrightarrow> rune_len (c # s) \<noteq> 0 \<and> valid_utf8 (drop (rune_len (c # s)) (c # s))"
  by (subst valid_utf8.simps) simp

lemma rune_len_append: "rune_len s \<noteq> 0 \<Longrightarrow> rune_len (s @ t) = rune_len s"
  using rune_len_le [of s]
  by (cases s) (auto simp: rune_len_def Let_def hd_append split: if_splits)

lemma rune_len_take:
  assumes "rune_len (c # s) \<noteq> 0"
  shows "rune_len (take (rune_len (c # s)) (c # s)) = rune_len (c # s)"
proof -
  obtain m where m: "rune_len (c # s) = Suc m" using assms by (cases "rune_len (c # s)") auto
  then have a: "announced_len (byte c) = Suc m" by (simp add: rune_len_def Let_def split: if_splits)
  have "hd (take m s) = hd s" if "0 < m" using that by (simp add: hd_take)
  then have "rune_len (c # take m s) = Suc m"
    using m unfolding rune_len_def by (auto simp: a Let_def split: if_splits)
  then show ?thesis using m by simp
qed

lemma valid_utf8_append: "valid_utf8 s \<Longrightarrow> valid_utf8 (s @ t) = valid_utf8 t"
proof (induction s rule: valid_utf8.induct)
  case (1 s)
  show ?case
  proof (cases s)
    case (Cons c r)
    with 1(2) have n: "rune_len s \<noteq> 0" "valid_utf8 (drop (rune_len s) s)" by (simp_all add: valid_utf8_Cons)
    have "valid_utf8 (s @ t) = valid_utf8 (drop (rune_len (s @ t)) (s @ t))"
      using n(1) rune_len_append [OF n(1), of t] Cons by (simp add: valid_utf8_Cons)
    also have "\<dots> = valid_utf8 (drop (rune_len s) s @ t)"
      using rune_len_append [OF n(1), of t] rune_len_le [of s] by simp
    also have "\<dots> = valid_utf8 t" using 1(1) n Cons by simp
    finally show ?thesis .
  qed simp
qed

lemma json_chars_append: "valid_utf8 s \<Longrightarrow> json_chars (s @ t) = json_chars s @ json_chars t"
proof (induction s rule: json_chars.induct)
  case (2 c s)
  show ?case
  proof (cases "byte c < 0x80")
    case True
    with 2 show ?thesis by (simp add: valid_utf8_Cons rune_len_ascii)
  next
    case False
    with 2(4) have n: "rune_len (c # s) \<noteq> 0" "valid_utf8 (drop (rune_len (c # s)) (c # s))" by (simp_all add: valid_utf8_Cons)
    have "json_chars (drop (rune_len (c # s)) (c # s) @ t) = json_chars (drop (rune_len (c # s)) (c # s)) @ json_chars t"
      using 2(3) [OF False refl n(1) n(2)] .
    with False n rune_len_append [OF n(1), of t] rune_len_le [of "c # s"]
      take_append [of "rune_len (c # s)" "c # s" t] drop_append [of "rune_len (c # s)" "c # s" t]
    show ?thesis by (simp add: Let_def)
  qed
qed simp

lemma valid_utf8_ascii: "list_all (\<lambda>c. byte c < 0x80) s \<Longrightarrow> valid_utf8 s"
  by (induction s) (auto simp: valid_utf8_Cons rune_len_ascii)

lemma read_chars_rune:
  assumes "\<not> byte c < 0x80" "rune_len (c # s) \<noteq> 0"
  shows "read_chars (take (rune_len (c # s)) (c # s) @ t) = map_option (apfst ((@) (take (rune_len (c # s)) (c # s)))) (read_chars t)"
proof -
  let ?r = "take (rune_len (c # s)) (c # s)"
  obtain m where m: "rune_len (c # s) = Suc m" using assms(2) by (cases "rune_len (c # s)") auto
  have "rune_len ?r = rune_len (c # s)" using rune_len_take [OF assms(2)] .
  then have n: "rune_len (?r @ t) = rune_len (c # s)" using rune_len_append [of ?r t] assms(2) by simp
  have l: "length ?r = rune_len (c # s)" using rune_len_le [of "c # s"] by simp
  have q: "c \<noteq> dquote" "c \<noteq> backslash" using assms(1) by auto
  have "read_chars (c # (take m s @ t)) = map_option (apfst ((@) (take (Suc m) (c # (take m s @ t))))) (read_chars (drop (Suc m) (c # (take m s @ t))))"
    using n m q assms(1) by (subst read_chars.simps) (simp add: Let_def)
  moreover have "length (take m s) = m" using l m by simp
  ultimately show ?thesis using m by simp
qed

lemma read_escape_rune:
  assumes "\<not> byte c < 0x80" "rune_len (c # s) \<noteq> 0"
  shows "read_chars (escape_rune (take (rune_len (c # s)) (c # s)) @ t)
    = map_option (apfst ((@) (take (rune_len (c # s)) (c # s)))) (read_chars t)"
  using read_chars_escape [OF read_separators(1)] read_chars_escape [OF read_separators(2)] read_chars_rune [OF assms, of t]
  by (auto simp: escape_rune_def)

lemma read_json_chars_prefix: "valid_utf8 s \<Longrightarrow> read_chars (json_chars s @ t) = map_option (apfst ((@) s)) (read_chars t)"
proof (induction s rule: json_chars.induct)
  case 1
  show ?case by (cases "read_chars t") auto
next
  case (2 c s)
  show ?case
  proof (cases "byte c < 0x80")
    case True
    with 2 have "valid_utf8 s" by (simp add: valid_utf8_Cons rune_len_ascii)
    with 2 True show ?thesis by (cases "read_chars t") (auto simp: read_escaped)
  next
    case False
    with 2(4) have n: "rune_len (c # s) \<noteq> 0" "valid_utf8 (drop (rune_len (c # s)) (c # s))" by (simp_all add: valid_utf8_Cons)
    let ?r = "take (rune_len (c # s)) (c # s)" and ?d = "drop (rune_len (c # s)) (c # s)"
    have "json_chars (c # s) = escape_rune ?r @ json_chars ?d" using False n by (simp add: Let_def)
    then have "read_chars (json_chars (c # s) @ t) = map_option (apfst ((@) ?r)) (map_option (apfst ((@) ?d)) (read_chars t))"
      using read_escape_rune [OF False n(1)] 2(3) [OF False refl n(1) n(2)] by simp
    also have "\<dots> = map_option (apfst ((@) (?r @ ?d))) (read_chars t)" by (cases "read_chars t") auto
    finally show ?thesis by (simp only: append_take_drop_id)
  qed
qed

lemma read_json_chars: "valid_utf8 s \<Longrightarrow> read_chars (json_chars s @ dquote # t) = Some (s, t)"
  by (simp add: read_json_chars_prefix read_chars_quote)

lemma read_json_str: "valid_utf8 s \<Longrightarrow> \<exists>u. json_str s @ t = dquote # u \<and> read_chars u = Some (s, t)"
  by (simp add: json_str_def read_json_chars)

text \<open>Numbers.\<close>

lemma nat_str_leading: "hd (nat_str n) = CHR ''0'' \<Longrightarrow> tl (nat_str n) = []"
proof (induction n rule: nat_str.induct)
  case (1 n)
  show ?case
  proof (cases "n < 10")
    case True
    then show ?thesis by (subst nat_str.simps) simp
  next
    case False
    have e: "nat_str n = nat_str (n div 10) @ [digit_char (n mod 10)]" using False by (subst nat_str.simps) simp
    then have "hd (nat_str (n div 10)) = CHR ''0''" using 1(2) by (simp add: nat_str_nonempty)
    with 1(1) [OF False] have "tl (nat_str (n div 10)) = []" by simp
    with \<open>hd (nat_str (n div 10)) = CHR ''0''\<close> have "nat_str (n div 10) = ''0''"
      using nat_str_nonempty [of "n div 10"] by (cases "nat_str (n div 10)") auto
    then have "n div 10 = 0" using digits_val_nat_str [of "n div 10"] by (simp add: digits_val_def byte_def)
    with False show ?thesis by simp
  qed
qed

lemma integer_val_int_str: "integer_val (int_str i) = Some i"
  using nat_str_leading
  by (auto simp: integer_val_def int_str_def Let_def nat_str_hd nat_str_nonempty nat_str_digits digits_val_nat_str)

lemma int_str_number_chars: "list_all number_char (int_str i)"
  using nat_str_digits [of "nat i"] nat_str_digits [of "nat (- i)"]
  by (auto simp: int_str_def number_char_def list_all_iff)

definition ends_number :: "string \<Rightarrow> bool" where
  "ends_number t \<longleftrightarrow> (case t of [] \<Rightarrow> True | c # _ \<Rightarrow> \<not> number_char c)"

lemma takeWhile_number:
  "list_all number_char s \<Longrightarrow> ends_number t \<Longrightarrow> takeWhile number_char (s @ t) = s \<and> dropWhile number_char (s @ t) = t"
  by (induction s) (auto simp: ends_number_def split: list.splits)

lemma read_number_int: "ends_number t \<Longrightarrow> read_number fl (int_str i @ t) = Some (JInt i, t)"
  using takeWhile_number [OF int_str_number_chars, of t i] by (simp add: read_number_def Let_def integer_val_int_str)

lemma int_str_start: "\<exists>c s. int_str i = c # s \<and> number_char c"
  using int_str_number_chars [of i] nat_str_nonempty
  by (cases "int_str i") (auto simp: int_str_def split: if_splits)

lemma number_char_not:
  assumes "number_char c"
  shows "c \<noteq> dquote" "c \<noteq> CHR ''[''" "c \<noteq> CHR '']''" "c \<noteq> CHR ''{''" "c \<noteq> CHR ''n''" "c \<noteq> CHR ''t''" "c \<noteq> CHR ''f''" "\<not> is_ws c"
  using assms by (auto simp: number_char_def is_digit_def dquote_def is_ws_def byte_def)

lemma read_word_int: "ends_number t \<Longrightarrow> read_word fl (int_str i @ t) = Some (JInt i, t)"
  using int_str_start [of i] number_char_not
  by (auto simp: read_word_def starts_with_def read_number_int)

text \<open>The values that can be read back: strings are UTF-8 and numbers are integers.\<close>

primrec readable :: "json \<Rightarrow> bool" where
  "readable JNull = True"
| "readable (JBool b) = True"
| "readable (JInt i) = True"
| "readable (JReal x) = False"
| "readable (JStr s) = valid_utf8 s"
| "readable (JArr xs) = list_all id (map readable xs)"
| "readable (JObj ms) = list_all (\<lambda>(k, r). valid_utf8 k \<and> r) (map (map_prod id readable) ms)"

lemma skip_ws_Cons: "\<not> is_ws c \<Longrightarrow> skip_ws (c # s) = c # s"
  by (simp add: skip_ws_def)

lemma not_ws [simp]:
  "\<not> is_ws dquote" "\<not> is_ws (CHR ''['')" "\<not> is_ws (CHR '']'')" "\<not> is_ws (CHR ''{'')" "\<not> is_ws (CHR ''}'')"
  "\<not> is_ws (CHR '','')" "\<not> is_ws (CHR '':'')" "\<not> is_ws (CHR ''n'')" "\<not> is_ws (CHR ''t'')" "\<not> is_ws (CHR ''f'')"
  by (simp_all add: is_ws_def byte_def dquote_def)

lemma dquote_not_bracket [simp]: "dquote \<noteq> CHR ''[''" "dquote \<noteq> CHR '']''" "dquote \<noteq> CHR ''{''" "dquote \<noteq> CHR ''}''"
  "CHR ''['' \<noteq> dquote" "CHR ''{'' \<noteq> dquote"
  by (simp_all add: dquote_def)

lemma ends_number_sep [simp]:
  "ends_number []" "ends_number (CHR '']'' # s)" "ends_number (CHR ''}'' # s)" "ends_number (CHR '','' # s)"
  by (simp_all add: ends_number_def number_char_def is_digit_def byte_def)

lemma json_text_start: "readable j \<Longrightarrow> \<exists>c s. json_text fr j = c # s \<and> \<not> is_ws c \<and> c \<noteq> CHR '']''"
  using int_str_start number_char_not by (cases j) (fastforce simp: json_str_def)+

lemma json_text_pos: "readable j \<Longrightarrow> 0 < length (json_text fr j)"
  using json_text_start [of j fr] by auto

lemma join_Cons: "xs \<noteq> [] \<Longrightarrow> join sep (x # xs) = x @ sep @ join sep xs"
  by (cases xs) auto

definition member_text :: "(real \<Rightarrow> string) \<Rightarrow> string \<times> json \<Rightarrow> string" where
  "member_text fr m = json_str (fst m) @ '':'' @ json_text fr (snd m)"

lemma json_text_JObj: "json_text fr (JObj ms) = ''{'' @ join '','' (map (member_text fr) ms) @ ''}''"
  by (simp add: member_text_def [abs_def] split_def comp_def)

lemma read_elems_text:
  assumes "\<And>x n t. x \<in> set xs \<Longrightarrow> ends_number t \<Longrightarrow> 2 * length (json_text fr x @ t) < n \<Longrightarrow> read_value fl n (json_text fr x @ t) = Some (x, t)"
    and "list_all readable xs" "xs \<noteq> []" "2 * length (join '','' (map (json_text fr) xs) @ '']'' @ t) + 1 < n"
  shows "read_elems fl n (join '','' (map (json_text fr) xs) @ '']'' @ t) = Some (xs, t)"
  using assms
proof (induction xs arbitrary: n)
  case (Cons x xs)
  from Cons.prems(4) obtain m where n: "n = Suc m" by (cases n) auto
  show ?case
  proof (cases "xs = []")
    case True
    with Cons.prems(4) n have "read_value fl m (json_text fr x @ '']'' @ t) = Some (x, '']'' @ t)"
      by (intro Cons.prems(1)) auto
    with True n show ?thesis by (simp add: skip_ws_Cons)
  next
    case False
    have l: "0 < length (json_text fr x)" using Cons.prems(2) json_text_pos by simp
    let ?r = "join '','' (map (json_text fr) xs) @ '']'' @ t"
    have t: "join '','' (map (json_text fr) (x # xs)) @ '']'' @ t = json_text fr x @ '','' @ ?r"
      using False by (simp add: join_Cons)
    have "read_value fl m (json_text fr x @ '','' @ ?r) = Some (x, '','' @ ?r)"
      using Cons.prems(4) n unfolding t by (intro Cons.prems(1)) auto
    moreover have "read_elems fl m ?r = Some (xs, t)"
      using Cons.prems n False l unfolding t by (intro Cons.IH) auto
    ultimately show ?thesis using n unfolding t by (simp add: skip_ws_Cons)
  qed
qed simp

lemma read_key_text: "valid_utf8 k \<Longrightarrow> read_key (json_str k @ CHR '':'' # s) = Some (k, s)"
  by (simp add: read_key_def json_str_def skip_ws_Cons read_json_chars)

lemma read_members_text:
  assumes "\<And>k x n t. (k, x) \<in> set ms \<Longrightarrow> ends_number t \<Longrightarrow> 2 * length (json_text fr x @ t) < n \<Longrightarrow> read_value fl n (json_text fr x @ t) = Some (x, t)"
    and "list_all (\<lambda>(k, x). valid_utf8 k \<and> readable x) ms" "ms \<noteq> []"
    and "2 * length (join '','' (map (member_text fr) ms) @ ''}'' @ t) + 1 < n"
  shows "read_members fl n (join '','' (map (member_text fr) ms) @ ''}'' @ t) = Some (ms, t)"
  using assms
proof (induction ms arbitrary: n)
  case (Cons m ms)
  obtain k x where m: "m = (k, x)" by (cases m)
  from Cons.prems(4) obtain i where n: "n = Suc i" by (cases n) auto
  have key: "read_key (json_str k @ CHR '':'' # u) = Some (k, u)" for u
    using Cons.prems(2) m by (simp add: read_key_text)
  show ?case
  proof (cases "ms = []")
    case True
    have "read_value fl i (json_text fr x @ ''}'' @ t) = Some (x, ''}'' @ t)"
      using Cons.prems(4) n m True by (intro Cons.prems(1) [of k]) (auto simp: member_text_def)
    with True n m show ?thesis by (simp add: member_text_def skip_ws_Cons key)
  next
    case False
    let ?r = "join '','' (map (member_text fr) ms) @ ''}'' @ t"
    have t: "join '','' (map (member_text fr) (m # ms)) @ ''}'' @ t = json_str k @ '':'' @ json_text fr x @ '','' @ ?r"
      using False m by (simp add: join_Cons member_text_def)
    have "read_value fl i (json_text fr x @ '','' @ ?r) = Some (x, '','' @ ?r)"
      using Cons.prems(4) n m unfolding t by (intro Cons.prems(1) [of k]) auto
    moreover have "read_members fl i ?r = Some (ms, t)"
      using Cons.prems n False unfolding t by (intro Cons.IH) auto
    ultimately show ?thesis using n m unfolding t by (simp add: skip_ws_Cons key)
  qed
qed simp

lemma read_value_text:
  "readable j \<Longrightarrow> ends_number t \<Longrightarrow> 2 * length (json_text fr j @ t) < n \<Longrightarrow> read_value fl n (json_text fr j @ t) = Some (j, t)"
proof (induction j arbitrary: n t)
  case JNull
  then show ?case by (cases n) (auto simp: skip_ws_Cons read_word_def starts_with_def dquote_def)
next
  case (JBool b)
  then show ?case by (cases n) (auto simp: skip_ws_Cons read_word_def starts_with_def dquote_def)
next
  case (JInt i)
  then obtain m where n: "n = Suc m" by (cases n) auto
  obtain c s where c: "int_str i = c # s" "number_char c" using int_str_start by blast
  then show ?case using JInt n read_word_int [of t fl i] number_char_not [of c] by (simp add: skip_ws_Cons)
next
  case (JReal x)
  then show ?case by simp
next
  case (JStr s)
  then show ?case by (cases n) (auto simp: skip_ws_Cons json_str_def read_json_chars)
next
  case (JArr xs)
  then obtain m where n: "n = Suc m" by (cases n) auto
  show ?case
  proof (cases xs)
    case Nil
    with n show ?thesis by (simp add: skip_ws_Cons)
  next
    case (Cons y ys)
    let ?r = "join '','' (map (json_text fr) xs) @ '']'' @ t"
    have "read_elems fl m ?r = Some (xs, t)"
      using JArr n Cons by (intro read_elems_text) (auto simp: list_all_iff)
    moreover obtain c s where "json_text fr y = c # s" "\<not> is_ws c" "c \<noteq> CHR '']''"
      using JArr.prems(1) Cons json_text_start [of y fr] by auto
    then have "take 1 (skip_ws ?r) \<noteq> '']''" using Cons by (cases ys) (auto simp: skip_ws_Cons)
    ultimately show ?thesis using n by (simp add: skip_ws_Cons)
  qed
next
  case (JObj ms)
  then obtain m where n: "n = Suc m" by (cases n) auto
  show ?case
  proof (cases ms)
    case Nil
    with n show ?thesis by (simp add: skip_ws_Cons)
  next
    case (Cons y ys)
    let ?r = "join '','' (map (member_text fr) ms) @ ''}'' @ t"
    have "read_members fl m ?r = Some (ms, t)"
    proof (intro read_members_text)
      show "list_all (\<lambda>(k, x). valid_utf8 k \<and> readable x) ms" using JObj.prems(1) by (auto simp: list_all_iff)
      show "read_value fl i (json_text fr x @ u) = Some (x, u)"
        if "(k, x) \<in> set ms" "ends_number u" "2 * length (json_text fr x @ u) < i" for k x i u
        using that JObj.prems(1) by (intro JObj.IH [of "(k, x)"]) (auto simp: list_all_iff)
      show "2 * length ?r + 1 < m" using JObj.prems(3) n unfolding json_text_JObj by simp
    qed (simp add: Cons)
    moreover have "take 1 (skip_ws ?r) \<noteq> ''}''"
      using Cons by (cases ys) (auto simp: member_text_def json_str_def skip_ws_Cons)
    ultimately show ?thesis using n unfolding json_text_JObj by (simp add: skip_ws_Cons)
  qed
qed

lemma read_json_text: "readable j \<Longrightarrow> read_json fl (json_text fr j) = Some j"
  using read_value_text [of j "[]" fr "Suc (2 * length (json_text fr j))" fl] by (simp add: read_json_def skip_ws_def)

section \<open>Texts that cannot be read\<close>

text \<open>Members and values that no reader with enough fuel accepts.\<close>

definition unreadable :: "(string \<Rightarrow> real option) \<Rightarrow> string \<Rightarrow> bool" where
  "unreadable fl s \<longleftrightarrow> (\<forall>n. 2 * length s < n \<longrightarrow> read_value fl n s = None)"

definition unreadable_members :: "(string \<Rightarrow> real option) \<Rightarrow> string \<Rightarrow> bool" where
  "unreadable_members fl s \<longleftrightarrow> (\<forall>n. 2 * length s + 1 < n \<longrightarrow> read_members fl n s = None)"

lemma unreadable_json: "unreadable fl s \<Longrightarrow> read_json fl s = None"
  by (simp add: unreadable_def read_json_def del: read_value.simps)

lemma unreadable_string: "read_chars s = None \<Longrightarrow> unreadable fl (dquote # s)"
proof -
  assume s: "read_chars s = None"
  have "read_value fl n (dquote # s) = None" for n by (cases n) (simp_all add: skip_ws_Cons s)
  then show ?thesis by (simp add: unreadable_def)
qed

lemma unreadable_object:
  assumes "unreadable_members fl (dquote # s)"
  shows "unreadable fl (CHR ''{'' # dquote # s)"
  unfolding unreadable_def
proof (intro allI impI)
  fix n
  assume n: "2 * length (CHR ''{'' # dquote # s) < n"
  then obtain m where m: "n = Suc m" by (cases n) auto
  with n assms have "read_members fl m (dquote # s) = None" by (simp add: unreadable_members_def)
  then show "read_value fl n (CHR ''{'' # dquote # s) = None" by (simp add: m skip_ws_Cons)
qed

lemma unreadable_member:
  assumes "valid_utf8 k" "unreadable fl s"
  shows "unreadable_members fl (json_str k @ CHR '':'' # s)"
  unfolding unreadable_members_def
proof (intro allI impI)
  fix n
  assume n: "2 * length (json_str k @ CHR '':'' # s) + 1 < n"
  then obtain m where m: "n = Suc m" by (cases n) auto
  with n assms have "read_value fl m s = None" by (simp add: unreadable_def)
  then show "read_members fl n (json_str k @ CHR '':'' # s) = None" by (simp add: m read_key_text assms)
qed

lemma unreadable_later_member:
  assumes "valid_utf8 k" "readable j" "unreadable_members fl s"
  shows "unreadable_members fl (json_str k @ CHR '':'' # json_text fr j @ CHR '','' # s)"
  unfolding unreadable_members_def
proof (intro allI impI)
  fix n
  let ?t = "json_text fr j @ CHR '','' # s"
  assume n: "2 * length (json_str k @ CHR '':'' # ?t) + 1 < n"
  then obtain m where m: "n = Suc m" by (cases n) auto
  have "read_value fl m ?t = Some (j, CHR '','' # s)"
    by (rule read_value_text [OF assms(2)]) (use n m in auto)
  moreover have "read_members fl m s = None" using assms(3) n m by (simp add: unreadable_members_def)
  ultimately show "read_members fl n (json_str k @ CHR '':'' # ?t) = None"
    by (simp add: m read_key_text assms skip_ws_Cons)
qed

end
