(* ===== verification/Answer.thy ===== *)
theory Answer
  imports JsonText Api OceanProps
begin

text \<open>
  The bytes of an answer (libs/response.go: WriteSuccess): the JSON text of the envelope is the
  format of an Fprintf without operands. The lemmas say what a client that parses the body
  reads: the envelope where no percent sign is in it, and what the percent signs do where
  there are some.
\<close>

section \<open>Fprintf without operands\<close>

text \<open>
  fmt.doPrintf with no operands: after a percent sign come flags, an argument index in
  brackets, a width, a precision and the verb; whatever asks for an operand is answered
  with a complaint in the text. Numbers above a million end the directive.
\<close>

fun parsenum :: "nat \<Rightarrow> bool \<Rightarrow> string \<Rightarrow> bool \<times> string" where
  "parsenum n isnum [] = (isnum, [])"
| "parsenum n isnum (c # s) =
     (if \<not> is_digit c then (isnum, c # s)
      else if n > 1000000 then (False, [])
      else parsenum (10 * n + (byte c - 48)) True s)"

text \<open>The rest, whether the index was good, and whether there was one.\<close>

definition arg_number :: "string \<Rightarrow> string \<times> bool \<times> bool" where
  "arg_number s =
     (if s = [] \<or> hd s \<noteq> CHR ''['' then (s, True, False)
      else if length s < 3 \<or> CHR '']'' \<notin> set (tl s) then (tl s, False, False)
      else let inside = takeWhile (\<lambda>c. c \<noteq> CHR '']'') (tl s);
               (isnum, rest) = parsenum 0 False inside
           in (drop (length inside + 2) s, False, isnum \<and> rest = []))"

definition verb_text :: "bool \<Rightarrow> string \<Rightarrow> string" where
  "verb_text good r =
     (if r = ''%'' then r
      else if good then ''%!'' @ r @ ''(MISSING)'' else ''%!'' @ r @ ''(BADINDEX)'')"

text \<open>The state of a directive: what it has written, whether its index was good so far, whether an
  index came last, and the rest of the format.\<close>

record directive_state =
  ds_out :: string
  ds_good :: bool
  ds_after :: bool
  ds_rest :: string

definition index_stage :: "directive_state \<Rightarrow> directive_state" where
  "index_stage d =
     (let (s, good, found) = arg_number (ds_rest d)
      in d\<lparr>ds_good := (ds_good d \<and> good), ds_after := found, ds_rest := s\<rparr>)"

definition width_stage :: "directive_state \<Rightarrow> directive_state" where
  "width_stage d =
     (if ds_rest d \<noteq> [] \<and> hd (ds_rest d) = CHR ''*''
      then d\<lparr>ds_out := ds_out d @ ''%!(BADWIDTH)'', ds_after := False, ds_rest := tl (ds_rest d)\<rparr>
      else let (wid, s) = parsenum 0 False (ds_rest d)
           in d\<lparr>ds_good := (ds_good d \<and> \<not> (ds_after d \<and> wid)), ds_rest := s\<rparr>)"

definition precision_stage :: "directive_state \<Rightarrow> directive_state" where
  "precision_stage d =
     (if ds_rest d \<noteq> [] \<and> hd (ds_rest d) = CHR ''.'' then
        (let d = index_stage (d\<lparr>ds_good := (ds_good d \<and> \<not> ds_after d), ds_rest := tl (ds_rest d)\<rparr>)
         in if ds_rest d \<noteq> [] \<and> hd (ds_rest d) = CHR ''*''
            then d\<lparr>ds_out := ds_out d @ ''%!(BADPREC)'', ds_after := False, ds_rest := tl (ds_rest d)\<rparr>
            else d\<lparr>ds_rest := snd (parsenum 0 False (ds_rest d))\<rparr>)
      else d)"

definition verb_stage :: "directive_state \<Rightarrow> string \<times> string" where
  "verb_stage d =
     (let s = ds_rest d; n = rune_len s
      in if s = [] then (ds_out d @ ''%!(NOVERB)'', [])
         else if n = 0 then (ds_out d @ verb_text (ds_good d) [CHR 0xEF, CHR 0xBF, CHR 0xBD], tl s)
         else (ds_out d @ verb_text (ds_good d) (take n s), drop n s))"

text \<open>What stands for a directive, whose percent sign is read, and the rest of the format.\<close>

definition directive :: "string \<Rightarrow> string \<times> string" where
  "directive s =
     (let s = dropWhile (\<lambda>c. c \<in> set ''#0+- '') s;
          d = index_stage \<lparr>ds_out = [], ds_good = True, ds_after = False, ds_rest = s\<rparr>;
          d = precision_stage (width_stage d);
          d = (if ds_after d then d else index_stage d)
      in verb_stage d)"

lemma parsenum_length: "length (snd (parsenum n b s)) \<le> length s"
  by (induction n b s rule: parsenum.induct) auto

lemma arg_number_length: "length (fst (arg_number s)) \<le> length s"
  by (simp add: arg_number_def Let_def split: prod.split)

lemma index_length: "length (ds_rest (index_stage d)) \<le> length (ds_rest d)"
  using arg_number_length [of "ds_rest d"] by (cases "arg_number (ds_rest d)") (simp add: index_stage_def)

lemma width_length: "length (ds_rest (width_stage d)) \<le> length (ds_rest d)"
  using parsenum_length [of 0 False "ds_rest d"]
  by (cases "parsenum 0 False (ds_rest d)") (simp add: width_stage_def)

lemma precision_length: "length (ds_rest (precision_stage d)) \<le> length (ds_rest d)"
proof -
  let ?d = "index_stage (d\<lparr>ds_good := (ds_good d \<and> \<not> ds_after d), ds_rest := tl (ds_rest d)\<rparr>)"
  have "length (ds_rest ?d) \<le> length (ds_rest d)"
    using index_length [of "d\<lparr>ds_good := (ds_good d \<and> \<not> ds_after d), ds_rest := tl (ds_rest d)\<rparr>"] by simp
  moreover have "length (snd (parsenum 0 False (ds_rest ?d))) \<le> length (ds_rest ?d)" by (rule parsenum_length)
  moreover have "precision_stage d = d \<or> ds_rest (precision_stage d) = tl (ds_rest ?d)
      \<or> ds_rest (precision_stage d) = snd (parsenum 0 False (ds_rest ?d))"
    by (simp add: precision_stage_def Let_def)
  ultimately show ?thesis by (elim disjE) (simp_all add: diff_le_self le_trans)
qed

lemma verb_length: "length (snd (verb_stage d)) \<le> length (ds_rest d)"
  by (simp add: verb_stage_def Let_def)

lemma directive_length: "length (snd (directive s)) \<le> length s"
proof -
  define s0 where "s0 = dropWhile (\<lambda>c. c \<in> set ''#0+- '') s"
  define d where "d = precision_stage (width_stage (index_stage \<lparr>ds_out = [], ds_good = True, ds_after = False, ds_rest = s0\<rparr>))"
  define d' where "d' = (if ds_after d then d else index_stage d)"
  have "length (ds_rest d) \<le> length s0"
    unfolding d_def using precision_length width_length index_length
    by (metis (no_types, lifting) directive_state.select_convs(4) le_trans)
  moreover have "length s0 \<le> length s" unfolding s0_def by (rule length_dropWhile_le)
  moreover have "length (ds_rest d') \<le> length (ds_rest d)" using index_length [of d] by (simp add: d'_def)
  moreover have "directive s = verb_stage d'" by (simp add: directive_def Let_def d'_def d_def s0_def)
  ultimately show ?thesis using verb_length [of d'] by simp
qed

function Fprintf0 :: "string \<Rightarrow> string" where
  "Fprintf0 [] = []"
| "Fprintf0 (c # s) =
     (if c \<noteq> CHR ''%'' then c # Fprintf0 s
      else fst (directive s) @ Fprintf0 (snd (directive s)))"
  by pat_completeness auto
termination
  by (relation "measure length") (auto simp: directive_length less_Suc_eq_le)


section \<open>The body\<close>

text \<open>
  The text of an entry of the data map: the fixed-point and the JSON text of a float are
  arguments. A map is written in the order of its keys, a nil pointer as null.
\<close>

fun entry_text :: "(real \<Rightarrow> string) \<Rightarrow> (real \<Rightarrow> string) \<Rightarrow> entry \<Rightarrow> string" where
  "entry_text fx fr (Text s) = s"
| "entry_text fx fr (Fixed x) = fx x"
| "entry_text fx fr (Json j) = json_text fr j"

definition data_json :: "(real \<Rightarrow> string) \<Rightarrow> (real \<Rightarrow> string) \<Rightarrow> (string, entry) gomap option \<Rightarrow> json" where
  "data_json fx fr d =
     (case d of
        None \<Rightarrow> JNull
      | Some m \<Rightarrow> JObj (sort_key fst (map (\<lambda>(k, v). (k, JStr (entry_text fx fr v))) m)))"

definition error_json :: "int \<Rightarrow> string \<Rightarrow> json" where
  "error_json code msg = JObj [(''code'', JInt code), (''message'', JStr msg)]"

definition envelope_json :: "(real \<Rightarrow> string) \<Rightarrow> (real \<Rightarrow> string) \<Rightarrow> envelope \<Rightarrow> json" where
  "envelope_json fx fr e =
     JObj [(''code'', JInt (e_code e)), (''data'', data_json fx fr (e_data e)),
           (''error'', error_json (e_error_code e) (e_error_message e))]"

text \<open>The bytes that WriteSuccess writes for an envelope.\<close>

definition answer_text :: "(real \<Rightarrow> string) \<Rightarrow> (real \<Rightarrow> string) \<Rightarrow> envelope \<Rightarrow> string" where
  "answer_text fx fr e = Fprintf0 (json_text fr (envelope_json fx fr e))"

section \<open>What Fprintf leaves of a text\<close>

lemma Fprintf0_plain: "CHR ''%'' \<notin> set p \<Longrightarrow> Fprintf0 (p @ s) = p @ Fprintf0 s"
  by (induction p) auto

lemma Fprintf0_id: "CHR ''%'' \<notin> set s \<Longrightarrow> Fprintf0 s = s"
  using Fprintf0_plain [of s "[]"] by simp

definition letter :: "char \<Rightarrow> bool" where
  "letter c \<longleftrightarrow> 65 \<le> byte c \<and> byte c \<le> 90 \<or> 97 \<le> byte c \<and> byte c \<le> 122"

lemma letter_not:
  assumes "letter c"
  shows "\<not> is_digit c" "c \<noteq> CHR ''[''" "c \<noteq> CHR ''*''" "c \<noteq> CHR ''.''" "c \<noteq> CHR ''%''"
    "c \<noteq> CHR ''#''" "c \<noteq> CHR ''0''" "c \<noteq> CHR ''+''" "c \<noteq> CHR ''-''" "c \<noteq> CHR '' ''" "byte c < 0x80"
    "c \<noteq> dquote" "c \<noteq> backslash"
  using assms by (auto simp: letter_def is_digit_def dquote_def backslash_def byte_def)

lemma digit_not:
  assumes "is_digit c"
  shows "c \<noteq> CHR ''[''" "c \<noteq> CHR ''*''" "c \<noteq> CHR ''.''"
  using assms by (auto simp: is_digit_def byte_def)

lemma parsenum_digits:
  "list_all is_digit ds \<Longrightarrow> n < 10 ^ k \<Longrightarrow> k + length ds \<le> 7 \<Longrightarrow> \<not> is_digit c \<Longrightarrow>
    parsenum n b (ds @ c # s) = (b \<or> ds \<noteq> [], c # s)"
proof (induction ds arbitrary: n k b)
  case (Cons d ds)
  have "byte d - 48 < 10" using Cons.prems(1) by (auto simp: is_digit_def)
  then have "10 * n + (byte d - 48) < 10 ^ Suc k" using Cons.prems(2) by simp
  moreover have "n \<le> 1000000"
  proof -
    have "(10::nat) ^ k \<le> 10 ^ 6" using Cons.prems(3) by (intro power_increasing) auto
    then show ?thesis using Cons.prems(2) by simp
  qed
  ultimately show ?case using Cons.IH [of "10 * n + (byte d - 48)" "Suc k" True] Cons.prems by auto
qed simp

lemma drop_zero_flags:
  "list_all is_digit ds \<Longrightarrow> letter c \<Longrightarrow>
    \<exists>ds'. dropWhile (\<lambda>c. c \<in> set ''#0+- '') (ds @ c # s) = ds' @ c # s \<and> list_all is_digit ds' \<and> length ds' \<le> length ds"
proof (induction ds)
  case Nil
  then show ?case using letter_not [of c] by auto
next
  case (Cons d ds)
  then obtain ds' where "dropWhile (\<lambda>c. c \<in> set ''#0+- '') (ds @ c # s) = ds' @ c # s \<and> list_all is_digit ds' \<and> length ds' \<le> length ds"
    by auto
  then show ?case using Cons.prems by (cases "d \<in> set ''#0+- ''") (auto intro: exI [of _ ds'] exI [of _ "d # ds"])
qed

text \<open>A directive whose flags are read and that has at most a width.\<close>

definition plain_state :: "string \<Rightarrow> directive_state" where
  "plain_state s = \<lparr>ds_out = [], ds_good = True, ds_after = False, ds_rest = s\<rparr>"

lemma plain_stages:
  "s \<noteq> [] \<Longrightarrow> hd s \<noteq> CHR ''['' \<Longrightarrow> index_stage (plain_state s) = plain_state s"
  "hd s \<noteq> CHR ''*'' \<Longrightarrow> parsenum 0 False s = (w, t) \<Longrightarrow> width_stage (plain_state s) = plain_state t"
  "hd s \<noteq> CHR ''.'' \<Longrightarrow> precision_stage (plain_state s) = plain_state s"
  by (simp_all add: plain_state_def index_stage_def arg_number_def width_stage_def precision_stage_def)

lemma plain_verb:
  "byte c < 0x80 \<Longrightarrow> c \<noteq> CHR ''%'' \<Longrightarrow> verb_stage (plain_state (c # s)) = (''%!'' @ c # ''(MISSING)'', s)"
  by (simp add: plain_state_def verb_stage_def verb_text_def rune_len_ascii)

lemma plain_after [simp]: "ds_after (plain_state s) = False"
  by (simp add: plain_state_def)

lemma directive_plain:
  assumes "dropWhile (\<lambda>c. c \<in> set ''#0+- '') s = t" "t \<noteq> []" "hd t \<noteq> CHR ''[''" "hd t \<noteq> CHR ''*''"
    and "parsenum 0 False t = (w, c # u)" "c \<noteq> CHR ''[''" "c \<noteq> CHR ''.''" "c \<noteq> CHR ''%''" "byte c < 0x80"
  shows "directive s = (''%!'' @ c # ''(MISSING)'', u)"
proof -
  have "directive s = verb_stage (index_stage (precision_stage (width_stage (index_stage (plain_state t)))))"
    using assms plain_stages(2) [of t w "c # u"] plain_stages(1) [of t] plain_stages(3) [of "c # u"]
    unfolding directive_def Let_def assms(1) plain_state_def [symmetric] by simp
  also have "\<dots> = verb_stage (plain_state (c # u))"
    using assms plain_stages(2) [of t w "c # u"] plain_stages(1) [of t] plain_stages(1,3) [of "c # u"] by simp
  finally show ?thesis using assms plain_verb by simp
qed

lemma directive_verb:
  assumes "list_all is_digit ds" "length ds \<le> 7" "letter c"
  shows "directive (ds @ c # s) = (''%!'' @ c # ''(MISSING)'', s)"
proof -
  obtain ds' where d: "dropWhile (\<lambda>c. c \<in> set ''#0+- '') (ds @ c # s) = ds' @ c # s" "list_all is_digit ds'" "length ds' \<le> length ds"
    using drop_zero_flags [OF assms(1,3)] by blast
  note c = letter_not [OF assms(3)]
  have h: "hd (ds' @ c # s) \<noteq> CHR ''[''" "hd (ds' @ c # s) \<noteq> CHR ''*''"
    using d(2) digit_not c by (cases ds'; auto)+
  have "parsenum 0 False (ds' @ c # s) = (ds' \<noteq> [], c # s)"
    using parsenum_digits [OF d(2), of 0 0 c False s] d(3) assms(2) c by simp
  then show ?thesis using directive_plain [OF d(1) _ h] c by simp
qed

lemma Fprintf0_verb:
  assumes "CHR ''%'' \<notin> set p" "list_all is_digit ds" "length ds \<le> 7" "letter c"
  shows "Fprintf0 (p @ CHR ''%'' # ds @ c # s) = p @ ''%!'' @ c # ''(MISSING)'' @ Fprintf0 s"
  using assms by (simp add: Fprintf0_plain directive_verb)

lemma directive_quote: "directive (backslash # s) = (''%!'' @ backslash # ''(MISSING)'', s)"
  by (rule directive_plain [of _ "backslash # s" False]) (auto simp: backslash_def is_digit_def byte_def)

section \<open>Texts without a percent sign\<close>

definition clean :: "string \<Rightarrow> bool" where
  "clean s \<longleftrightarrow> valid_utf8 s \<and> CHR ''%'' \<notin> set s"

text \<open>A value all whose strings are clean, without floats.\<close>

primrec clean_json :: "json \<Rightarrow> bool" where
  "clean_json JNull = True"
| "clean_json (JBool b) = True"
| "clean_json (JInt i) = True"
| "clean_json (JReal x) = False"
| "clean_json (JStr s) = clean s"
| "clean_json (JArr xs) = list_all id (map clean_json xs)"
| "clean_json (JObj ms) = list_all (\<lambda>(k, r). clean k \<and> r) (map (map_prod id clean_json) ms)"

lemma clean_Nil [simp]: "clean []"
  by (simp add: clean_def)

lemma clean_append: "clean s \<Longrightarrow> clean (s @ t) = clean t"
  by (auto simp: clean_def valid_utf8_append)

lemma clean_ascii: "list_all (\<lambda>c. byte c < 0x80 \<and> c \<noteq> CHR ''%'') s \<Longrightarrow> clean s"
  using valid_utf8_ascii [of s] by (auto simp: clean_def list_all_iff)

lemma clean_ascii_Cons: "byte c < 0x80 \<Longrightarrow> c \<noteq> CHR ''%'' \<Longrightarrow> clean (c # s) = clean s"
  using clean_append [OF clean_ascii, of "[c]" s] by simp

lemma clean_readable: "clean_json j \<Longrightarrow> readable j"
  by (induction j) (fastforce simp: clean_def list_all_iff)+

lemma hex_char_clean: "n < 16 \<Longrightarrow> byte (hex_char n) < 0x80 \<and> hex_char n \<noteq> CHR ''%''"
proof -
  assume "n < 16"
  then have "byte (hex_char n) < 0x80" "byte (hex_char n) \<noteq> byte (CHR ''%'')" by (auto simp: hex_char_def byte_def)
  then show ?thesis by auto
qed

lemma escape_clean: "byte c < 0x80 \<Longrightarrow> c \<noteq> CHR ''%'' \<Longrightarrow> clean (escape c)"
  using hex_char_clean [of "byte c div 16"] hex_char_clean [of "byte c mod 16"]
  by (intro clean_ascii) (auto simp: escape_def dquote_def backslash_def byte_def)

lemma escape_rune_clean: "clean r \<Longrightarrow> clean (escape_rune r)"
  by (auto simp: escape_rune_def backslash_def byte_def intro!: clean_ascii)

lemma clean_rune:
  assumes "\<not> byte c < 0x80" "rune_len (c # s) \<noteq> 0"
  shows "clean (take (rune_len (c # s)) (c # s))"
proof -
  let ?n = "rune_len (c # s)"
  have "rune_len (take ?n (c # s)) = ?n"
    using rune_len_take [OF assms(2)] .
  then have "valid_utf8 (take ?n (c # s))"
    using assms(2) rune_len_le [of "c # s"] by (subst valid_utf8.simps) (auto simp: valid_utf8.simps [of "[]"])
  moreover have "CHR ''%'' \<notin> set (take ?n (c # s))"
    using rune_len_high [OF assms] by (auto simp: list_all_iff byte_def)
  ultimately show ?thesis by (simp add: clean_def)
qed

text \<open>The text of a string is well-formed UTF-8 whatever its bytes are.\<close>

lemma json_chars_clean: "CHR ''%'' \<notin> set s \<Longrightarrow> clean (json_chars s)"
proof (induction s rule: json_chars.induct)
  case (2 c s)
  show ?case
  proof (cases "byte c < 0x80")
    case True
    with 2 show ?thesis using clean_append [OF escape_clean [OF True]] by auto
  next
    case False
    show ?thesis
    proof (cases "rune_len (c # s) = 0")
      case True
      have "clean (backslash # ''ufffd'')" by (rule clean_ascii) (simp add: backslash_def byte_def)
      with False True 2 show ?thesis using clean_append [of "backslash # ''ufffd''"] by (simp add: Let_def)
    next
      case r: False
      have "CHR ''%'' \<notin> set (drop (rune_len (c # s)) (c # s))" using 2(4) by (meson in_set_dropD)
      then have "clean (json_chars (drop (rune_len (c # s)) (c # s)))" using 2(3) [OF False refl r] by simp
      with False r show ?thesis
        by (simp add: Let_def clean_append [OF escape_rune_clean [OF clean_rune [OF False r]]])
    qed
  qed
qed simp

lemma json_str_clean: "CHR ''%'' \<notin> set s \<Longrightarrow> clean (json_str s)"
proof -
  assume s: "CHR ''%'' \<notin> set s"
  have "clean [dquote]" by (rule clean_ascii) (simp add: dquote_def byte_def)
  then show ?thesis
    using clean_append [of "[dquote]"] clean_append [OF json_chars_clean [OF s]] by (simp add: json_str_def)
qed

lemma is_digit_clean: "is_digit c \<Longrightarrow> byte c < 0x80 \<and> c \<noteq> CHR ''%''"
  by (auto simp: is_digit_def byte_def)

lemma int_str_clean: "clean (int_str i)"
proof (rule clean_ascii)
  have "list_all (\<lambda>c. byte c < 0x80 \<and> c \<noteq> CHR ''%'') (nat_str n)" for n
    using nat_str_digits [of n] is_digit_clean by (auto simp: list_all_iff)
  then show "list_all (\<lambda>c. byte c < 0x80 \<and> c \<noteq> CHR ''%'') (int_str i)" by (simp add: int_str_def byte_def)
qed

lemma clean_join: "clean sep \<Longrightarrow> list_all clean xs \<Longrightarrow> clean (join sep xs)"
  by (induction sep xs rule: join.induct) (auto simp: clean_append)

lemma clean_brackets:
  "clean s \<Longrightarrow> clean (''['' @ s @ '']'')" "clean s \<Longrightarrow> clean (''{'' @ s @ ''}'')"
  "clean (CHR '':'' # s) = clean s" "clean '',''"
  by (simp_all add: clean_append clean_ascii_Cons byte_def)

lemma clean_member: "clean k \<Longrightarrow> clean t \<Longrightarrow> clean (json_str k @ '':'' @ t)"
  using clean_append [OF json_str_clean, of k "CHR '':'' # t"] by (simp add: clean_brackets(3)) (simp add: clean_def)

lemma json_text_clean: "clean_json j \<Longrightarrow> clean (json_text fr j)"
proof (induction j)
  case (JArr xs)
  then show ?case unfolding json_text.simps
    by (intro clean_brackets clean_join) (auto simp: list_all_iff)
next
  case (JObj ms)
  have "clean (member_text fr m)" if "m \<in> set ms" for m
  proof -
    obtain k x where m: "m = (k, x)" by (cases m)
    have "clean k" "clean_json x" using JObj.prems that m by (auto simp: list_all_iff)
    then show ?thesis using JObj.IH [of m x] that m clean_member by (simp add: member_text_def)
  qed
  then show ?case unfolding json_text_JObj
    by (intro clean_brackets clean_join) (auto simp: list_all_iff)
next
  case (JStr s)
  then show ?case using json_str_clean by (simp add: clean_def)
qed (auto simp: int_str_clean intro!: clean_ascii simp: byte_def)

text \<open>What a client makes of a body: the object, and the string under a key of its data, parsed again.\<close>

fun member :: "string \<Rightarrow> json \<Rightarrow> json option" where
  "member k (JObj ms) = map_of ms k"
| "member k _ = None"

definition read_data :: "(string \<Rightarrow> real option) \<Rightarrow> string \<Rightarrow> string \<Rightarrow> string option" where
  "read_data fl k body =
     (case Option.bind (Option.bind (read_json fl body) (member ''data'')) (member k) of
        Some (JStr s) \<Rightarrow> Some s
      | _ \<Rightarrow> None)"

text \<open>An envelope whose strings are clean.\<close>

definition clean_envelope :: "(real \<Rightarrow> string) \<Rightarrow> (real \<Rightarrow> string) \<Rightarrow> envelope \<Rightarrow> bool" where
  "clean_envelope fx fr e \<longleftrightarrow>
     clean (e_error_message e) \<and>
     (case e_data e of None \<Rightarrow> True | Some m \<Rightarrow> list_all (\<lambda>(k, v). clean k \<and> clean (entry_text fx fr v)) m)"

lemma clean_envelope_json: "clean_envelope fx fr e \<Longrightarrow> clean_json (envelope_json fx fr e)"
proof -
  assume c: "clean_envelope fx fr e"
  have keys: "clean ''code''" "clean ''data''" "clean ''error''" "clean ''message''"
    by (auto intro!: clean_ascii simp: byte_def)
  have "clean_json (data_json fx fr (e_data e))"
    using c by (auto simp: data_json_def clean_envelope_def list_all_iff split: option.splits)
  then show ?thesis using c keys by (simp add: envelope_json_def error_json_def clean_envelope_def)
qed

lemma answer_clean: "clean_envelope fx fr e \<Longrightarrow> answer_text fx fr e = json_text fr (envelope_json fx fr e)"
  using json_text_clean [OF clean_envelope_json] by (simp add: answer_text_def Fprintf0_id clean_def)

lemma read_clean_answer: "clean_envelope fx fr e \<Longrightarrow> read_json fl (answer_text fx fr e) = Some (envelope_json fx fr e)"
  by (simp add: answer_clean read_json_text clean_readable clean_envelope_json)

lemma map_of_sorted: "distinct (map fst m) \<Longrightarrow> map_of (sort_key fst m) = map_of m"
proof
  fix k
  assume "distinct (map fst m)"
  then have "distinct (map fst (sort_key fst m))" by (simp add: distinct_map)
  with \<open>distinct (map fst m)\<close> have "map_of (sort_key fst m) k = Some v \<longleftrightarrow> map_of m k = Some v" for v
    by (simp add: map_of_eq_Some_iff)
  then show "map_of (sort_key fst m) k = map_of m k" by (cases "map_of m k") (auto intro: option.exhaust)
qed

lemma read_data_clean:
  assumes "clean_envelope fx fr e" "e_data e = Some m" "wf_map m"
  shows "read_data fl k (answer_text fx fr e) = map_option (entry_text fx fr) (map_of m k)"
proof -
  let ?m = "map (\<lambda>(k, v). (k, JStr (entry_text fx fr v))) m"
  have "distinct (map fst ?m)" using assms(3) by (simp add: wf_map_def comp_def split_def)
  then have "member k (data_json fx fr (e_data e)) = map_option (\<lambda>v. JStr (entry_text fx fr v)) (map_of m k)"
    using assms(2) by (simp add: data_json_def map_of_sorted map_of_map)
  then show ?thesis
    using read_clean_answer [OF assms(1), of fl] by (cases "map_of m k") (simp_all add: read_data_def envelope_json_def)
qed

section \<open>The saved tests in an answer\<close>

definition clean_bookmark :: "bookmark \<Rightarrow> bool" where
  "clean_bookmark b \<longleftrightarrow>
     list_all clean [b_Name b, b_URL b, b_Method b, b_Body b] \<and> list_all (\<lambda>(k, v). clean k \<and> clean v) (b_Headers b)"

lemma clean_bookmark_json: "clean_bookmark b \<Longrightarrow> clean_json (bookmark_json b)"
proof -
  assume b: "clean_bookmark b"
  have "clean ''name''" "clean ''url''" "clean ''method''" "clean ''concurrence''" "clean ''body''" "clean ''headers''"
    "clean ''verbose''" "clean ''updated_at''"
    by (auto intro!: clean_ascii simp: byte_def)
  moreover have "clean_json (map_json (b_Headers b))" using b by (auto simp: clean_bookmark_def map_json_def list_all_iff)
  ultimately show ?thesis using b by (simp add: bookmark_json_def clean_bookmark_def)
qed

text \<open>What the web console reads of the answer to a request for the saved tests - the string under
  the key bookmarks of the data, parsed once more - are the saved tests as the store lists them,
  as long as they are UTF-8 and there is no percent sign.\<close>

lemma saved_tests_shown:
  assumes "rq_Method r \<noteq> ''OPTIONS''" "ListBookmarks (sv_store s) = Inr bs" "list_all clean_bookmark bs"
  shows "\<exists>e t. rw_body (fst (GetBookmarks r w s)) = rw_body w @ [Envelope e]
    \<and> read_data fl ''bookmarks'' (answer_text fx fr e) = Some t
    \<and> read_json fl t = Some (JArr (map bookmark_json bs))"
proof -
  let ?j = "JArr (map bookmark_json bs)"
  let ?m = "[(''bookmarks'', Json ?j)]"
  let ?e = "\<lparr>e_code = ResultSuccess, e_data = Some ?m, e_error_code = 0, e_error_message = []\<rparr>"
  have j: "clean_json ?j" using assms(3) clean_bookmark_json by (simp add: list_all_iff)
  have "clean ''bookmarks''" by (rule clean_ascii) (simp add: byte_def)
  then have "clean_envelope fx fr ?e" using json_text_clean [OF j] by (simp add: clean_envelope_def)
  then have "read_data fl ''bookmarks'' (answer_text fx fr ?e) = Some (json_text fr ?j)"
    by (subst read_data_clean) (auto simp: wf_map_def)
  moreover have "rw_body (fst (GetBookmarks r w s)) = rw_body w @ [Envelope ?e]"
    using assms(1,2) by (simp add: GetBookmarks_def preflight_def cors_def succeed_def WriteSuccess_def Let_def)
  moreover have "read_json fl (json_text fr ?j) = Some ?j" using clean_readable [OF j] by (rule read_json_text)
  ultimately show ?thesis by blast
qed

definition console_request :: "string \<Rightarrow> http_request" where
  "console_request n =
     \<lparr>rq_Method = ''POST'', rq_Path = ''/api/v1/bookmarks'', rq_Origin = [], rq_Cookies = [],
      rq_RemoteAddr = [], rq_UserAgent = [], rq_body = Value (zero_request\<lparr>Conf := run_conf n 1\<rparr>),
      rq_login = Eof, rq_env = Eof, rq_user = None\<rparr>"

text \<open>A server with one saved test, named by a quotation mark, and a test that runs.\<close>

definition one_saved :: "string \<Rightarrow> string \<Rightarrow> server" where
  "one_saved url running =
     \<lparr>sv_ocean = snd (start_job empty_store (run_conf running 1) run_attached),
      sv_auth = New_auth (empty_store\<lparr>bookmarks := [([dquote],
        \<lparr>br_url = url, br_method = ''GET'', br_concurrence = 3, br_body = ''<a>'', br_headers = [(''k'', ''v'')],
         br_verbose = 0, br_created_at = 1, br_updated_at = 2\<rparr>)]\<rparr>) 60 False\<rparr>"

definition saved_bookmark :: "string \<Rightarrow> bookmark" where
  "saved_bookmark url =
     \<lparr>b_Name = [dquote], b_URL = url, b_Method = ''GET'', b_Concurrence = 3, b_Body = ''<a>'',
      b_Headers = [(''k'', ''v'')], b_Verbose = False, b_UpdatedAt = 2\<rparr>"

lemma one_saved_list: "ListBookmarks (sv_store (one_saved url n)) = Inr [saved_bookmark url]"
  by (simp add: one_saved_def New_auth_def ListBookmarks_def empty_store_def bookmark_of_row_def saved_bookmark_def)

lemma saved_bookmark_clean: "clean_bookmark (saved_bookmark url) = clean url"
proof -
  have "clean ''GET''" "clean ''<a>''" "clean ''k''" "clean ''v''" "clean [dquote]"
    by (auto intro!: clean_ascii simp: byte_def dquote_def)
  then show ?thesis by (simp add: clean_bookmark_def saved_bookmark_def)
qed

section \<open>What a percent sign does\<close>

text \<open>
  A percent sign before a letter, with at most seven digits between, as in a URL-encoded
  text: the text that comes out of Fprintf.
\<close>

definition spoils :: "string \<Rightarrow> string \<Rightarrow> bool" where
  "spoils s s' \<longleftrightarrow>
     (\<exists>a ds c b. s = a @ CHR ''%'' # ds @ c # b \<and> s' = a @ ''%!'' @ c # ''(MISSING)'' @ b
        \<and> clean a \<and> clean b \<and> list_all is_digit ds \<and> length ds \<le> 7 \<and> letter c)"

lemma spoilsI:
  "clean a \<Longrightarrow> clean b \<Longrightarrow> list_all is_digit ds \<Longrightarrow> length ds \<le> 7 \<Longrightarrow> letter c \<Longrightarrow>
    spoils (a @ CHR ''%'' # ds @ c # b) (a @ ''%!'' @ c # ''(MISSING)'' @ b)"
  by (auto simp: spoils_def)

lemma spoils_Fprintf0: "spoils s s' \<Longrightarrow> Fprintf0 s = s'"
  by (auto simp: spoils_def clean_def Fprintf0_verb Fprintf0_id)

lemma spoils_around: "spoils s s' \<Longrightarrow> clean p \<Longrightarrow> clean q \<Longrightarrow> spoils (p @ s @ q) (p @ s' @ q)"
proof -
  assume s: "spoils s s'" and p: "clean p" and q: "clean q"
  obtain a ds c b where e: "s = a @ CHR ''%'' # ds @ c # b" "s' = a @ ''%!'' @ c # ''(MISSING)'' @ b"
    and h: "clean a" "clean b" "list_all is_digit ds" "length ds \<le> 7" "letter c"
    using s by (auto simp: spoils_def)
  have "spoils ((p @ a) @ CHR ''%'' # ds @ c # (b @ q)) ((p @ a) @ ''%!'' @ c # ''(MISSING)'' @ (b @ q))"
    using h p q by (intro spoilsI) (simp_all add: clean_append)
  then show ?thesis by (simp add: e)
qed

lemma clean_ASCII_string: "list_all (\<lambda>c. byte c < 0x80) s \<Longrightarrow> valid_utf8 t \<Longrightarrow> valid_utf8 (s @ t)"
  by (simp add: valid_utf8_append valid_utf8_ascii)

lemma spoils_valid: "spoils s s' \<Longrightarrow> valid_utf8 s'"
proof -
  assume "spoils s s'"
  then obtain a c b where s': "s' = a @ ''%!'' @ c # ''(MISSING)'' @ b" and h: "clean a" "clean b" "letter c"
    by (auto simp: spoils_def)
  have "valid_utf8 ((''%!'' @ c # ''(MISSING)'') @ b)"
    using h letter_not(11) by (intro clean_ASCII_string) (auto simp: clean_def byte_def)
  then show ?thesis using h by (simp add: s' clean_def valid_utf8_append)
qed

definition kept_char :: "char \<Rightarrow> bool" where
  "kept_char c \<longleftrightarrow> 0x20 \<le> byte c \<and> byte c < 0x80 \<and> c \<notin> {dquote, backslash, CHR ''<'', CHR ''>'', CHR ''&''}"

lemma json_chars_kept: "list_all kept_char s \<Longrightarrow> json_chars (s @ t) = s @ json_chars t"
  by (induction s) (auto simp: kept_char_def escape_def)

lemma digit_kept: "is_digit c \<Longrightarrow> kept_char c"
  by (auto simp: is_digit_def kept_char_def dquote_def backslash_def byte_def)

lemma letter_kept: "letter c \<Longrightarrow> kept_char c"
  by (auto simp: letter_def kept_char_def dquote_def backslash_def byte_def)

lemma spoils_json_chars: "spoils s s' \<Longrightarrow> spoils (json_chars s) (json_chars s')"
proof -
  assume "spoils s s'"
  then obtain a ds c b where e: "s = a @ CHR ''%'' # ds @ c # b" "s' = a @ ''%!'' @ c # ''(MISSING)'' @ b"
    and h: "clean a" "clean b" "list_all is_digit ds" "length ds \<le> 7" "letter c"
    by (auto simp: spoils_def)
  have "list_all kept_char (CHR ''%'' # ds @ [c])" "list_all kept_char (''%!'' @ c # ''(MISSING)'')"
    using h digit_kept letter_kept by (auto simp: list_all_iff kept_char_def dquote_def backslash_def byte_def)
  then have "json_chars ((CHR ''%'' # ds @ [c]) @ b) = (CHR ''%'' # ds @ [c]) @ json_chars b"
    "json_chars ((''%!'' @ c # ''(MISSING)'') @ b) = (''%!'' @ c # ''(MISSING)'') @ json_chars b"
    by (metis json_chars_kept)+
  then have "json_chars s = json_chars a @ CHR ''%'' # ds @ c # json_chars b"
    "json_chars s' = json_chars a @ ''%!'' @ c # ''(MISSING)'' @ json_chars b"
    using h by (simp_all add: e clean_def json_chars_append)
  moreover have "clean (json_chars a)" "clean (json_chars b)" using h json_chars_clean by (auto simp: clean_def)
  ultimately show ?thesis using spoilsI [OF _ _ h(3-5)] by simp
qed

lemma spoils_json_str: "spoils s s' \<Longrightarrow> spoils (json_str s) (json_str s')"
  using spoils_around [OF spoils_json_chars, of s s' "[dquote]" "[dquote]"] clean_ascii [of "[dquote]"]
  by (simp add: json_str_def dquote_def byte_def)

lemma clean_keys:
  "clean ''name''" "clean ''url''" "clean ''method''" "clean ''concurrence''" "clean ''body''" "clean ''headers''"
  "clean ''verbose''" "clean ''updated_at''" "clean ''bookmarks''" "clean ''code''" "clean ''data''" "clean ''error''"
  "clean ''message''"
  by (auto intro!: clean_ascii simp: byte_def)

lemma clean_map_json: "clean_bookmark b \<Longrightarrow> clean_json (map_json (b_Headers b))"
  by (auto simp: clean_bookmark_def map_json_def list_all_iff)

lemma clean_member_text: "clean (fst m) \<and> clean_json (snd m) \<Longrightarrow> clean (member_text fr m)"
  using clean_member [of "fst m" "json_text fr (snd m)"] json_text_clean [of "snd m" fr] by (simp add: member_text_def)

lemma clean_members_text:
  "list_all (\<lambda>m. clean (fst m) \<and> clean_json (snd m)) ms \<Longrightarrow> list_all clean (map (member_text fr) ms)"
  by (induction ms) (auto simp: clean_member_text)

lemma clean_pieces:
  "clean m \<Longrightarrow> clean k \<Longrightarrow> clean (''[{'' @ m @ '','' @ k @ '':'')" "clean j \<Longrightarrow> clean ('','' @ j @ ''}]'')"
  by (simp_all add: clean_append clean_ascii_Cons byte_def)

text \<open>The text around the address of a single saved test.\<close>

lemma bookmark_list_text:
  "\<exists>p q. (\<forall>u. json_text fr (JArr [bookmark_json (b\<lparr>b_URL := u\<rparr>)]) = p @ json_str u @ q)
    \<and> (clean_bookmark (b\<lparr>b_URL := []\<rparr>) \<longrightarrow> clean p \<and> clean q)"
proof -
  let ?ms = "[(''method'', JStr (b_Method b)), (''concurrence'', JInt (b_Concurrence b)), (''body'', JStr (b_Body b)),
    (''headers'', map_json (b_Headers b)), (''verbose'', JBool (b_Verbose b)), (''updated_at'', JInt (b_UpdatedAt b))]"
  let ?p = "''[{'' @ member_text fr (''name'', JStr (b_Name b)) @ '','' @ json_str ''url'' @ '':''"
  let ?q = "'','' @ join '','' (map (member_text fr) ?ms) @ ''}]''"
  have t: "json_text fr (JArr [bookmark_json (b\<lparr>b_URL := u\<rparr>)]) = ?p @ json_str u @ ?q" for u
    by (simp add: bookmark_json_def json_text_JObj member_text_def)
  have "clean ?p \<and> clean ?q" if c: "clean_bookmark (b\<lparr>b_URL := []\<rparr>)"
  proof -
    have "clean_json (map_json (b_Headers b))" using clean_map_json [OF c] by simp
    then have "list_all (\<lambda>m. clean (fst m) \<and> clean_json (snd m)) ?ms" "clean (b_Name b)"
      using c clean_keys by (simp_all add: clean_bookmark_def)
    then have "list_all clean (map (member_text fr) ?ms)" "clean (member_text fr (''name'', JStr (b_Name b)))"
      using clean_keys(1) by (blast intro: clean_members_text, intro clean_member_text) simp
    moreover have "clean (json_str ''url'')" using clean_keys(2) json_str_clean by (simp add: clean_def)
    moreover have "clean (join '','' (map (member_text fr) ?ms))"
      using clean_join [OF clean_brackets(4)] calculation(1) by blast
    ultimately show ?thesis by (intro conjI clean_pieces) (simp_all only: clean_brackets)
  qed
  with t show ?thesis by blast
qed

text \<open>The text around the only entry of an answer.\<close>

lemma spoils_envelope:
  assumes "spoils (json_text fr i) (json_text fr j)"
  shows "spoils (json_text fr (envelope_json fx fr \<lparr>e_code = z, e_data = Some [(''bookmarks'', Json i)], e_error_code = 0, e_error_message = []\<rparr>))
    (json_text fr (envelope_json fx fr \<lparr>e_code = z, e_data = Some [(''bookmarks'', Json j)], e_error_code = 0, e_error_message = []\<rparr>))"
proof -
  let ?err = "JObj [(''code'', JInt 0), (''message'', JStr [])]"
  let ?p = "''{'' @ member_text fr (''code'', JInt z) @ '','' @ json_str ''data'' @ '':'' @ ''{'' @ json_str ''bookmarks'' @ '':''"
  let ?q = "''},'' @ member_text fr (''error'', ?err) @ ''}''"
  have t: "json_text fr (envelope_json fx fr \<lparr>e_code = z, e_data = Some [(''bookmarks'', Json k)], e_error_code = 0, e_error_message = []\<rparr>)
      = ?p @ json_str (json_text fr k) @ ?q" for k
    by (simp add: envelope_json_def data_json_def error_json_def json_text_JObj member_text_def)
  have "clean (member_text fr (''code'', JInt z))" "clean (member_text fr (''error'', ?err))"
    using clean_keys by (auto intro!: clean_member_text)
  moreover have "clean (json_str ''data'')" "clean (json_str ''bookmarks'')"
    using clean_keys json_str_clean by (simp_all add: clean_def)
  ultimately have "clean ?p" "clean ?q" by (simp_all add: clean_append clean_ascii_Cons byte_def)
  then show ?thesis unfolding t using assms by (intro spoils_around spoils_json_str)
qed

text \<open>A saved test whose address has a percent sign before a letter, as URL-encoding has it, cannot
  be read back: the list is a JSON text, but in its place the address has a complaint of Fprintf
  and lacks the digits after the sign.\<close>

theorem encoded_address_spoiled:
  assumes "rq_Method r \<noteq> ''OPTIONS''" "ListBookmarks (sv_store s) = Inr [b]" "clean_bookmark (b\<lparr>b_URL := []\<rparr>)"
    and "b_URL b = u @ CHR ''%'' # ds @ c # v" "clean u" "clean v"
    and "list_all is_digit ds" "length ds \<le> 7" "letter c"
  shows "\<exists>e t. rw_body (fst (GetBookmarks r w s)) = rw_body w @ [Envelope e]
    \<and> read_data fl ''bookmarks'' (answer_text fx fr e) = Some t
    \<and> read_json fl t = Some (JArr [bookmark_json (b\<lparr>b_URL := u @ ''%!'' @ c # ''(MISSING)'' @ v\<rparr>)])"
proof -
  let ?u = "u @ ''%!'' @ c # ''(MISSING)'' @ v"
  let ?j = "\<lambda>u. JArr [bookmark_json (b\<lparr>b_URL := u\<rparr>)]"
  let ?e = "\<lambda>u. \<lparr>e_code = ResultSuccess, e_data = Some [(''bookmarks'', Json (?j u))], e_error_code = 0, e_error_message = []\<rparr>"
  obtain p q where t: "json_text fr (?j x) = p @ json_str x @ q" and pq: "clean p" "clean q" for x
    using bookmark_list_text [of fr b] assms(3) by blast
  have sp: "spoils (b_URL b) ?u" using assms(4-9) spoilsI by simp
  then have inner: "spoils (json_text fr (?j (b_URL b))) (json_text fr (?j ?u))"
    unfolding t using pq by (intro spoils_around spoils_json_str)
  have "spoils (json_text fr (envelope_json fx fr (?e (b_URL b)))) (json_text fr (envelope_json fx fr (?e ?u)))"
    using spoils_envelope [OF inner] .
  then have "answer_text fx fr (?e (b_URL b)) = json_text fr (envelope_json fx fr (?e ?u))"
    by (simp only: answer_text_def spoils_Fprintf0)
  moreover have "readable (envelope_json fx fr (?e ?u))"
    using spoils_valid [OF inner] clean_keys by (simp add: envelope_json_def data_json_def error_json_def clean_def)
  ultimately have "read_data fl ''bookmarks'' (answer_text fx fr (?e (b_URL b))) = Some (json_text fr (?j ?u))"
    by (simp add: read_data_def read_json_text) (simp add: envelope_json_def data_json_def)
  moreover have "rw_body (fst (GetBookmarks r w s)) = rw_body w @ [Envelope (?e (b_URL b))]"
    using assms(1,2) by (simp add: GetBookmarks_def preflight_def cors_def succeed_def WriteSuccess_def Let_def)
  moreover have "read_json fl (json_text fr (?j ?u)) = Some (?j ?u)"
    by (rule read_json_text) (use spoils_valid [OF sp] assms(3) clean_readable [OF clean_bookmark_json [OF assms(3)]] in
        \<open>simp add: bookmark_json_def\<close>)
  ultimately show ?thesis by blast
qed

theorem encoded_address_spoiled_witness:
  "\<exists>e t. rw_body (fst (GetBookmarks (console_request []) fresh_response (one_saved ''/a%20b'' ''t''))) = [Envelope e]
    \<and> read_data (\<lambda>_. None) ''bookmarks'' (answer_text (\<lambda>_. []) (\<lambda>_. []) e) = Some t
    \<and> read_json (\<lambda>_. None) t = Some (JArr [bookmark_json (saved_bookmark ''/a%!b(MISSING)'')])"
proof -
  have "clean ''/a''" by (rule clean_ascii) (simp add: byte_def)
  moreover have "saved_bookmark u\<lparr>b_URL := v\<rparr> = saved_bookmark v" for u v by (simp add: saved_bookmark_def)
  moreover have "b_URL (saved_bookmark u) = u" for u by (simp add: saved_bookmark_def)
  ultimately show ?thesis
    using encoded_address_spoiled [of "console_request []" "one_saved ''/a%20b'' ''t''" "saved_bookmark ''/a%20b''"
        "''/a''" "''20''" "CHR ''b''" "[]" fresh_response "\<lambda>_. None" "\<lambda>_. []" "\<lambda>_. []"]
    by (simp add: one_saved_list saved_bookmark_clean console_request_def fresh_response_def is_digit_def letter_def byte_def)
qed

text \<open>A percent sign before a quotation mark: the escape of the mark is torn apart.\<close>

lemma torn_string: "valid_utf8 m \<Longrightarrow> read_chars (json_chars m @ ''%!'' @ backslash # CHR ''('' # s) = None"
proof -
  assume m: "valid_utf8 m"
  have "read_escape (CHR ''('' # s) = None" by (simp add: read_escape_def short_escape_def dquote_def backslash_def)
  then have "read_chars (backslash # CHR ''('' # s) = None" by (subst read_chars.simps) simp
  moreover have "read_chars (''%!'' @ t) = map_option (apfst ((@) ''%!'')) (read_chars t)" for t
    by (cases "read_chars t") (simp_all add: read_chars_plain dquote_def backslash_def byte_def apfst_def map_prod_def split_def)
  ultimately show ?thesis by (simp add: read_json_chars_prefix [OF m] del: append_Cons)
qed

lemma torn_chars: "clean m \<Longrightarrow> json_chars (m @ CHR ''%'' # dquote # b) = json_chars m @ CHR ''%'' # backslash # dquote # json_chars b"
proof -
  assume "clean m"
  moreover have "escape (CHR ''%'') = ''%''" by (simp add: escape_def dquote_def backslash_def byte_def)
  ultimately show ?thesis by (simp add: clean_def json_chars_append) (simp add: escape_def byte_def)
qed

lemma Fprintf0_torn:
  "CHR ''%'' \<notin> set p \<Longrightarrow> Fprintf0 (p @ CHR ''%'' # backslash # s) = p @ ''%!'' @ backslash # ''(MISSING)'' @ Fprintf0 s"
  by (simp add: Fprintf0_plain directive_quote)

lemma torn_answer:
  assumes "e_data e = None" "e_error_message e = m @ CHR ''%'' # dquote # b" "clean m"
  shows "read_json fl (answer_text fx fr e) = None"
proof -
  let ?c = "JInt (e_code e)" and ?d = "JInt (e_error_code e)"
  let ?p = "''{'' @ member_text fr (''code'', ?c) @ '','' @ member_text fr (''data'', JNull) @ '','' @ json_str ''error'' @ '':''
    @ ''{'' @ member_text fr (''code'', ?d) @ '','' @ json_str ''message'' @ '':'' @ [dquote] @ json_chars m"
  let ?y = "dquote # json_chars b @ dquote # ''}}''"
  have "json_text fr (envelope_json fx fr e) = ?p @ CHR ''%'' # backslash # ?y"
    by (simp add: envelope_json_def data_json_def error_json_def json_text_JObj member_text_def assms(1,2) json_str_def torn_chars [OF assms(3)])
  moreover have "clean ?p"
  proof -
    have "clean (member_text fr (''code'', ?c))" "clean (member_text fr (''code'', ?d))" "clean (member_text fr (''data'', JNull))"
      using clean_keys by (auto intro!: clean_member_text)
    moreover have "clean (json_str ''error'')" "clean (json_str ''message'')" "clean (json_chars m)"
      using clean_keys json_str_clean assms(3) json_chars_clean by (simp_all add: clean_def)
    ultimately show ?thesis by (simp add: clean_append clean_ascii_Cons dquote_def byte_def)
  qed
  ultimately have a: "answer_text fx fr e = ?p @ ''%!'' @ backslash # ''(MISSING)'' @ Fprintf0 ?y"
    using Fprintf0_torn [of ?p ?y] by (simp only: answer_text_def clean_def) simp
  let ?s = "dquote # json_chars m @ ''%!'' @ backslash # ''(MISSING)'' @ Fprintf0 ?y"
  let ?i = "member_text fr (''code'', ?d) @ '','' @ json_str ''message'' @ '':'' @ ?s"
  let ?o = "member_text fr (''code'', ?c) @ '','' @ member_text fr (''data'', JNull) @ '','' @ json_str ''error'' @ '':'' @ ''{'' @ ?i"
  have keys: "valid_utf8 ''code''" "valid_utf8 ''data''" "valid_utf8 ''error''" "valid_utf8 ''message''"
    using clean_keys by (simp_all add: clean_def)
  have "unreadable fl ?s"
    using torn_string [of m] assms(3) by (intro unreadable_string) (simp add: clean_def)
  then have "unreadable_members fl ?i"
    using unreadable_later_member [OF keys(1), of "?d" fl _ fr] unreadable_member [OF keys(4)] by (simp add: member_text_def)
  moreover have "member_text fr (k, x) @ t = dquote # json_chars k @ dquote # CHR '':'' # json_text fr x @ t" for k x t
    by (simp add: member_text_def json_str_def)
  note start = this
  ultimately have "unreadable fl (''{'' @ ?i)" using unreadable_object by (simp add: start)
  then have "unreadable_members fl (json_str ''error'' @ '':'' @ ''{'' @ ?i)" using unreadable_member [OF keys(3)] by simp
  then have "unreadable_members fl (member_text fr (''data'', JNull) @ '','' @ json_str ''error'' @ '':'' @ ''{'' @ ?i)"
    using unreadable_later_member [OF keys(2), of JNull fl _ fr] by (simp add: member_text_def)
  then have "unreadable_members fl ?o"
    using unreadable_later_member [OF keys(1), of ?c fl _ fr] by (simp add: member_text_def)
  then have "unreadable fl (''{'' @ ?o)" using unreadable_object by (simp add: start)
  then show ?thesis using unreadable_json unfolding a by simp
qed



end
