(* ===== verification/RequestText.thy ===== *)
theory RequestText
  imports Answer AuthProps
begin

text \<open>
  The bodies of requests as bytes: what Decoder (libs/json-decoder.go) makes of a text when it
  decodes it into one of the program's structs, with their JSON tags. The handlers take the
  decoded body; here it comes from the text that a client sends, so that a request can be
  followed from its bytes to the bytes of an answer.
\<close>

section \<open>Structs and their tags\<close>

fun json_bool :: "json \<Rightarrow> bool \<Rightarrow> bool option" where
  "json_bool (JBool b) _ = Some b"
| "json_bool JNull old = Some old"
| "json_bool _ _ = None"

text \<open>A map of strings: null makes it nil, an object sets its entries; a null entry is the empty string.\<close>

fun json_entries :: "(string \<times> json) list \<Rightarrow> (string, string) gomap \<Rightarrow> (string, string) gomap option" where
  "json_entries [] m = Some m"
| "json_entries ((k, j) # js) m = Option.bind (json_string j []) (\<lambda>v. json_entries js (mput k v m))"

fun json_map :: "json \<Rightarrow> (string, string) gomap \<Rightarrow> (string, string) gomap option" where
  "json_map (JObj ms) m = json_entries ms m"
| "json_map JNull _ = Some []"
| "json_map _ _ = None"

definition cmd_conf_fields :: "cmd_conf fields" where
  "cmd_conf_fields =
     [(''name'', \<lambda>j r. map_option (\<lambda>x. r\<lparr>q_Name := x\<rparr>) (json_string j (q_Name r))),
      (''url'', \<lambda>j r. map_option (\<lambda>x. r\<lparr>q_URL := x\<rparr>) (json_string j (q_URL r))),
      (''method'', \<lambda>j r. map_option (\<lambda>x. r\<lparr>q_Method := x\<rparr>) (json_string j (q_Method r))),
      (''headers'', \<lambda>j r. map_option (\<lambda>x. r\<lparr>q_Headers := x\<rparr>) (json_map j (q_Headers r))),
      (''body'', \<lambda>j r. map_option (\<lambda>x. r\<lparr>q_Body := x\<rparr>) (json_string j (q_Body r))),
      (''concurrence'', \<lambda>j r. map_option (\<lambda>x. r\<lparr>q_Concurrence := x\<rparr>) (json_int j (q_Concurrence r))),
      (''host'', \<lambda>j r. map_option (\<lambda>x. r\<lparr>q_Host := x\<rparr>) (json_string j (q_Host r))),
      (''port'', \<lambda>j r. map_option (\<lambda>x. r\<lparr>q_Port := x\<rparr>) (json_string j (q_Port r))),
      (''path'', \<lambda>j r. map_option (\<lambda>x. r\<lparr>q_Path := x\<rparr>) (json_string j (q_Path r))),
      (''protocol'', \<lambda>j r. map_option (\<lambda>x. r\<lparr>q_Protocol := x\<rparr>) (json_string j (q_Protocol r))),
      (''verbose'', \<lambda>j r. map_option (\<lambda>x. r\<lparr>q_Verbose := x\<rparr>) (json_bool j (q_Verbose r)))]"

definition request_fields :: "request fields" where
  "request_fields =
     [(''cmd'', \<lambda>j r. map_option (\<lambda>x. r\<lparr>Cmd := x\<rparr>) (json_string j (Cmd r))),
      (''conf'', \<lambda>j r. map_option (\<lambda>x. r\<lparr>Conf := x\<rparr>) (unmarshal cmd_conf_fields (Conf r) j))]"

definition login_fields :: "login_req fields" where
  "login_fields =
     [(''username'', \<lambda>j r. map_option (\<lambda>x. r\<lparr>lr_Username := x\<rparr>) (json_string j (lr_Username r))),
      (''password'', \<lambda>j r. map_option (\<lambda>x. r\<lparr>lr_Password := x\<rparr>) (json_string j (lr_Password r))),
      (''provider'', \<lambda>j r. map_option (\<lambda>x. r\<lparr>lr_Provider := x\<rparr>) (json_string j (lr_Provider r)))]"

text \<open>The anonymous struct of SaveEnv has its two fields in a struct conf.\<close>

definition env_conf_fields :: "env_req fields" where
  "env_conf_fields =
     [(''name'', \<lambda>j r. map_option (\<lambda>x. r\<lparr>eq_Name := x\<rparr>) (json_string j (eq_Name r))),
      (''vars'', \<lambda>j r. map_option (\<lambda>x. r\<lparr>eq_Vars := x\<rparr>) (json_map j (eq_Vars r)))]"

definition env_fields :: "env_req fields" where
  "env_fields = [(''conf'', \<lambda>j r. unmarshal env_conf_fields r j)]"

text \<open>
  json.Decoder.Decode: nothing but white space is io.EOF; otherwise the first value counts, and
  what follows it is not looked at. The wording of an error is an argument. The limit of 10000
  nested brackets, beyond which encoding/json gives up, is not modelled; no request has more than
  three.
\<close>

definition Decode :: "(string \<Rightarrow> real option) \<Rightarrow> 'r fields \<Rightarrow> (string \<Rightarrow> string) \<Rightarrow> 'r \<Rightarrow> string \<Rightarrow> 'r body" where
  "Decode fl fs msg zero text =
     (if skip_ws text = [] then Eof
      else case read_value fl (Suc (2 * length text)) text of
             None \<Rightarrow> Malformed (msg text)
           | Some (j, _) \<Rightarrow>
               (case unmarshal fs zero j of
                  None \<Rightarrow> Malformed (msg text)
                | Some v \<Rightarrow> Value v))"

section \<open>The text of a request\<close>

text \<open>What a client sends for a request that fills every field, and for a login.\<close>

definition strings_json :: "(string, string) gomap \<Rightarrow> json" where
  "strings_json m = JObj (map (\<lambda>(k, v). (k, JStr v)) m)"

definition cmd_conf_json :: "cmd_conf \<Rightarrow> json" where
  "cmd_conf_json c = JObj
     [(''name'', JStr (q_Name c)), (''url'', JStr (q_URL c)), (''method'', JStr (q_Method c)),
      (''headers'', strings_json (q_Headers c)), (''body'', JStr (q_Body c)),
      (''concurrence'', JInt (q_Concurrence c)), (''host'', JStr (q_Host c)), (''port'', JStr (q_Port c)),
      (''path'', JStr (q_Path c)), (''protocol'', JStr (q_Protocol c)), (''verbose'', JBool (q_Verbose c))]"

definition request_json :: "request \<Rightarrow> json" where
  "request_json q = JObj [(''cmd'', JStr (Cmd q)), (''conf'', cmd_conf_json (Conf q))]"

definition login_json :: "login_req \<Rightarrow> json" where
  "login_json l = JObj [(''username'', JStr (lr_Username l)), (''password'', JStr (lr_Password l)),
     (''provider'', JStr (lr_Provider l))]"

lemma tag_names:
  "fold_name ''cmd'' = ''CMD''" "fold_name ''conf'' = ''CONF''" "fold_name ''url'' = ''URL''"
  "fold_name ''method'' = ''METHOD''" "fold_name ''headers'' = ''HEADERS''" "fold_name ''body'' = ''BODY''"
  "fold_name ''concurrence'' = ''CONCURRENCE''" "fold_name ''host'' = ''HOST''" "fold_name ''port'' = ''PORT''"
  "fold_name ''path'' = ''PATH''" "fold_name ''protocol'' = ''PROTOCOL''" "fold_name ''verbose'' = ''VERBOSE''"
  "fold_name ''username'' = ''USERNAME''" "fold_name ''password'' = ''PASSWORD''" "fold_name ''provider'' = ''PROVIDER''"
  "fold_name ''vars'' = ''VARS''"
  by (simp_all add: fold_name.simps upper_char_def byte_def char_of_def bit_0)

lemma json_entries_strings:
  "wf_map (m @ n) \<Longrightarrow> json_entries (map (\<lambda>(k, v). (k, JStr v)) n) m = Some (m @ n)"
proof (induction n arbitrary: m)
  case (Cons x n)
  then show ?case by (cases x) (auto simp: mput_new wf_map_def)
qed simp

lemma json_map_strings: "wf_map m \<Longrightarrow> json_map (strings_json m) [] = Some m"
  using json_entries_strings [of "[]" m] by (simp add: strings_json_def)

definition cmd_conf_ok :: "cmd_conf \<Rightarrow> bool" where
  "cmd_conf_ok c \<longleftrightarrow>
     list_all valid_utf8 [q_Name c, q_URL c, q_Method c, q_Body c, q_Host c, q_Port c, q_Path c, q_Protocol c]
     \<and> list_all (\<lambda>(k, v). valid_utf8 k \<and> valid_utf8 v) (q_Headers c) \<and> wf_map (q_Headers c) \<and> int64_ok (q_Concurrence c)"

lemma unmarshal_cmd_conf: "cmd_conf_ok c \<Longrightarrow> unmarshal cmd_conf_fields zero_cmd_conf (cmd_conf_json c) = Some c"
  by (simp add: cmd_conf_json_def cmd_conf_fields_def zero_cmd_conf_def member_simps tag_names json_map_strings
      cmd_conf_ok_def int64_ok_def)

lemma unmarshal_request:
  "cmd_conf_ok (Conf q) \<Longrightarrow> unmarshal request_fields zero_request (request_json q) = Some q"
  by (simp add: request_json_def request_fields_def zero_request_def member_simps tag_names unmarshal_cmd_conf)

lemma unmarshal_login: "unmarshal login_fields zero_login (login_json l) = Some l"
  by (simp add: login_json_def login_fields_def zero_login_def member_simps tag_names)

section \<open>What is sent is decoded\<close>

lemma tag_utf8:
  "valid_utf8 ''cmd''" "valid_utf8 ''conf''" "valid_utf8 ''name''" "valid_utf8 ''url''" "valid_utf8 ''method''"
  "valid_utf8 ''headers''" "valid_utf8 ''body''" "valid_utf8 ''concurrence''" "valid_utf8 ''host''" "valid_utf8 ''port''"
  "valid_utf8 ''path''" "valid_utf8 ''protocol''" "valid_utf8 ''verbose''" "valid_utf8 ''username''"
  "valid_utf8 ''password''" "valid_utf8 ''provider''"
  by (auto intro!: valid_utf8_ascii simp: byte_def)

lemma readable_strings: "list_all (\<lambda>(k, v). valid_utf8 k \<and> valid_utf8 v) m \<Longrightarrow> readable (strings_json m)"
  by (auto simp: strings_json_def list_all_iff)

lemma readable_request: "valid_utf8 (Cmd q) \<Longrightarrow> cmd_conf_ok (Conf q) \<Longrightarrow> readable (request_json q)"
  using readable_strings [of "q_Headers (Conf q)"]
  by (simp add: request_json_def cmd_conf_json_def cmd_conf_ok_def tag_utf8)

lemma readable_login:
  "list_all valid_utf8 [lr_Username l, lr_Password l, lr_Provider l] \<Longrightarrow> readable (login_json l)"
  by (simp add: login_json_def tag_utf8)

lemma Decode_text:
  assumes "readable j" "unmarshal fs zero j = Some v"
  shows "Decode fl fs msg zero (json_text fr j) = Value v"
proof -
  obtain c s where "json_text fr j = c # s" "\<not> is_ws c" using json_text_start [OF assms(1), of fr] by blast
  then have "skip_ws (json_text fr j) \<noteq> []" by (simp add: skip_ws_Cons)
  moreover have "read_value fl (Suc (2 * length (json_text fr j))) (json_text fr j) = Some (j, [])"
    using read_value_text [OF assms(1), of "[]" fr _ fl] by (simp del: read_value.simps)
  ultimately show ?thesis using assms(2) by (simp add: Decode_def del: read_value.simps)
qed

lemma Decode_request:
  "valid_utf8 (Cmd q) \<Longrightarrow> cmd_conf_ok (Conf q) \<Longrightarrow>
    Decode fl request_fields msg zero_request (json_text fr (request_json q)) = Value q"
  by (intro Decode_text readable_request unmarshal_request)

lemma Decode_login:
  "list_all valid_utf8 [lr_Username l, lr_Password l, lr_Provider l] \<Longrightarrow>
    Decode fl login_fields msg zero_login (json_text fr (login_json l)) = Value l"
  by (intro Decode_text readable_login unmarshal_login)

text \<open>An empty body is no error.\<close>

lemma Decode_empty: "Decode fl fs msg zero [] = Eof"
  by (simp add: Decode_def skip_ws_def)

section \<open>A test that is saved is shown\<close>

lemma SaveBookmark_list:
  assumes "SaveBookmark now b db = Inr db'" "ListBookmarks db = Inr bs" "wf_map (bookmarks db)" "\<not> db_refuses db' ListBookmarksQ"
  obtains bs' where "ListBookmarks db' = Inr bs'"
    and "set bs' = insert (b\<lparr>b_UpdatedAt := now\<rparr>) {c \<in> set bs. b_Name c \<noteq> b_Name b}"
proof -
  obtain row where db': "bookmarks db' = mput (b_Name b) row (bookmarks db)"
    and row: "bookmark_of_row (b_Name b) row = b\<lparr>b_UpdatedAt := now\<rparr>"
    using assms(1) by (auto simp: SaveBookmark_def Let_def bookmark_of_row_def split: if_splits)
  have bs: "set bs = (\<lambda>(n, r). bookmark_of_row n r) ` set (bookmarks db)"
    using assms(2) by (auto simp: ListBookmarks_def split: if_splits)
  have upd: "set (mput (b_Name b) row (bookmarks db)) = insert (b_Name b, row) {p \<in> set (bookmarks db). fst p \<noteq> b_Name b}"
    using wf_map_of [OF wf_mput [OF assms(3)]] wf_map_of [OF assms(3)] by (auto split: if_splits)
  let ?bs = "sort_key (\<lambda>b. - b_UpdatedAt b) (map (\<lambda>(n, r). bookmark_of_row n r) (bookmarks db'))"
  have name: "b_Name (bookmark_of_row n r) = n" for n r by (simp add: bookmark_of_row_def)
  have "set ?bs = insert (b\<lparr>b_UpdatedAt := now\<rparr>) {c \<in> set bs. b_Name c \<noteq> b_Name b}"
    unfolding bs by (force simp: db' upd row name image_iff)
  moreover have "ListBookmarks db' = Inr ?bs" using assms(4) by (simp add: ListBookmarks_def)
  ultimately show thesis using that by blast
qed


definition saving :: request where
  "saving = zero_request\<lparr>Conf := run_conf ''n1'' 5\<rparr>"

definition noon :: outside where
  "noon = \<lparr>x_crypto = plain_crypto, x_rand = None, x_now = 12 * second, x_ip = [], x_oceans = None, x_fleet = None\<rparr>"


end
