(* ===== verification/Texts.thy ===== *)
theory Texts
  imports RequestText
begin

text \<open>
  Structs as texts: what both ends of a JSON text rely on, once for every struct that the
  program sends as one - requests, logins, and the registrations and summaries that oceans
  put into etcd, whose values are texts and not yet the values that Discovery reads.
\<close>

section \<open>The contract of a printer and a reader\<close>

locale codec =
  fixes print :: "'a \<Rightarrow> 'b" and parse :: "'b \<Rightarrow> 'a option" and fit :: "'a \<Rightarrow> bool"
  assumes parse_print: "fit x \<Longrightarrow> parse (print x) = Some x"
begin

lemma print_inj: "fit x \<Longrightarrow> fit y \<Longrightarrow> print x = print y \<longleftrightarrow> x = y"
  using parse_print by (metis option.inject)

lemma parse_all: "list_all fit xs \<Longrightarrow> map (parse \<circ> print) xs = map Some xs"
  by (simp add: list_all_iff parse_print)

lemma distinct_print: "list_all fit xs \<Longrightarrow> distinct (map print xs) \<longleftrightarrow> distinct xs"
  by (auto simp: distinct_map inj_on_def list_all_iff print_inj)

end

interpretation number_text: codec int_str integer_val "\<lambda>_. True"
  by unfold_locales (rule integer_val_int_str)

text \<open>A struct: its value in JSON can be read back and its text is that of the value.\<close>

locale text_codec =
  fixes to_json :: "'a \<Rightarrow> json" and of_json :: "json \<Rightarrow> 'a option" and fit :: "'a \<Rightarrow> bool"
  assumes of_to: "fit x \<Longrightarrow> of_json (to_json x) = Some x" and fit_readable: "fit x \<Longrightarrow> readable (to_json x)"
begin

lemma read_text: "fit x \<Longrightarrow> read_json fl (json_text fr (to_json x)) = Some (to_json x)"
  by (rule read_json_text) (rule fit_readable)

lemma of_text: "fit x \<Longrightarrow> Option.bind (read_json fl (json_text fr (to_json x))) of_json = Some x"
  by (simp add: read_text of_to)

lemma read_texts:
  "list_all fit xs \<Longrightarrow> map (\<lambda>x. read_json fl (json_text fr (to_json x))) xs = map (Some \<circ> to_json) xs"
  by (simp add: list_all_iff read_text)

end

sublocale text_codec \<subseteq> codec "\<lambda>x. json_text fr (to_json x)" "\<lambda>s. Option.bind (read_json fl s) of_json" fit for fr fl
  by unfold_locales (rule of_text)

section \<open>The structs of the program\<close>

interpretation req: text_codec request_json "unmarshal request_fields zero_request"
    "\<lambda>q. valid_utf8 (Cmd q) \<and> cmd_conf_ok (Conf q)"
  by unfold_locales (auto intro: unmarshal_request readable_request)

interpretation log: text_codec login_json "unmarshal login_fields zero_login"
    "\<lambda>l. list_all valid_utf8 [lr_Username l, lr_Password l, lr_Provider l]"
  by unfold_locales (auto intro: unmarshal_login readable_login)

definition reg_texts_ok :: "ocean_reg \<Rightarrow> bool" where
  "reg_texts_ok r \<longleftrightarrow> reg_ok r \<and> list_all valid_utf8 [o_ID r, o_Name r, o_GRPC r, o_HTTP r]"

definition fleet_texts_ok :: "fleet_summary \<Rightarrow> bool" where
  "fleet_texts_ok s \<longleftrightarrow> valid_utf8 (fs_Ocean s) \<and>
     list_all (\<lambda>f. int64_ok (fj_Concurrency f) \<and> list_all valid_utf8 [fj_Name f, fj_Target f, fj_Ocean f]) (fs_Jobs s)"

lemma discovery_tag_utf8:
  "valid_utf8 ''id''" "valid_utf8 ''grpc''" "valid_utf8 ''http''" "valid_utf8 ''maxConnections''" "valid_utf8 ''workers''"
  "valid_utf8 ''maxCap''" "valid_utf8 ''freeCap''" "valid_utf8 ''ocean''" "valid_utf8 ''jobs''" "valid_utf8 ''target''"
  "valid_utf8 ''concurrency''"
  by (auto intro!: valid_utf8_ascii simp: byte_def)

lemma readable_reg: "reg_texts_ok r \<Longrightarrow> readable (reg_json r)"
  by (simp add: reg_json_def reg_texts_ok_def discovery_tag_utf8 tag_utf8)

lemma readable_fleet: "fleet_texts_ok s \<Longrightarrow> readable (fleet_json s)"
  by (auto simp: fleet_json_def fleet_job_json_def fleet_texts_ok_def discovery_tag_utf8 tag_utf8 list_all_iff)

interpretation regs: text_codec reg_json "unmarshal reg_fields zero_reg" reg_texts_ok
  by unfold_locales (auto simp: reg_texts_ok_def unmarshal_reg intro: readable_reg)

interpretation fleets: text_codec fleet_json "unmarshal fleet_fields \<lparr>fs_Ocean = [], fs_Jobs = []\<rparr>" fleet_texts_ok
  by unfold_locales (auto simp: fleet_texts_ok_def list_all_iff intro!: unmarshal_fleet readable_fleet)

section \<open>Registrations as etcd holds them\<close>

text \<open>The texts that publishOcean and publishFleet put, and the values that a read of such texts stands for.\<close>

definition ocean_text :: "(real \<Rightarrow> string) \<Rightarrow> ocean \<Rightarrow> string option" where
  "ocean_text fr oc = map_option (\<lambda>(k, j). json_text fr j) (publishOcean oc)"

definition fleet_text :: "(real \<Rightarrow> string) \<Rightarrow> ocean \<Rightarrow> string option" where
  "fleet_text fr oc = map_option (\<lambda>(k, j). json_text fr j) (publishFleet oc)"

definition kvs_of :: "(string \<Rightarrow> real option) \<Rightarrow> string list \<Rightarrow> kvs" where
  "kvs_of fl texts = Some (map (read_json fl) texts)"

text \<open>C34: The texts that any number of oceans put into etcd are read by the other oceans as exactly the
  registrations and the running tests that were published, in the order of the read, and a worker
  chooses by the same figures.\<close>

theorem published_texts_read_back:
  assumes "map (ocean_text fr) ocs = map Some texts" "map (fleet_text fr) ocs = map Some summaries"
    and "list_all (\<lambda>oc. reg_texts_ok (ocean_registration oc) \<and> fleet_texts_ok (fleet_of oc) \<and> oc_id oc \<noteq> []) ocs"
  shows "allOceans True (kvs_of fl texts) = map ocean_registration ocs
    \<and> allFleetJobs True (kvs_of fl summaries) = concat (map (\<lambda>oc. fs_Jobs (fleet_of oc)) ocs)
    \<and> decoded (the (kvs_of fl texts)) = map (\<lambda>oc. worker_view (ocean_registration oc)) ocs"
  using assms
proof (induction ocs arbitrary: texts summaries)
  case Nil
  then show ?case by (simp add: kvs_of_def allOceans_def allFleetJobs_def decoded_def map_filter_simps)
next
  case (Cons oc ocs)
  then obtain t ts u us where e: "texts = t # ts" "summaries = u # us" by (cases texts; cases summaries) auto
  have ok: "reg_texts_ok (ocean_registration oc)" "fleet_texts_ok (fleet_of oc)" "oc_id oc \<noteq> []" using Cons.prems(3) by auto
  have t: "read_json fl t = Some (reg_json (ocean_registration oc))"
    using Cons.prems(1) e regs.read_text [OF ok(1)] by (auto simp: ocean_text_def publishOcean_def split: if_splits)
  have u: "read_json fl u = Some (fleet_json (fleet_of oc))"
    using Cons.prems(2) e fleets.read_text [OF ok(2)] by (auto simp: fleet_text_def publishFleet_def split: if_splits)
  have id: "o_ID (ocean_registration oc) = oc_id oc" by (simp add: ocean_registration_def Let_def)
  have "reg_ok (ocean_registration oc)" using ok(1) by (simp add: reg_texts_ok_def)
  with Cons.IH [of ts us] Cons.prems e t u ok id show ?case
    by (simp add: kvs_of_def allOceans_def allFleetJobs_def decoded_def map_filter_simps regs.of_to fleets.of_to unmarshal_worker_reg)
qed

theorem published_texts_read_back_witness:
  "\<exists>t u. map o_Workers (allOceans True (kvs_of (\<lambda>_. None) [t])) = [2]
    \<and> map fj_Concurrency (allFleetJobs True (kvs_of (\<lambda>_. None) [u])) = [5]"
proof -
  let ?oc = "run_started\<lparr>oc_discovery := True\<rparr>"
  obtain t u where tu: "ocean_text (\<lambda>_. []) ?oc = Some t" "fleet_text (\<lambda>_. []) ?oc = Some u"
    by (simp add: ocean_text_def fleet_text_def publishOcean_def publishFleet_def)
  have "reg_texts_ok (ocean_registration ?oc)" "fleet_texts_ok (fleet_of ?oc)" "oc_id ?oc \<noteq> []"
    "o_Workers (ocean_registration ?oc) = 2" "map fj_Concurrency (fs_Jobs (fleet_of ?oc)) = [5]" by code_simp+
  with published_texts_read_back [of "\<lambda>_. []" "[?oc]" "[t]" "[u]" "\<lambda>_. None"] tu
  show ?thesis by (intro exI [of _ t] exI [of _ u]) simp
qed

end
