(* ===== verification/EngineRun.thy ===== *)
theory EngineRun
  imports Engine
begin

text \<open>
  A running test in full (worker/tsunami.go: GenLoad, Stop; worker/worker.go: Run, do): the
  service with its counters while its goroutines run. Engine's run_step is its abstraction,
  which has the flags, the queue and the number of jobs taken off it; here each job taken
  is a request of one loop against the HTTP client, and ends in that loop's counters.
\<close>

section \<open>State and steps\<close>

text \<open>A request loop: before its templates are compiled, testing done, waiting for a job, in the
  middle of a request, or gone.\<close>

datatype engine_pc = EPrepare | ECheck | ERecv | EDo | EEnd

record engine =
  en_ts :: tsunami
  en_queue :: nat
  en_gens :: "gen_pc list"
  en_loops :: "engine_pc list"

definition set_worker :: "nat \<Rightarrow> loop_worker \<Rightarrow> tsunami \<Rightarrow> tsunami" where
  "set_worker i w ts = ts\<lparr>ts_workers := (ts_workers ts)[i := w]\<rparr>"

definition keep_sample :: "sample option \<Rightarrow> tsunami \<Rightarrow> tsunami" where
  "keep_sample smp ts = (case smp of None \<Rightarrow> ts | Some s \<Rightarrow> ts\<lparr>ts_sample := Some (Some s)\<rparr>)"

text \<open>The state of the generators of random values is shared with other services, so a request
  finds it as it happens to be.\<close>

inductive engine_step :: "engine \<Rightarrow> engine \<Rightarrow> bool" where
  gen_start: "i < length (en_gens e) \<Longrightarrow> en_gens e ! i = GStart \<Longrightarrow>
    engine_step e (e\<lparr>en_ts := (en_ts e)\<lparr>ts_done := False\<rparr>, en_gens := (en_gens e)[i := GCheck]\<rparr>)"
| gen_check: "i < length (en_gens e) \<Longrightarrow> en_gens e ! i = GCheck \<Longrightarrow>
    engine_step e (e\<lparr>en_gens := (en_gens e)[i := if ts_done (en_ts e) then GEnd else GSend]\<rparr>)"
| gen_send: "i < length (en_gens e) \<Longrightarrow> en_gens e ! i = GSend \<Longrightarrow> int (en_queue e) < ts_maxQueues (en_ts e) \<Longrightarrow>
    engine_step e (e\<lparr>en_queue := en_queue e + 1, en_gens := (en_gens e)[i := GCheck]\<rparr>)"
| loop_prepare: "i < length (en_loops e) \<Longrightarrow> en_loops e ! i = EPrepare \<Longrightarrow>
    engine_step e (e\<lparr>en_ts := set_worker i (prepare (ts_workers (en_ts e) ! i)) (en_ts e),
      en_loops := (en_loops e)[i := ECheck]\<rparr>)"
| loop_check: "i < length (en_loops e) \<Longrightarrow> en_loops e ! i = ECheck \<Longrightarrow>
    engine_step e (e\<lparr>en_loops := (en_loops e)[i := if ts_done (en_ts e) then EEnd else ERecv]\<rparr>)"
| loop_recv: "i < length (en_loops e) \<Longrightarrow> en_loops e ! i = ERecv \<Longrightarrow> 0 < en_queue e \<Longrightarrow>
    engine_step e (e\<lparr>en_queue := en_queue e - 1, en_loops := (en_loops e)[i := EDo]\<rparr>)"
| loop_do: "i < length (en_loops e) \<Longrightarrow> en_loops e ! i = EDo \<Longrightarrow>
    do_request client elapsed now (ts_workers (en_ts e) ! i) st = Some (w, smp, st') \<Longrightarrow>
    engine_step e (e\<lparr>en_ts := keep_sample smp (set_worker i w (en_ts e)), en_loops := (en_loops e)[i := ECheck]\<rparr>)"

definition stop_engine :: "engine \<Rightarrow> engine" where
  "stop_engine e = e\<lparr>en_ts := Stop_ts (en_ts e)\<rparr>"

definition engine_event :: "engine \<Rightarrow> engine \<Rightarrow> bool" where
  "engine_event e e' \<longleftrightarrow> engine_step e e' \<or> e' = stop_engine e"

text \<open>What startService leaves behind: the service, and its goroutines on their way.\<close>

definition started_engine :: "(string \<Rightarrow> string \<times> string) \<Rightarrow> int \<Rightarrow> conf \<Rightarrow> bool \<Rightarrow> engine" where
  "started_engine parse now c verbose =
     (let ts = Run now (Init parse 100000 (new_tsunami c False verbose))
      in \<lparr>en_ts = ts, en_queue = 0, en_gens = [GStart, GStart],
          en_loops = replicate (length (ts_workers ts)) EPrepare\<rparr>)"

definition engine_init :: "(string \<Rightarrow> string \<times> string) \<Rightarrow> conf \<Rightarrow> engine \<Rightarrow> bool" where
  "engine_init parse c e \<longleftrightarrow> (\<exists>now verbose. e = started_engine parse now c verbose)"

section \<open>The abstraction\<close>

fun loop_of :: "engine_pc \<Rightarrow> loop_pc" where
  "loop_of ERecv = LRecv"
| "loop_of EEnd = LEnd"
| "loop_of _ = LCheck"

definition in_flight :: "engine \<Rightarrow> nat" where
  "in_flight e = length (filter (\<lambda>l. l = EDo) (en_loops e))"

definition attempts_made :: "tsunami \<Rightarrow> int" where
  "attempts_made ts = sum_list (map (\<lambda>w. numReq (lw_stat w)) (ts_workers ts))"

definition run_of :: "engine \<Rightarrow> run_state" where
  "run_of e =
     \<lparr>r_done = ts_done (en_ts e), r_queue = en_queue e, r_gens = en_gens e, r_loops = map loop_of (en_loops e),
      r_requests = nat (attempts_made (en_ts e)) + in_flight e\<rparr>"

text \<open>Its invariant: a loop has its own counters, and its templates once it has prepared.\<close>

definition loop_ok :: "conf \<Rightarrow> engine_pc \<Rightarrow> loop_worker \<Rightarrow> bool" where
  "loop_ok c pc w \<longleftrightarrow> lw_conf w = c \<and> 0 \<le> numReq (lw_stat w) \<and> (pc \<noteq> EPrepare \<longrightarrow> lw_tmpls w \<noteq> None)"

definition engine_ok :: "conf \<Rightarrow> engine \<Rightarrow> bool" where
  "engine_ok c e \<longleftrightarrow> ts_conf (en_ts e) = c \<and> ts_maxQueues (en_ts e) = 100000 \<and>
     length (ts_workers (en_ts e)) = nat (Concurrence c) \<and> list_all2 (loop_ok c) (en_loops e) (ts_workers (en_ts e))"

lemma engine_okD:
  assumes "engine_ok c e"
  shows "length (en_loops e) = length (ts_workers (en_ts e))"
    and "i < length (en_loops e) \<Longrightarrow> loop_ok c (en_loops e ! i) (ts_workers (en_ts e) ! i)"
    and "0 \<le> attempts_made (en_ts e)"
proof -
  have all: "list_all2 (loop_ok c) (en_loops e) (ts_workers (en_ts e))" using assms by (simp add: engine_ok_def)
  then show len: "length (en_loops e) = length (ts_workers (en_ts e))" by (rule list_all2_lengthD)
  show "i < length (en_loops e) \<Longrightarrow> loop_ok c (en_loops e ! i) (ts_workers (en_ts e) ! i)" for i
    using all by (simp add: list_all2_conv_all_nth)
  have "0 \<le> numReq (lw_stat w)" if "w \<in> set (ts_workers (en_ts e))" for w
    using that all len by (auto simp: in_set_conv_nth list_all2_conv_all_nth loop_ok_def)
  then show "0 \<le> attempts_made (en_ts e)" unfolding attempts_made_def by (intro sum_list_nonneg) auto
qed

lemma engine_ts_simps [simp]:
  "ts_done (set_worker i w ts) = ts_done ts" "ts_conf (set_worker i w ts) = ts_conf ts"
  "ts_maxQueues (set_worker i w ts) = ts_maxQueues ts" "ts_workers (set_worker i w ts) = (ts_workers ts)[i := w]"
  "ts_done (keep_sample smp ts) = ts_done ts" "ts_conf (keep_sample smp ts) = ts_conf ts"
  "ts_maxQueues (keep_sample smp ts) = ts_maxQueues ts" "ts_workers (keep_sample smp ts) = ts_workers ts"
  by (simp_all add: set_worker_def keep_sample_def split: option.split)

lemma do_request_counts:
  "do_request client elapsed now w st = Some (w', smp, st') \<Longrightarrow>
   lw_conf w' = lw_conf w \<and> lw_tmpls w' = lw_tmpls w \<and> numReq (lw_stat w') = numReq (lw_stat w) + 1"
  by (auto simp: do_request_def Let_def record_attempt_simps)

lemma sum_list_update_int:
  "i < length xs \<Longrightarrow> sum_list (map f (xs[i := y])) = sum_list (map f xs) - f (xs ! i) + f y" for f :: "'a \<Rightarrow> int"
proof (induction xs arbitrary: i)
  case (Cons x xs)
  then show ?case by (cases i) auto
qed simp

lemma engine_step_ok: "engine_step e e' \<Longrightarrow> engine_ok c e \<Longrightarrow> engine_ok c e'"
proof (induction rule: engine_step.induct)
  case (loop_prepare i e)
  then show ?case using engine_okD [OF loop_prepare(3)]
    by (auto simp: engine_ok_def loop_ok_def prepare_def intro!: list_all2_update_cong)
next
  case (loop_check i e)
  then show ?case using engine_okD(1) [OF loop_check(3)] engine_okD(2) [OF loop_check(3,1)]
    by (auto simp: engine_ok_def loop_ok_def list_all2_conv_all_nth nth_list_update)
next
  case (loop_recv i e)
  then show ?case using engine_okD(1) [OF loop_recv(4)] engine_okD(2) [OF loop_recv(4,1)]
    by (auto simp: engine_ok_def loop_ok_def list_all2_conv_all_nth nth_list_update)
next
  case (loop_do i e client elapsed now st w smp st')
  then show ?case using engine_okD(1) [OF loop_do(4)] engine_okD(2) [OF loop_do(4,1)] do_request_counts [OF loop_do(3)]
    by (auto simp: engine_ok_def loop_ok_def list_all2_conv_all_nth nth_list_update)
qed (simp_all add: engine_ok_def)

lemma engine_event_ok: "engine_event e e' \<Longrightarrow> engine_ok c e \<Longrightarrow> engine_ok c e'"
  unfolding engine_event_def using engine_step_ok [of e e' c] by (auto simp: stop_engine_def Stop_ts_def engine_ok_def)

lemma Init_conf:
  "ts_conf (Init parse q (new_tsunami c rep v)) = c" "ts_maxQueues (Init parse q (new_tsunami c rep v)) = q"
proof -
  have "ts_conf (((\<lambda>ts. AddWorker (w ts) ts) ^^ n) ts) = ts_conf ts \<and>
      ts_maxQueues (((\<lambda>ts. AddWorker (w ts) ts) ^^ n) ts) = ts_maxQueues ts" for w n ts
    by (induction n) (auto simp: AddWorker_def)
  then show "ts_conf (Init parse q (new_tsunami c rep v)) = c" "ts_maxQueues (Init parse q (new_tsunami c rep v)) = q"
    by (simp_all add: Init_def new_tsunami_def Let_def case_prod_unfold)
qed

lemma engine_init_ok: "engine_init parse c e \<Longrightarrow> engine_ok c e"
  by (auto simp: engine_init_def engine_ok_def Init_conf Init_workers started_engine_def Run_def Let_def
      list_all2_conv_all_nth loop_ok_def zero_stat_def)

interpretation eng: machine "engine_init parse c" engine_event "engine_ok c"
  by unfold_locales (auto intro: engine_init_ok engine_event_ok)

text \<open>Each step is one of the abstraction, or none of it.\<close>

lemma run_of_started: "run_of (started_engine parse now c v) = started_run (nat (Concurrence c))"
  by (simp add: run_of_def attempts_made_def in_flight_def started_run_def started_engine_def Run_def Let_def
      Init_workers zero_stat_def sum_list_replicate)

lemma run_of_stop: "run_of (stop_engine e) = stop_run (run_of e)"
  by (simp add: run_of_def stop_engine_def Stop_ts_def stop_run_def attempts_made_def in_flight_def)

lemma loop_of_unchanged: "loop_of (xs ! i) = loop_of pc \<Longrightarrow> map loop_of (xs[i := pc]) = map loop_of xs"
  by (metis list_update_id map_update)

lemma engine_simulates:
  "engine_step e e' \<Longrightarrow> engine_ok c e \<Longrightarrow> run_step 100000 (run_of e) (run_of e') \<or> run_of e' = run_of e"
proof (induction rule: engine_step.induct)
  case (gen_start i e)
  then show ?case using run_step.gen_start [of i "run_of e" 100000]
    by (simp add: run_of_def attempts_made_def in_flight_def)
next
  case (gen_check i e)
  then show ?case using run_step.gen_check [of i "run_of e" 100000]
    by (simp add: run_of_def attempts_made_def in_flight_def)
next
  case (gen_send i e)
  then show ?case using run_step.gen_send [of i "run_of e" 100000]
    by (simp add: run_of_def attempts_made_def in_flight_def engine_ok_def)
next
  case (loop_prepare i e)
  have "attempts_made (set_worker i (prepare (ts_workers (en_ts e) ! i)) (en_ts e)) = attempts_made (en_ts e)"
    using loop_prepare(1) engine_okD(1) [OF loop_prepare(3)]
    by (simp add: attempts_made_def sum_list_update_int prepare_def)
  moreover have "length (filter (\<lambda>l. l = EDo) ((en_loops e)[i := ECheck])) = in_flight e"
    using count_update [OF loop_prepare(1), of "\<lambda>l. l = EDo" ECheck] loop_prepare(2) by (simp add: in_flight_def)
  ultimately show ?case using loop_prepare(2) loop_of_unchanged [of "en_loops e" i ECheck]
    by (simp add: run_of_def in_flight_def)
next
  case (loop_check i e)
  let ?pc = "if ts_done (en_ts e) then EEnd else ERecv"
  have "length (filter (\<lambda>l. l = EDo) ((en_loops e)[i := ?pc])) = in_flight e"
    using count_update [OF loop_check(1), of "\<lambda>l. l = EDo" ?pc] loop_check(2) by (simp add: in_flight_def split: if_splits)
  then show ?case using run_step.loop_check [of i "run_of e" 100000] loop_check(1,2)
    by (simp add: run_of_def attempts_made_def in_flight_def map_update split: if_splits)
next
  case (loop_recv i e)
  have "length (filter (\<lambda>l. l = EDo) ((en_loops e)[i := EDo])) = in_flight e + 1"
    using count_update [OF loop_recv(1), of "\<lambda>l. l = EDo" EDo] loop_recv(2) by (simp add: in_flight_def)
  then show ?case using run_step.loop_recv [of i "run_of e" 100000] loop_recv(1-3)
    by (simp add: run_of_def attempts_made_def in_flight_def map_update)
next
  case (loop_do i e client elapsed now st w smp st')
  have "length (filter (\<lambda>l. l = EDo) ((en_loops e)[i := ECheck])) + 1 = in_flight e"
    using count_update [OF loop_do(1), of "\<lambda>l. l = EDo" ECheck] loop_do(2) by (simp add: in_flight_def)
  moreover have "attempts_made (keep_sample smp (set_worker i w (en_ts e))) = attempts_made (en_ts e) + 1"
    using loop_do(1) engine_okD(1) [OF loop_do(4)] do_request_counts [OF loop_do(3)]
    by (simp add: attempts_made_def sum_list_update_int)
  ultimately show ?case using loop_do(2) loop_of_unchanged [of "en_loops e" i ECheck] engine_okD(3) [OF loop_do(4)]
    by (simp add: run_of_def in_flight_def nat_add_distrib)
qed

text \<open>The requests in a metric are those of the loops' counters.\<close>

lemma totals_requests: "t_req (fold add_stat ws t) = t_req t + sum_list (map numReq ws)"
  by (induction ws arbitrary: t) (simp_all add: add_stat_def Let_def)

lemma metric_requests: "m_request_count (serviceMetric n (map lw_stat (ts_workers ts)) secs) = attempts_made ts"
  by (simp add: serviceMetric_def Let_def totals_requests zero_totals_def attempts_made_def comp_def)

definition run_event :: "run_state \<Rightarrow> run_state \<Rightarrow> bool" where
  "run_event r r' \<longleftrightarrow> run_step 100000 r r' \<or> r' = stop_run r"

lemma event_simulates: "engine_event e e' \<Longrightarrow> engine_ok c e \<Longrightarrow> run_event\<^sup>*\<^sup>* (run_of e) (run_of e')"
proof -
  assume "engine_event e e'" and "engine_ok c e"
  then have "run_event (run_of e) (run_of e') \<or> run_of e' = run_of e"
    unfolding engine_event_def run_event_def using engine_simulates [of e e' c] by (auto simp: run_of_stop)
  then show ?thesis by auto
qed

section \<open>Coming to rest\<close>

fun engine_work :: "engine_pc \<Rightarrow> nat" where
  "engine_work ERecv = 3" | "engine_work EDo = 2" | "engine_work EPrepare = 2" | "engine_work ECheck = 1"
| "engine_work EEnd = 0"

definition engine_left :: "engine \<Rightarrow> nat" where
  "engine_left e = sum_list (map gen_work (en_gens e)) + sum_list (map engine_work (en_loops e))"

definition ending_engine :: "engine \<Rightarrow> bool" where
  "ending_engine e \<longleftrightarrow> ts_done (en_ts e) \<and> GStart \<notin> set (en_gens e)"

lemma ending_run: "ending_engine e = stopping (run_of e)"
  by (simp add: ending_engine_def stopping_def run_of_def)

lemma ending_work: "engine_step e e' \<Longrightarrow> ending_engine e \<Longrightarrow> engine_left e' < engine_left e"
proof (induction rule: engine_step.induct)
  case (gen_start i e)
  then show ?case by (metis nth_mem ending_engine_def)
next
  case (gen_check i e)
  with sum_list_update_nat [of i "en_gens e" gen_work GEnd] show ?case by (simp add: engine_left_def ending_engine_def)
next
  case (gen_send i e)
  with sum_list_update_nat [of i "en_gens e" gen_work GCheck] show ?case by (simp add: engine_left_def)
next
  case (loop_prepare i e)
  with sum_list_update_nat [of i "en_loops e" engine_work ECheck] show ?case by (simp add: engine_left_def)
next
  case (loop_check i e)
  with sum_list_update_nat [of i "en_loops e" engine_work EEnd] show ?case by (simp add: engine_left_def ending_engine_def)
next
  case (loop_recv i e)
  with sum_list_update_nat [of i "en_loops e" engine_work EDo] show ?case by (simp add: engine_left_def)
next
  case (loop_do i e client elapsed now st w smp st')
  with sum_list_update_nat [of i "en_loops e" engine_work ECheck] show ?case by (simp add: engine_left_def)
qed

lemma ending_steps:
  assumes "(engine_step ^^ n) e e'" and "engine_ok c e" and "ending_engine e"
  shows "engine_ok c e' \<and> ending_engine e' \<and> n + engine_left e' \<le> engine_left e \<and>
    r_requests (run_of e') + waiting (run_of e') = r_requests (run_of e) + waiting (run_of e)"
  using assms
proof (induction n arbitrary: e')
  case (Suc n)
  then obtain d where d: "(engine_step ^^ n) e d" "engine_step d e'" by auto
  from Suc.IH [OF d(1) Suc.prems(2,3)] have IH: "engine_ok c d" "ending_engine d" "n + engine_left d \<le> engine_left e"
    "r_requests (run_of d) + waiting (run_of d) = r_requests (run_of e) + waiting (run_of e)" by auto
  have "stopping (run_of e') \<and> r_requests (run_of e') + waiting (run_of e') = r_requests (run_of d) + waiting (run_of d)"
    using engine_simulates [OF d(2) IH(1)] stopping_step stopping_requests IH(2) by (auto simp: ending_run)
  with IH engine_step_ok [OF d(2) IH(1)] ending_work [OF d(2) IH(2)] show ?case by (simp add: ending_run)
qed simp

section \<open>Properties\<close>

text \<open>C14: The engine's figures are its requests. In every run of a service, whenever it is stopped:
  what its goroutines do is a run of the abstract queue with the configured number of loops,
  and the request count that the service reports is exactly the number of jobs taken off the
  queue less those whose request is under way.\<close>
theorem engine_counts_requests:
  assumes "reach (engine_init parse c) engine_event e"
  shows "run_event\<^sup>*\<^sup>* (started_run (nat (Concurrence c))) (run_of e) \<and>
    length (ts_workers (en_ts e)) = nat (Concurrence c) \<and>
    m_request_count (serviceMetric n (map lw_stat (ts_workers (en_ts e))) secs) + int (in_flight e) =
      int (r_requests (run_of e))"
proof -
  note ok = eng.reach_inv [OF assms]
  have "run_event\<^sup>*\<^sup>* (started_run (nat (Concurrence c))) (run_of e)"
    using assms
  proof (induction rule: reach.induct)
    case (reach_init e)
    then show ?case by (auto simp: engine_init_def run_of_started)
  next
    case (reach_step e e')
    from event_simulates [OF reach_step(2) eng.reach_inv [OF reach_step(1)]] reach_step(3) show ?case by simp
  qed
  moreover have "length (ts_workers (en_ts e)) = nat (Concurrence c)" using ok by (simp add: engine_ok_def)
  ultimately show ?thesis using engine_okD(3) [OF ok] by (simp add: metric_requests run_of_def)
qed


text \<open>A service whose queue is full when it is stopped leaves its two generators behind: they
  wait to send for ever, because no loop takes a job any more. As the generators are faster
  than the requests, this is the usual end of a test; the goroutines and the queue of 100000
  jobs are never released.\<close>
theorem generators_never_end:
  fixes e e' :: engine
  assumes "int (en_queue e) = ts_maxQueues (en_ts e)" and "set (en_gens e) \<subseteq> {GSend}" and "ERecv \<notin> set (en_loops e)"
    and "engine_step\<^sup>*\<^sup>* (stop_engine e) e'"
  shows "en_gens e' = en_gens e \<and> en_queue e' = en_queue e"
proof -
  define stuck :: "engine \<Rightarrow> bool" where "stuck d \<longleftrightarrow> ts_done (en_ts d) \<and> ts_maxQueues (en_ts d) = ts_maxQueues (en_ts e) \<and>
    ERecv \<notin> set (en_loops d) \<and> en_gens d = en_gens e \<and> en_queue d = en_queue e" for d
  have sending: "i < length (en_gens e) \<Longrightarrow> en_gens e ! i = GSend" for i
    using assms(2) nth_mem [of i "en_gens e"] by blast
  have keep: "stuck d'" if "engine_step d d'" "stuck d" for d d'
    using that assms(1,2)
  proof (induction rule: engine_step.induct)
    case (gen_start i d)
    then show ?case using sending [of i] by (auto simp: stuck_def)
  next
    case (gen_check i d)
    then show ?case using sending [of i] by (auto simp: stuck_def)
  next
    case (loop_recv i d)
    then show ?case using nth_mem [of i "en_loops d"] by (auto simp: stuck_def)
  qed (auto simp: stuck_def dest: set_update_subset_insert [THEN subsetD])
  have "stuck (stop_engine e)" using assms(3) by (simp add: stuck_def stop_engine_def Stop_ts_def)
  with assms(4) have "stuck e'" by (induction rule: rtranclp_induct) (auto intro: keep)
  then show ?thesis by (simp add: stuck_def)
qed

section \<open>A small run\<close>

definition demo_conf :: conf where
  "demo_conf = zero_conf\<lparr>Name := ''t'', URL := ''http://t/'', Concurrence := 1\<rparr>"

abbreviation demo_parse :: "string \<Rightarrow> string \<times> string" where
  "demo_parse \<equiv> \<lambda>_. (''http'', ''t'')"

definition demo_ts :: tsunami where
  "demo_ts = Run 0 (Init demo_parse 100000 (new_tsunami demo_conf False False))"

definition demo_prepared :: tsunami where
  "demo_prepared = set_worker 0 (prepare (ts_workers demo_ts ! 0)) demo_ts"

abbreviation demo_at :: "nat \<Rightarrow> gen_pc list \<Rightarrow> engine_pc \<Rightarrow> tsunami \<Rightarrow> engine" where
  "demo_at q gens pc ts \<equiv> \<lparr>en_ts = ts, en_queue = q, en_gens = gens, en_loops = [pc]\<rparr>"

lemma demo_ts_fields:
  "ts_maxQueues demo_ts = 100000" "ts_done demo_ts = False" "demo_ts\<lparr>ts_done := False\<rparr> = demo_ts"
  by (simp_all add: demo_ts_def Run_def Init_conf)

lemma reach_engine_step:
  "reach (engine_init parse c) engine_event e \<Longrightarrow> engine_step e e' \<Longrightarrow> reach (engine_init parse c) engine_event e'"
  by (erule reach_step) (simp add: engine_event_def)

lemma demo_init: "engine_init demo_parse demo_conf (demo_at 0 [GStart, GStart] EPrepare demo_ts)"
  unfolding engine_init_def
  by (intro exI [of _ 0] exI [of _ False]) (simp add: started_engine_def demo_ts_def Let_def Run_def Init_workers demo_conf_def)

lemma demo_filling:
  "q \<le> 100000 \<Longrightarrow> reach (engine_init demo_parse demo_conf) engine_event (demo_at q [GCheck, GCheck] EPrepare demo_ts)"
proof (induction q)
  case 0
  have 1: "engine_step (demo_at 0 [GStart, GStart] EPrepare demo_ts) (demo_at 0 [GCheck, GStart] EPrepare demo_ts)"
    using engine_step.gen_start [of 0 "demo_at 0 [GStart, GStart] EPrepare demo_ts"] by (simp add: demo_ts_fields)
  have 2: "engine_step (demo_at 0 [GCheck, GStart] EPrepare demo_ts) (demo_at 0 [GCheck, GCheck] EPrepare demo_ts)"
    using engine_step.gen_start [of 1 "demo_at 0 [GCheck, GStart] EPrepare demo_ts"] by (simp add: demo_ts_fields)
  have "reach (engine_init demo_parse demo_conf) engine_event (demo_at 0 [GStart, GStart] EPrepare demo_ts)"
    by (rule reach_init) (rule demo_init)
  from reach_engine_step [OF reach_engine_step [OF this 1] 2] show ?case .
next
  case (Suc q)
  have 1: "engine_step (demo_at q [GCheck, GCheck] EPrepare demo_ts) (demo_at q [GSend, GCheck] EPrepare demo_ts)"
    using engine_step.gen_check [of 0 "demo_at q [GCheck, GCheck] EPrepare demo_ts"] by (simp add: demo_ts_fields)
  have 2: "engine_step (demo_at q [GSend, GCheck] EPrepare demo_ts) (demo_at (Suc q) [GCheck, GCheck] EPrepare demo_ts)"
    using engine_step.gen_send [of 0 "demo_at q [GSend, GCheck] EPrepare demo_ts"] Suc.prems by (simp add: demo_ts_fields)
  have "q \<le> 100000" using Suc.prems by linarith
  from reach_engine_step [OF reach_engine_step [OF Suc.IH [OF this] 1] 2] show ?case .
qed

definition demo_full :: engine where
  "demo_full = demo_at 100000 [GSend, GSend] EPrepare demo_ts"

lemma demo_full_reach: "reach (engine_init demo_parse demo_conf) engine_event demo_full"
proof -
  have 1: "engine_step (demo_at 100000 [GCheck, GCheck] EPrepare demo_ts) (demo_at 100000 [GSend, GCheck] EPrepare demo_ts)"
    using engine_step.gen_check [of 0 "demo_at 100000 [GCheck, GCheck] EPrepare demo_ts"] by (simp add: demo_ts_fields)
  have 2: "engine_step (demo_at 100000 [GSend, GCheck] EPrepare demo_ts) demo_full"
    using engine_step.gen_check [of 1 "demo_at 100000 [GSend, GCheck] EPrepare demo_ts"]
    by (simp add: demo_ts_fields demo_full_def)
  show ?thesis by (rule reach_engine_step [OF reach_engine_step [OF demo_filling [OF order_refl] 1] 2])
qed

theorem generators_never_end_witness:
  "\<exists>e'. reach (engine_init demo_parse demo_conf) engine_event demo_full \<and>
     engine_step\<^sup>*\<^sup>* (stop_engine demo_full) e' \<and> en_loops e' = [EEnd] \<and> en_gens e' = [GSend, GSend] \<and> en_queue e' = 100000"
proof -
  let ?ts = "set_worker 0 (prepare (ts_workers (Stop_ts demo_ts) ! 0)) (Stop_ts demo_ts)"
  let ?e' = "demo_at 100000 [GSend, GSend] EEnd ?ts"
  have 1: "engine_step (stop_engine demo_full) (demo_at 100000 [GSend, GSend] ECheck ?ts)"
    using engine_step.loop_prepare [of 0 "stop_engine demo_full"] by (simp add: stop_engine_def demo_full_def)
  have 2: "engine_step (demo_at 100000 [GSend, GSend] ECheck ?ts) ?e'"
    using engine_step.loop_check [of 0 "demo_at 100000 [GSend, GSend] ECheck ?ts"] by (simp add: Stop_ts_def)
  have run: "engine_step\<^sup>*\<^sup>* (stop_engine demo_full) ?e'" by (rule converse_rtranclp_into_rtranclp [OF 1 r_into_rtranclp [of engine_step, OF 2]])
  have full: "int (en_queue demo_full) = ts_maxQueues (en_ts demo_full)" "set (en_gens demo_full) \<subseteq> {GSend}"
    "ERecv \<notin> set (en_loops demo_full)"
    by (simp_all add: demo_full_def demo_ts_fields)
  from generators_never_end [OF full run] have "en_gens ?e' = [GSend, GSend] \<and> en_queue ?e' = 100000"
    by (simp add: demo_full_def)
  with run demo_full_reach show ?thesis by (intro exI [of _ ?e']) simp
qed

text \<open>One job on the queue, taken by the loop, and its request under way.\<close>

definition demo_busy :: engine where
  "demo_busy = demo_at 0 [GCheck, GCheck] EDo demo_prepared"

lemma demo_busy_reach: "reach (engine_init demo_parse demo_conf) engine_event demo_busy"
proof -
  have 1: "engine_step (demo_at 1 [GCheck, GCheck] EPrepare demo_ts) (demo_at 1 [GCheck, GCheck] ECheck demo_prepared)"
    using engine_step.loop_prepare [of 0 "demo_at 1 [GCheck, GCheck] EPrepare demo_ts"] by (simp add: demo_prepared_def)
  have 2: "engine_step (demo_at 1 [GCheck, GCheck] ECheck demo_prepared) (demo_at 1 [GCheck, GCheck] ERecv demo_prepared)"
    using engine_step.loop_check [of 0 "demo_at 1 [GCheck, GCheck] ECheck demo_prepared"]
    by (simp add: demo_prepared_def demo_ts_fields)
  have 3: "engine_step (demo_at 1 [GCheck, GCheck] ERecv demo_prepared) demo_busy"
    using engine_step.loop_recv [of 0 "demo_at 1 [GCheck, GCheck] ERecv demo_prepared"] by (simp add: demo_busy_def)
  have "reach (engine_init demo_parse demo_conf) engine_event (demo_at 1 [GCheck, GCheck] EPrepare demo_ts)"
    by (rule demo_filling) simp
  from reach_engine_step [OF reach_engine_step [OF reach_engine_step [OF this 1] 2] 3] show ?thesis .
qed

lemma demo_busy_fields: "in_flight demo_busy = 1" "en_gens demo_busy = [GCheck, GCheck]" "en_loops demo_busy = [EDo]"
  "attempts_made (en_ts demo_busy) = 0"
proof -
  show "in_flight demo_busy = 1" "en_gens demo_busy = [GCheck, GCheck]" "en_loops demo_busy = [EDo]"
    by (simp_all add: in_flight_def demo_busy_def)
  show "attempts_made (en_ts demo_busy) = 0"
    by (simp add: attempts_made_def demo_busy_def demo_prepared_def demo_ts_def Run_def Init_workers
        demo_conf_def prepare_def zero_stat_def)
qed

theorem engine_counts_requests_witness:
  "m_request_count (serviceMetric ''t'' (map lw_stat (ts_workers (en_ts demo_busy))) 1) = 0 \<and>
   r_requests (run_of demo_busy) = 1 \<and> run_event\<^sup>*\<^sup>* (started_run 1) (run_of demo_busy)"
  using engine_counts_requests [OF demo_busy_reach, of "''t''" 1] demo_busy_fields
  by (simp add: metric_requests demo_conf_def)


end
