(* ===== verification/Telemetry.thy ===== *)
theory Telemetry
  imports EndToEnd Fleet EngineRun
begin

text \<open>
  The way up: the report loop of a worker (worker/server.go: reportLoop), the stream, the
  ocean's receiver (master/client.go) and what GetMetrics shows of it (master/services.go).
\<close>

section \<open>The report loop\<close>

text \<open>
  The goroutine of one stream: at each tick it takes the reports of the running services
  under the mutex, sends them one by one and then a heartbeat, and leaves when the stream is
  done or a send fails. Between its steps the services change. What it has sent is the stream.
\<close>

datatype report_pc = Ticking | Sending "worker_message list" | Left

record reporter =
  rl_pc :: report_pc
  rl_client :: ocean_client
  rl_done :: bool
  rl_sent :: "worker_message list"

inductive report_step :: "reporter \<Rightarrow> reporter \<Rightarrow> bool" where
  told: "rl_pc r = Ticking \<Longrightarrow> rl_done r \<Longrightarrow> report_step r (r\<lparr>rl_pc := Left\<rparr>)"
| tick: "rl_pc r = Ticking \<Longrightarrow> report_step r (r\<lparr>rl_pc := Sending (report_messages now (rl_client r))\<rparr>)"
| sent: "rl_pc r = Sending (m # ms) \<Longrightarrow>
    report_step r (r\<lparr>rl_pc := (if ms = [] then Ticking else Sending ms), rl_sent := rl_sent r @ [m]\<rparr>)"
| failed: "rl_pc r = Sending (m # ms) \<Longrightarrow> report_step r (r\<lparr>rl_pc := Left\<rparr>)"
| changed: "report_step r (r\<lparr>rl_client := c\<rparr>)"
| closed: "report_step r (r\<lparr>rl_done := True\<rparr>)"

definition report_init :: "reporter \<Rightarrow> bool" where
  "report_init r \<longleftrightarrow> rl_pc r = Ticking \<and> \<not> rl_done r \<and> rl_sent r = []"

text \<open>A round is what one tick sends.\<close>

definition round_of :: "worker_message list \<Rightarrow> bool" where
  "round_of ms \<longleftrightarrow> (\<exists>now c. ms = report_messages now c)"

definition rounds_ok :: "reporter \<Rightarrow> bool" where
  "rounds_ok r \<longleftrightarrow> (\<exists>rs part rest. (\<forall>ms\<in>set rs. round_of ms) \<and> rl_sent r = concat rs @ part \<and>
     (part = [] \<and> rest = [] \<or> round_of (part @ rest)) \<and>
     (case rl_pc r of Ticking \<Rightarrow> part = [] | Sending ms \<Rightarrow> ms = rest \<and> ms \<noteq> [] | Left \<Rightarrow> True))"

lemma rounds_okI:
  "\<forall>ms\<in>set rs. round_of ms \<Longrightarrow> rl_sent r = concat rs @ part \<Longrightarrow> part = [] \<and> rest = [] \<or> round_of (part @ rest) \<Longrightarrow>
   case rl_pc r of Ticking \<Rightarrow> part = [] | Sending ms \<Rightarrow> ms = rest \<and> ms \<noteq> [] | Left \<Rightarrow> True \<Longrightarrow> rounds_ok r"
  unfolding rounds_ok_def by blast

lemma report_step_ok: "report_step r r' \<Longrightarrow> rounds_ok r \<Longrightarrow> rounds_ok r'"
proof (induction rule: report_step.induct)
  case (told r)
  then obtain rs where "\<forall>ms\<in>set rs. round_of ms" "rl_sent r = concat rs" by (auto simp: rounds_ok_def)
  then show ?case by (intro rounds_okI [of rs _ "[]" "[]"]) auto
next
  case (tick r now)
  then obtain rs where "\<forall>ms\<in>set rs. round_of ms" "rl_sent r = concat rs" by (auto simp: rounds_ok_def)
  then show ?case
    by (intro rounds_okI [of rs _ "[]" "report_messages now (rl_client r)"]) (auto simp: round_of_def report_messages_def)
next
  case (sent r m ms)
  then obtain rs part where rs: "\<forall>ms\<in>set rs. round_of ms" "rl_sent r = concat rs @ part" "round_of (part @ m # ms)"
    by (auto simp: rounds_ok_def)
  show ?case
  proof (cases "ms = []")
    case True
    with rs show ?thesis by (intro rounds_okI [of "rs @ [part @ [m]]" _ "[]" "[]"]) auto
  next
    case False
    with rs show ?thesis by (intro rounds_okI [of rs _ "part @ [m]" ms]) auto
  qed
next
  case (failed r m ms)
  then obtain rs part where "\<forall>ms\<in>set rs. round_of ms" "rl_sent r = concat rs @ part" "round_of (part @ m # ms)"
    by (auto simp: rounds_ok_def)
  then show ?case by (intro rounds_okI [of rs _ part "m # ms"]) auto
qed (auto simp: rounds_ok_def)

lemma report_init_ok: "report_init r \<Longrightarrow> rounds_ok r"
  by (intro rounds_okI [of "[]" _ "[]" "[]"]) (auto simp: report_init_def)

interpretation rpt: machine report_init report_step rounds_ok
  by unfold_locales (auto intro: report_init_ok report_step_ok)

section \<open>A round arrives\<close>

text \<open>The figures a service reports, and a round of a worker's messages at the ocean.\<close>

definition service_metric :: "int \<Rightarrow> tsunami \<Rightarrow> metric" where
  "service_metric now ts = serviceMetric (Name (ts_conf ts)) (map lw_stat (ts_workers ts))
     (real_of_int (now - ts_start ts) / 1000000000)"

definition receive_round :: "string \<Rightarrow> worker_message list \<Rightarrow> ocean \<Rightarrow> ocean" where
  "receive_round i ms oc = fold (stream_message i) ms oc"

definition named :: "ocean_client \<Rightarrow> bool" where
  "named c \<longleftrightarrow> wf_map (cl_services c) \<and> (\<forall>n ts. map_of (cl_services c) n = Some ts \<longrightarrow> Name (ts_conf ts) = n)"

lemma m_job_metric [simp]: "m_job (service_metric now ts) = Name (ts_conf ts)"
  by (simp add: service_metric_def serviceMetric_def Let_def)

text \<open>Of a worker, a report changes the metrics and the samples of its test.\<close>

definition heard :: "string \<Rightarrow> metric \<Rightarrow> sample option \<Rightarrow> attached_worker \<Rightarrow> attached_worker" where
  "heard n m smp w = w\<lparr>w_metrics := mput n m (w_metrics w),
     w_samples := (case smp of None \<Rightarrow> w_samples w | Some s \<Rightarrow> mput n s (w_samples w))\<rparr>"

lemma report_message:
  "\<exists>smp. stream_message i (WMReport (service_report now ts)) oc =
     oc\<lparr>oc_workers := madj i (heard (Name (ts_conf ts)) (service_metric now ts) smp) (oc_workers oc)\<rparr>"
proof -
  define smp where "smp = rep_sample (service_report now ts)"
  have "rep_metric (service_report now ts) = Some (service_metric now ts)"
    by (simp add: service_report_def service_metric_def Let_def split: option.split)
  then have "stream_message i (WMReport (service_report now ts)) oc =
      oc\<lparr>oc_workers := madj i (heard (Name (ts_conf ts)) (service_metric now ts) smp) (oc_workers oc)\<rparr>"
    by (simp add: stream_message_def smp_def [symmetric] onReport_def onSample_def heard_def madj_def comp_def
        case_prod_unfold Let_def split: option.split)
  then show ?thesis by blast
qed


lemma heard_simps [simp]:
  "w_id (heard n m smp w) = w_id w" "w_used (heard n m smp w) = w_used w" "w_maxCap (heard n m smp w) = w_maxCap w"
  "w_send (heard n m smp w) = w_send w" "w_metrics (heard n m smp w) = mput n m (w_metrics w)"
  by (simp_all add: heard_def)

definition worker_state :: "attached_worker \<Rightarrow> int \<times> int \<times> ocean_message list" where
  "worker_state w = (w_used w, w_maxCap w, w_send w)"

definition same_but_figures :: "string \<Rightarrow> ocean \<Rightarrow> ocean \<Rightarrow> bool" where
  "same_but_figures i oc oc' \<longleftrightarrow> oc_jobs oc' = oc_jobs oc \<and> mkeys (oc_workers oc') = mkeys (oc_workers oc) \<and>
     (\<forall>i'. i' \<noteq> i \<longrightarrow> map_of (oc_workers oc') i' = map_of (oc_workers oc) i') \<and>
     map_option worker_state (map_of (oc_workers oc') i) = map_option worker_state (map_of (oc_workers oc) i)"

lemma same_refl: "same_but_figures i oc oc"
  by (simp add: same_but_figures_def)

lemma same_trans: "same_but_figures i a b \<Longrightarrow> same_but_figures i b c \<Longrightarrow> same_but_figures i a c"
  unfolding same_but_figures_def by simp

definition shown_metric :: "ocean \<Rightarrow> string \<Rightarrow> string \<Rightarrow> metric option" where
  "shown_metric oc i n = Option.bind (map_of (oc_workers oc) i) (\<lambda>w. map_of (w_metrics w) n)"

lemma receive_report:
  fixes now :: int and ts :: tsunami
  assumes "i \<in> mkeys (oc_workers oc)"
  defines "oc' \<equiv> stream_message i (WMReport (service_report now ts)) oc"
  shows "same_but_figures i oc oc'" and "shown_metric oc' i = (shown_metric oc i)(Name (ts_conf ts) \<mapsto> service_metric now ts)"
proof -
  obtain smp where oc': "oc' = oc\<lparr>oc_workers := madj i (heard (Name (ts_conf ts)) (service_metric now ts) smp) (oc_workers oc)\<rparr>"
    unfolding oc'_def using report_message by blast
  obtain w where w: "map_of (oc_workers oc) i = Some w" using assms(1) mkeys_obtain by metis
  show "same_but_figures i oc oc'" by (simp add: same_but_figures_def oc' map_of_madj w worker_state_def)
  show "shown_metric oc' i = (shown_metric oc i)(Name (ts_conf ts) \<mapsto> service_metric now ts)"
    by (simp add: shown_metric_def oc' map_of_madj w fun_eq_iff)
qed

lemma stream_heartbeat [simp]: "stream_message i (WMHeartbeat h) oc = oc"
  by (simp add: stream_message_def)

lemma receive_services:
  fixes now :: int
  assumes "wf_map svs" and "\<And>n ts. map_of svs n = Some ts \<Longrightarrow> Name (ts_conf ts) = n" and "i \<in> mkeys (oc_workers oc)"
  defines "oc' \<equiv> receive_round i (map (\<lambda>(_, ts). WMReport (service_report now ts)) svs) oc"
  shows "same_but_figures i oc oc' \<and> (\<forall>n. shown_metric oc' i n =
    (case map_of svs n of None \<Rightarrow> shown_metric oc i n | Some ts \<Rightarrow> Some (service_metric now ts)))"
  unfolding oc'_def using assms(1-3)
proof (induction svs arbitrary: oc)
  case Nil
  then show ?case by (simp add: receive_round_def same_refl)
next
  case (Cons kv svs)
  obtain n0 ts0 where kv: "kv = (n0, ts0)" by force
  let ?oc = "stream_message i (WMReport (service_report now ts0)) oc"
  have name: "Name (ts_conf ts0) = n0" using Cons.prems(2) [of n0 ts0] by (simp add: kv)
  have fresh: "map_of svs n0 = None" using Cons.prems(1) by (simp add: kv map_of_None_iff)
  note one = receive_report [OF Cons.prems(3), of now ts0]
  have i: "i \<in> mkeys (oc_workers ?oc)" using one(1) Cons.prems(3) by (simp add: same_but_figures_def)
  have names: "Name (ts_conf ts) = n" if "map_of svs n = Some ts" for n ts
  proof -
    have "n \<noteq> n0" using that fresh by auto
    with that show ?thesis using Cons.prems(2) [of n ts] by (simp add: kv)
  qed
  have "wf_map svs" using Cons.prems(1) by (simp add: kv)
  from Cons.IH [OF this names i] one show ?case
    using fresh by (auto simp: kv receive_round_def name split: option.split intro: same_trans)
qed

text \<open>A whole round: the running tests show their present figures, the others what they showed.\<close>

lemma receive_report_round:
  assumes "named c" and "i \<in> mkeys (oc_workers oc)"
  shows "same_but_figures i oc (receive_round i (report_messages now c) oc)"
    and "shown_metric (receive_round i (report_messages now c) oc) i n =
      (case map_of (cl_services c) n of None \<Rightarrow> shown_metric oc i n | Some ts \<Rightarrow> Some (service_metric now ts))"
  using receive_services [of "cl_services c" i oc now] assms
  by (simp_all add: named_def report_messages_def receive_round_def)

section \<open>A round of the whole fleet\<close>

text \<open>Each of the workers sends a round, one after the other, each at its own time.\<close>

definition all_report :: "(string \<Rightarrow> int) \<Rightarrow> (string \<Rightarrow> ocean_client) \<Rightarrow> string list \<Rightarrow> ocean \<Rightarrow> ocean" where
  "all_report now cs is oc = fold (\<lambda>i. receive_round i (report_messages (now i) (cs i))) is oc"

lemma all_report_shows:
  assumes "set is \<subseteq> mkeys (oc_workers oc)" and "distinct is" and "\<And>i. i \<in> set is \<Longrightarrow> named (cs i)"
  shows "oc_jobs (all_report now cs is oc) = oc_jobs oc \<and>
    mkeys (oc_workers (all_report now cs is oc)) = mkeys (oc_workers oc) \<and>
    (\<forall>i n. shown_metric (all_report now cs is oc) i n = (if i \<in> set is then
       (case map_of (cl_services (cs i)) n of None \<Rightarrow> shown_metric oc i n | Some ts \<Rightarrow> Some (service_metric (now i) ts))
      else shown_metric oc i n))"
  using assms
proof (induction "is" arbitrary: oc)
  case Nil
  then show ?case by (simp add: all_report_def)
next
  case (Cons i0 "is")
  let ?oc = "receive_round i0 (report_messages (now i0) (cs i0)) oc"
  have i0: "i0 \<in> mkeys (oc_workers oc)" using Cons.prems(1) by simp
  note one = receive_report_round [OF Cons.prems(3) i0, of i0 "now i0", simplified]
  have keys: "mkeys (oc_workers ?oc) = mkeys (oc_workers oc)" and jobs: "oc_jobs ?oc = oc_jobs oc"
    and other: "\<And>i n. i \<noteq> i0 \<Longrightarrow> shown_metric ?oc i n = shown_metric oc i n"
    using one(1) by (auto simp: same_but_figures_def shown_metric_def)
  have "set is \<subseteq> mkeys (oc_workers ?oc)" "distinct is" "\<And>i. i \<in> set is \<Longrightarrow> named (cs i)"
    using Cons.prems keys by auto
  note rest = Cons.IH [OF this]
  have fold: "all_report now cs (i0 # is) oc = all_report now cs is ?oc" by (simp add: all_report_def)
  have "shown_metric (all_report now cs is ?oc) i n = (if i \<in> set (i0 # is) then
       (case map_of (cl_services (cs i)) n of None \<Rightarrow> shown_metric oc i n | Some ts \<Rightarrow> Some (service_metric (now i) ts))
      else shown_metric oc i n)" for i n
  proof (cases "i = i0")
    case True
    show ?thesis unfolding True using rest Cons.prems(2) one(2) by simp
  next
    case False
    with rest other [OF False] show ?thesis by (simp split: option.split)
  qed
  with rest keys jobs show ?case by (simp add: fold)
qed


section \<open>What GetMetrics makes of it\<close>

definition requests :: "ocean_client \<Rightarrow> string \<Rightarrow> int" where
  "requests c n = (case map_of (cl_services c) n of None \<Rightarrow> 0
     | Some ts \<Rightarrow> attempts_made ts)"

lemma service_metric_counts:
  "length (ts_workers ts) < 2 ^ 31 \<Longrightarrow> m_worker_count (service_metric now ts) = int (length (ts_workers ts))"
  "m_request_count (service_metric now ts) = attempts_made ts"
  by (simp_all add: service_metric_def metric_requests) (simp add: serviceMetric_def Let_def to_int32_id)

lemma gather_counts:
  "mt_WorkerCount (g_agg (fold gather_metric ms g)) = mt_WorkerCount (g_agg g) + sum_list (map m_worker_count ms)"
  "mt_RequestCount (g_agg (fold gather_metric ms g)) = mt_RequestCount (g_agg g) + sum_list (map m_request_count ms)"
  by (induction ms arbitrary: g) (simp_all add: gather_metric_def Let_def)

lemma aggregate_counts:
  "mt_WorkerCount (fst (aggregate n ms)) = sum_list (map m_worker_count ms)"
  "mt_RequestCount (fst (aggregate n ms)) = sum_list (map m_request_count ms)"
  by (simp_all add: aggregate_fields Let_def gather_counts gather_init_def zero_lib_metric_def)

lemma job_metrics_all:
  assumes "\<And>i c. (i, c) \<in> set al \<Longrightarrow> shown_metric oc i n = Some (f i)" and "j_assignments j = al"
  shows "job_metrics n j (oc_workers oc) = map (\<lambda>(i, _). f i) al"
proof -
  have "List.map_filter (\<lambda>(i, _). shown_metric oc i n) al = map (\<lambda>(i, _). f i) al"
    using assms(1)
  proof (induction al)
    case (Cons p al)
    obtain i c where p: "p = (i, c)" by force
    have "shown_metric oc i n = Some (f i)" using Cons.prems [of i c] by (simp add: p)
    moreover have "List.map_filter (\<lambda>(i, _). shown_metric oc i n) al = map (\<lambda>(i, _). f i) al"
      by (rule Cons.IH) (use Cons.prems in auto)
    ultimately show ?case by (simp add: p map_filter_simps)
  qed (simp add: map_filter_simps)
  then show ?thesis by (simp add: job_metrics_def assms(2) shown_metric_def)
qed

text \<open>The services of the workers on a stream are named as they are filed.\<close>

lemma named_receive: "named c \<Longrightarrow> named (receive parse now msg c)"
proof -
  assume c: "named c"
  have wf: "wf_map (cl_services (receive parse now msg c))"
    using c by (simp add: named_def receive_def handleCommand_def startService_def stopService_def Let_def
        split: option.split action.split)
  have h: "map_of (cl_services c) n = Some ts \<Longrightarrow> Name (ts_conf ts) = n" for n ts
    using c unfolding named_def by blast
  have "Name (ts_conf ts) = n" if ts: "map_of (cl_services (receive parse now msg c)) n = Some ts" for n ts
  proof (cases "map_of (cl_services c) n = Some ts")
    case False
    with ts show ?thesis
      by (auto simp: receive_def handleCommand_def conf_from_params_def Let_def split: option.splits action.splits if_splits)
  qed (rule h)
  with wf show ?thesis by (simp add: named_def)
qed

definition all_named :: "cluster \<Rightarrow> bool" where
  "all_named k \<longleftrightarrow> (\<forall>i\<in>k_up k. named (k_clients k i))"

lemma cluster_step_named: "cluster_step parse k k' \<Longrightarrow> all_named k \<Longrightarrow> all_named k'"
proof (induction rule: cluster_step.induct)
  case (attached w i k oc')
  then show ?case by (auto simp: all_named_def named_def)
next
  case (arrived k i msg rest now)
  then show ?case using named_receive by (auto simp: all_named_def)
qed (auto simp: all_named_def)

interpretation nam: machine cluster_init "cluster_step parse" all_named
  by unfold_locales (auto simp: cluster_init_def all_named_def dest: cluster_step_named)


lemma forget_metrics: "map_of (w_metrics (forget n w)) n = None"
  by (simp add: forget_def)

lemma map_filter_none: "(\<And>i. i \<in> mkeys l \<Longrightarrow> f i = None) \<Longrightarrow> List.map_filter (\<lambda>(i, _). f i) l = []"
  by (induction l) (auto simp: map_filter_simps)

lemma map_filter_one:
  "distinct (map fst l) \<Longrightarrow> i \<in> mkeys l \<Longrightarrow> f i = Some m \<Longrightarrow> (\<And>i'. i' \<in> mkeys l \<Longrightarrow> i' \<noteq> i \<Longrightarrow> f i' = None) \<Longrightarrow>
   List.map_filter (\<lambda>(i, _). f i) l = [m]"
proof (induction l)
  case (Cons p l)
  obtain k v where p: "p = (k, v)" by force
  show ?case
  proof (cases "k = i")
    case True
    have "List.map_filter (\<lambda>(i, _). f i) l = []"
      using Cons.prems(1,4) by (intro map_filter_none) (force simp: p True)
    with True Cons.prems(3) show ?thesis by (simp add: p map_filter_simps)
  next
    case False
    then have "List.map_filter (\<lambda>(i, _). f i) l = [m]"
      using Cons.prems by (intro Cons.IH) (auto simp: p)
    moreover have "f k = None" using Cons.prems(4) [of k] False by (simp add: p)
    ultimately show ?thesis by (simp add: p map_filter_simps)
  qed
qed simp

lemma rests_cluster_steps: "rests parse k k' \<Longrightarrow> (cluster_step parse)\<^sup>*\<^sup>* k k'"
  unfolding rests_def by (metis deliver_step mono_rtranclp)

text \<open>While they work, the services of a worker keep their configurations and their loops.\<close>

definition shape :: "tsunami \<Rightarrow> conf \<times> nat" where
  "shape ts = (ts_conf ts, length (ts_workers ts))"

definition worked :: "ocean_client \<Rightarrow> ocean_client \<Rightarrow> bool" where
  "worked c c' \<longleftrightarrow> map (\<lambda>(n, ts). (n, shape ts)) (cl_services c') = map (\<lambda>(n, ts). (n, shape ts)) (cl_services c)"

lemma worked_wf: "worked c c' \<Longrightarrow> wf_map (cl_services c') = wf_map (cl_services c)"
  unfolding worked_def wf_map_def by (drule arg_cong [where f = "map fst"]) (simp add: comp_def case_prod_unfold)

lemma worked_shape:
  assumes "worked c c'"
  shows "map_option shape (map_of (cl_services c') n) = map_option shape (map_of (cl_services c) n)"
  using arg_cong [OF assms [unfolded worked_def], of "\<lambda>m. map_of m n"] by (simp add: map_of_map)

lemma worked_running:
  assumes "worked c c'"
  shows "running c' n = running c n"
proof -
  have "running c n = map_option snd (map_option shape (map_of (cl_services c) n))" for c
    by (simp add: running_def option.map_comp comp_def shape_def)
  with worked_shape [OF assms] show ?thesis by simp
qed

lemma worked_named:
  assumes "worked c c'" and "named c"
  shows "named c'"
proof -
  have "Name (ts_conf ts') = n" if ts': "map_of (cl_services c') n = Some ts'" for n ts'
  proof -
    from worked_shape [OF assms(1), of n] ts' obtain ts where "map_of (cl_services c) n = Some ts" "ts_conf ts = ts_conf ts'"
      by (cases "map_of (cl_services c) n") (auto simp: shape_def)
    with assms(2) show ?thesis by (metis named_def)
  qed
  with assms worked_wf [OF assms(1)] show ?thesis by (simp add: named_def)
qed

text \<open>Whatever the goroutines of a service do, the client has worked.\<close>

lemma engine_shape: "engine_event e e' \<Longrightarrow> shape (en_ts e') = shape (en_ts e)"
  unfolding engine_event_def
proof (elim disjE)
  show "engine_step e e' \<Longrightarrow> shape (en_ts e') = shape (en_ts e)"
    by (induction rule: engine_step.induct) (simp_all add: shape_def)
qed (simp add: shape_def stop_engine_def Stop_ts_def)

lemma engine_works:
  assumes "engine_event\<^sup>*\<^sup>* e e'" and "wf_map (cl_services c)" and "map_of (cl_services c) n = Some (en_ts e)"
  shows "worked c (c\<lparr>cl_services := madj n (\<lambda>_. en_ts e') (cl_services c)\<rparr>)"
proof -
  have "shape (en_ts e') = shape (en_ts e)" using assms(1) by (induction rule: rtranclp_induct) (simp_all add: engine_shape)
  moreover have "ts = en_ts e" if "(n, ts) \<in> set (cl_services c)" for ts
    using that assms(2,3) by (simp add: wf_map_of)
  ultimately show ?thesis by (auto simp: worked_def madj_def)
qed

section \<open>Properties\<close>

text \<open>A worker reports in whole rounds. Whatever its services do in between and whenever the
  stream ends: what its report loop has sent on a stream is a sequence of complete rounds,
  each the reports of all services that ran at its tick and then one heartbeat, followed by
  at most a beginning of one more.\<close>
theorem reports_come_in_rounds:
  assumes "reach report_init report_step r"
  shows "\<exists>rs part rest. (\<forall>ms\<in>set rs. \<exists>now c. ms = report_messages now c) \<and> rl_sent r = concat rs @ part \<and>
    (part = [] \<or> (\<exists>now c. part @ rest = report_messages now c)) \<and> (rl_pc r = Ticking \<longrightarrow> part = [])"
proof -
  obtain rs part rest where "\<forall>ms\<in>set rs. round_of ms" "rl_sent r = concat rs @ part"
    "part = [] \<and> rest = [] \<or> round_of (part @ rest)"
    and pc: "case rl_pc r of Ticking \<Rightarrow> part = [] | Sending ms \<Rightarrow> ms = rest \<and> ms \<noteq> [] | Left \<Rightarrow> True"
    using rpt.reach_inv [OF assms] unfolding rounds_ok_def by blast
  moreover have "rl_pc r = Ticking \<longrightarrow> part = []" using pc by auto
  ultimately show ?thesis unfolding round_of_def by blast
qed

definition demo_reporter :: reporter where
  "demo_reporter = \<lparr>rl_pc = Ticking, rl_client = demo_started, rl_done = False, rl_sent = []\<rparr>"

theorem reports_come_in_rounds_witness:
  "\<exists>r. reach report_init report_step r \<and> length (rl_sent r) = 1 \<and> rl_pc r \<noteq> Ticking \<and>
     (\<exists>rs part rest. set rs \<subseteq> {report_messages now c | now c. True} \<and> rl_sent r = concat rs @ part \<and>
       (part = [] \<or> (\<exists>now c. part @ rest = report_messages now c)))"
proof -
  let ?r = "demo_reporter\<lparr>rl_pc := Sending (report_messages 9 demo_started)\<rparr>"
  have "cl_services demo_started \<noteq> []" by code_simp
  then obtain m ms where ms: "report_messages 9 demo_started = m # ms" "ms \<noteq> []"
    by (cases "cl_services demo_started") (auto simp: report_messages_def)
  let ?r' = "?r\<lparr>rl_pc := Sending ms, rl_sent := [m]\<rparr>"
  have "reach report_init report_step demo_reporter"
    by (rule reach_init) (simp add: report_init_def demo_reporter_def)
  moreover have "report_step demo_reporter ?r"
    using report_step.tick [of demo_reporter 9] by (simp add: demo_reporter_def)
  ultimately have "reach report_init report_step ?r" by (rule reach_step)
  moreover have "report_step ?r ?r'"
    using report_step.sent [of ?r m ms] ms by (simp add: demo_reporter_def)
  ultimately have r: "reach report_init report_step ?r'" by (rule reach_step)
  from reports_come_in_rounds [OF r] have "\<exists>rs part rest. set rs \<subseteq> {report_messages now c | now c. True} \<and>
    rl_sent ?r' = concat rs @ part \<and> (part = [] \<or> (\<exists>now c. part @ rest = report_messages now c))" by blast
  with r show ?thesis by (intro exI [of _ ?r']) simp
qed

text \<open>The figures are those of the load. When the deliveries of a cluster have come to rest,
  the request loops have worked for however long, and every worker has then sent one round
  of reports, in whatever order, GetMetrics' aggregate of a test that is not paused counts
  exactly the concurrency that the test was booked with as its request loops, and exactly
  the requests that these loops have made.\<close>
theorem monitored_load:
  assumes "reach cluster_init (cluster_step parse) k" and "mkeys (oc_workers (k_ocean k)) \<subseteq> k_up k"
    and "rests parse k k'" and "distinct is" and "set is = mkeys (oc_workers (k_ocean k))"
    and "map_of (oc_jobs (k_ocean k)) n = Some j" and "\<not> j_paused j"
    and "\<And>i. i \<in> set is \<Longrightarrow> worked (k_clients k' i) (cs i)"
    and "oc = all_report now cs is (k_ocean k')"
  shows "map_of (oc_jobs oc) n = Some j \<and>
    mt_WorkerCount (fst (aggregate n (job_metrics n j (oc_workers oc)))) = msum (\<lambda>c. c) (j_assignments j) \<and>
    mt_RequestCount (fst (aggregate n (job_metrics n j (oc_workers oc)))) =
      (\<Sum>i\<in>mkeys (j_assignments j). requests (cs i) n)"
proof -
  note ok = clu.reach_inv [OF assms(1)]
  note D = cluster_okD [OF ok]
  obtain m where m: "(deliver parse ^^ m) k k'" using assms(3) rtranclp_imp_relpowp unfolding rests_def by metis
  note dl = delivered [OF m ok]
  have run: "running (cs i) n = expected (oc_jobs (k_ocean k)) i n" if "i \<in> set is" for i
    using rests_plan [OF assms(3) ok assms(2)] that assms(5) worked_running [OF assms(8)] by metis
  have "all_named k'"
    using nam.reach_inv [OF assms(1)] assms(3) nam.inv_steps rests_cluster_steps by blast
  then have named: "named (cs i)" if "i \<in> set is" for i
    using worked_named [OF assms(8)] that assms(2,5) dl by (auto simp: all_named_def)
  have sub: "set is \<subseteq> mkeys (oc_workers (k_ocean k'))" using dl assms(5) by simp
  note A = all_report_shows [OF sub assms(4), where cs = cs and now = now, OF named, folded assms(9)]
  have wfj: "wf_job (oc_workers (k_ocean k)) n j" using D(1) assms(6) by (rule wf_oceanD)
  let ?al = "j_assignments j"
  let ?ts = "\<lambda>i. the (map_of (cl_services (cs i)) n)"
  have al: "wf_map ?al" using wfj by (simp add: wf_job_def)
  have share: "map_of (cl_services (cs i)) n = Some (?ts i) \<and> int (length (ts_workers (?ts i))) = c \<and> c < 2 ^ 31 \<and>
      i \<in> set is" if "(i, c) \<in> set ?al" for i c
  proof -
    have ic: "map_of ?al i = Some c" using that al by (simp add: wf_map_of)
    note fits = share_fits [OF D(1,2) assms(6) ic]
    have i: "i \<in> set is" using wfj ic assms(5) by (simp add: wf_job_def)
    have "running (cs i) n = Some (nat c)" using run [OF i] assms(6,7) ic by (simp add: expected_job)
    then show ?thesis using fits i by (auto simp: running_def)
  qed
  have jm: "job_metrics n j (oc_workers oc) = map (\<lambda>(i, _). service_metric (now i) (?ts i)) ?al"
  proof (rule job_metrics_all [OF _ refl])
    fix i c assume "(i, c) \<in> set ?al"
    from share [OF this] A show "shown_metric oc i n = Some (service_metric (now i) (?ts i))"
      by (cases "map_of (cl_services (cs i)) n") simp_all
  qed
  have "sum_list (map m_worker_count (job_metrics n j (oc_workers oc))) = sum_list (map snd ?al)"
    unfolding jm map_map by (rule arg_cong [where f = sum_list], rule map_cong [OF refl])
      (use share service_metric_counts(1) in fastforce)
  moreover have "m_request_count (service_metric (now i) (?ts i)) = requests (cs i) n" if "(i, c) \<in> set ?al" for i c
    using share [OF that]
    by (cases "map_of (cl_services (cs i)) n") (simp_all add: service_metric_counts(2) requests_def)
  then have "sum_list (map m_request_count (job_metrics n j (oc_workers oc))) =
      (\<Sum>i\<leftarrow>map fst ?al. requests (cs i) n)"
    unfolding jm map_map by (intro arg_cong [where f = sum_list] map_cong [OF refl]) auto
  moreover have "(\<Sum>i\<leftarrow>map fst ?al. requests (cs i) n) = (\<Sum>i\<in>mkeys ?al. requests (cs i) n)"
    using al sum_list_distinct_conv_sum_set [of "map fst ?al"] by (simp add: wf_map_def)
  moreover have "sum_list (map snd ?al) = msum (\<lambda>c. c) ?al" by (simp add: msum_def case_prod_unfold)
  ultimately show ?thesis using A dl assms(6) by (simp add: aggregate_counts)
qed

text \<open>A client whose loops have each made five requests.\<close>

definition five_each :: "ocean_client \<Rightarrow> ocean_client" where
  "five_each c = c\<lparr>cl_services := map (\<lambda>(n, ts). (n, ts\<lparr>ts_workers :=
     map (\<lambda>w. w\<lparr>lw_stat := (lw_stat w)\<lparr>numReq := 5\<rparr>\<rparr>) (ts_workers ts)\<rparr>)) (cl_services c)\<rparr>"

lemma five_each_worked: "worked c (five_each c)"
  by (simp add: worked_def five_each_def shape_def comp_def case_prod_unfold)

lemma five_each_requests: "running c n = Some l \<Longrightarrow> requests (five_each c) n = 5 * int l"
  by (auto simp: running_def requests_def five_each_def attempts_made_def map_of_map comp_def sum_list_triv)

lemma demo_fives:
  obtains k' j where "rests (\<lambda>u. (''http'', u)) demo_started_cluster k'"
    and "map_of (oc_jobs (k_ocean demo_started_cluster)) ''t'' = Some j" and "\<not> j_paused j"
    and "j_assignments j = [(''a'', 3)]" and "requests (five_each (k_clients k' ''a'')) ''t'' = 15"
    and "set [''a''] = mkeys (oc_workers (k_ocean demo_started_cluster))"
proof -
  let ?p = "\<lambda>u. (''http'', u)" and ?k = demo_started_cluster
  obtain k' where k': "rests ?p ?k k'" using rests_exists by blast
  have "map_option (\<lambda>j. (j_paused j, j_assignments j)) (map_of (oc_jobs (k_ocean ?k)) ''t'') = Some (False, [(''a'', 3)])"
    by code_simp
  then obtain j where j: "map_of (oc_jobs (k_ocean ?k)) ''t'' = Some j" "\<not> j_paused j" "j_assignments j = [(''a'', 3)]"
    by auto
  have a: "''a'' \<in> mkeys (oc_workers (k_ocean ?k))" by (simp only: demo_started(2) insertI1)
  from rests_plan [OF k' clu.reach_inv [OF demo_started(1)] demo_started(3)] a
  have "running (k_clients k' ''a'') ''t'' = expected (oc_jobs (k_ocean ?k)) ''a'' ''t''" by metis
  then have "running (k_clients k' ''a'') ''t'' = Some 3" using j by (simp add: expected_def)
  then have five: "requests (five_each (k_clients k' ''a'')) ''t'' = 15" using five_each_requests by fastforce
  have one: "set [''a''] = mkeys (oc_workers (k_ocean ?k))" by (simp add: demo_started(2))
  show thesis by (rule that [OF k' j five one])
qed

theorem monitored_load_witness:
  "\<exists>(oc :: ocean) j. map_of (oc_jobs oc) ''t'' = Some j \<and>
     mt_WorkerCount (fst (aggregate ''t'' (job_metrics ''t'' j (oc_workers oc)))) = 3 \<and>
     mt_RequestCount (fst (aggregate ''t'' (job_metrics ''t'' j (oc_workers oc)))) = 15"
proof -
  obtain k' j where D: "rests (\<lambda>u. (''http'', u)) demo_started_cluster k'"
      "map_of (oc_jobs (k_ocean demo_started_cluster)) ''t'' = Some j" "\<not> j_paused j" "j_assignments j = [(''a'', 3)]"
      "requests (five_each (k_clients k' ''a'')) ''t'' = 15" "set [''a''] = mkeys (oc_workers (k_ocean demo_started_cluster))"
    by (rule demo_fives)
  let ?cs = "\<lambda>i. five_each (k_clients k' i)"
  let ?oc = "all_report (\<lambda>_. 9) ?cs [''a''] (k_ocean k')"
  have "distinct [''a'']" by simp
  note M = monitored_load [OF demo_started(1) demo_started(3) D(1) this D(6,2,3) five_each_worked refl, where now = "\<lambda>_. 9"]
  show ?thesis by (intro exI [of _ ?oc] exI [of _ j]) (use M in \<open>simp add: D(4,5) msum_def\<close>)
qed

text \<open>Pause resets the figures of a test, but a report that its worker sent before the STOP
  reached it arrives afterwards and is shown as the figures of the paused test, for as long as
  the pause lasts: nothing else is reported of it.\<close>
theorem late_report_outlives_pause:
  assumes "wf_ocean oc" and "map_of (oc_jobs oc) n = Some j" and "pause_job n oc = (None, oc')"
    and "map_of (j_assignments j) i = Some c" and "m_job m = n"
  shows "\<exists>j'. map_of (oc_jobs oc') n = Some j' \<and> j_paused j' \<and> job_metrics n j' (oc_workers oc') = [] \<and>
    job_metrics n j' (oc_workers (onReport i m oc')) = [m]"
proof -
  let ?j = "j\<lparr>j_paused := True\<rparr>"
  have wfj: "wf_job (oc_workers oc) n j" using assms(1,2) by (rule wf_oceanD)
  have oc': "oc' = oc\<lparr>oc_workers := mapply (\<lambda>take w. forget n (push_command (stopCommand n) w)) (j_assignments j) (oc_workers oc),
      oc_jobs := mput n ?j (oc_jobs oc)\<rparr>"
    using assms(1,3) by (cases rule: pause_job_cases) (use assms(2) in auto)
  have none: "shown_metric oc' i' n = None" if i': "i' \<in> mkeys (j_assignments j)" for i'
  proof -
    obtain c' where "map_of (j_assignments j) i' = Some c'" using mkeys_obtain [OF i'] by blast
    then show ?thesis
      by (cases "map_of (oc_workers oc) i'") (simp_all add: oc' shown_metric_def map_of_mapply forget_metrics)
  qed
  have al: "wf_map (j_assignments j)" using wfj by (simp add: wf_job_def)
  obtain w where w: "map_of (oc_workers oc') i = Some w"
    using wfj assms(4) mkeys_obtain [of i "oc_workers oc"] by (auto simp: wf_job_def oc' map_of_mapply)
  have one: "shown_metric (onReport i m oc') i' n = (if i' = i then Some m else shown_metric oc' i' n)" for i'
    using w assms(5) by (simp add: shown_metric_def onReport_def map_of_madj)
  have empty: "job_metrics n ?j (oc_workers oc') = []"
    unfolding job_metrics_def using map_filter_none [of "j_assignments j" "\<lambda>i. shown_metric oc' i n"] none
    by (simp add: shown_metric_def)
  have "List.map_filter (\<lambda>(i', _). shown_metric (onReport i m oc') i' n) (j_assignments j) = [m]"
    by (rule map_filter_one) (use al assms(4) none one in \<open>auto simp: wf_map_def mkeys_Some\<close>)
  then have "job_metrics n ?j (oc_workers (onReport i m oc')) = [m]"
    by (simp add: job_metrics_def shown_metric_def)
  moreover note empty
  moreover have "map_of (oc_jobs oc') n = Some ?j" by (simp add: oc')
  ultimately show ?thesis by (intro exI [of _ ?j]) simp
qed

theorem late_report_outlives_pause_witness:
  "\<exists>j'. map_of (oc_jobs run_paused) ''t'' = Some j' \<and> j_paused j' \<and>
     job_metrics ''t'' j' (oc_workers (onReport ''a'' (service_metric 9 (the (map_of (cl_services demo_started) ''t''))) run_paused)) =
       [service_metric 9 (the (map_of (cl_services demo_started) ''t''))]"
proof -
  have "map_option (\<lambda>j. map_of (j_assignments j) ''a'') (map_of (oc_jobs run_started) ''t'') = Some (Some 2)" by code_simp
  then obtain j where j: "map_of (oc_jobs run_started) ''t'' = Some j" "map_of (j_assignments j) ''a'' = Some 2" by auto
  have none: "fst (pause_job ''t'' run_started) = None" by code_simp
  have paused: "pause_job ''t'' run_started = (None, run_paused)"
    unfolding run_paused_def by (rule prod_eqI) (simp_all add: none)
  have name: "m_job (service_metric 9 (the (map_of (cl_services demo_started) ''t''))) = ''t''" by code_simp
  from late_report_outlives_pause [OF conjunct1 [OF tidy_ok [OF run_started_reach]] j(1) paused j(2) name]
  show ?thesis by auto
qed

end
