(* ===== verification/Dashboard.thy ===== *)
theory Dashboard
  imports Texts Telemetry
begin

text \<open>
  What a client sees of a running test: the bytes that GetMetrics answers to the bytes of its
  request, and with the reports of Telemetry the load that the fleet has made.
\<close>

lemma aggregate_name: "mt_Name (fst (aggregate n ms)) = n"
proof -
  have "mt_Name (g_agg (fold gather_metric ms g)) = mt_Name (g_agg g)" for g
    by (induction ms arbitrary: g) (simp_all add: gather_metric_def Let_def)
  then show ?thesis by (simp add: aggregate_def Let_def gather_init_def)
qed

lemma clean_metric_keys:
  "clean ''avg''" "clean ''min''" "clean ''max''" "clean ''error_count''" "clean ''workerCount''"
  "clean ''ElapedTime''" "clean ''RequestCount''" "clean ''rps''" "clean ''buckets''"
  by (auto intro!: clean_ascii simp: byte_def)

text \<open>The data of the answer, entry by entry.\<close>

definition metrics_data :: "lib_metric \<times> int list \<Rightarrow> (string, entry) gomap" where
  "metrics_data am = mput ''buckets'' (Json (if snd am = [] then JNull else JArr (map JInt (snd am))))
     (metricxToSlice (fst am))"

lemma metrics_data_wf: "wf_map (metrics_data am)"
  by (simp add: metrics_data_def metricxToSlice_def)

lemma metrics_data_clean:
  assumes "\<And>x. clean (fx x)" "clean (mt_Name (fst am))"
  shows "list_all (\<lambda>(k, v). clean k \<and> clean (entry_text fx fr v)) (metrics_data am)"
proof -
  let ?j = "if snd am = [] then JNull else JArr (map JInt (snd am))"
  have "clean_json ?j" by (simp add: list_all_iff)
  then have "clean (json_text fr ?j)" by (rule json_text_clean)
  moreover have "metrics_data am = metricxToSlice (fst am) @ [(''buckets'', Json ?j)]"
    unfolding metrics_data_def by (rule mput_new) (simp add: metricxToSlice_def)
  ultimately show ?thesis
    using assms clean_keys clean_metric_keys int_str_clean by (simp add: metricxToSlice_def)
qed

lemma GetMetrics_answer:
  assumes "rq_Method r \<noteq> ''OPTIONS''" "rq_body r = Value q" "map_of (oc_jobs (sv_ocean s)) (q_Name (Conf q)) = Some j"
  shows "GetMetrics r w s =
    (succeed (Some (metrics_data (aggregate (q_Name (Conf q)) (job_metrics (q_Name (Conf q)) j (oc_workers (sv_ocean s)))))) (cors r w), s)"
  using assms by (simp add: GetMetrics_def preflight_def decoding_def Decoder_def metrics_data_def split_def Let_def)

lemma succeed_body: "rw_body (succeed d (cors r w)) =
    rw_body w @ [Envelope \<lparr>e_code = ResultSuccess, e_data = d, e_error_code = 0, e_error_message = []\<rparr>]"
  by (simp add: succeed_def WriteSuccess_def cors_def Let_def)

text \<open>A client that parses the answer finds each figure under its key.\<close>

lemma metrics_read:
  assumes "\<And>x. clean (fx x)" "clean n"
    and "rq_Method r \<noteq> ''OPTIONS''" "rq_body r = Value q" "q_Name (Conf q) = n" "map_of (oc_jobs (sv_ocean s)) n = Some j"
    and "am = aggregate n (job_metrics n j (oc_workers (sv_ocean s)))"
  shows "\<exists>e. rw_body (fst (GetMetrics r w s)) = rw_body w @ [Envelope e] \<and> snd (GetMetrics r w s) = s
    \<and> (\<forall>k. read_data fl k (answer_text fx fr e) = map_option (entry_text fx fr) (map_of (metrics_data am) k))"
proof -
  let ?e = "\<lparr>e_code = ResultSuccess, e_data = Some (metrics_data am), e_error_code = 0, e_error_message = []\<rparr>"
  have "GetMetrics r w s = (succeed (Some (metrics_data am)) (cors r w), s)"
    using GetMetrics_answer [OF assms(3,4)] assms(5-7) by simp
  then have "rw_body (fst (GetMetrics r w s)) = rw_body w @ [Envelope ?e] \<and> snd (GetMetrics r w s) = s"
    by (simp add: succeed_body)
  moreover have "clean (mt_Name (fst am))" using assms(2,7) by (simp add: aggregate_name)
  then have "clean_envelope fx fr ?e" using metrics_data_clean [OF assms(1)] by (simp add: clean_envelope_def)
  then have "read_data fl k (answer_text fx fr ?e) = map_option (entry_text fx fr) (map_of (metrics_data am) k)" for k
    by (rule read_data_clean) (simp_all add: metrics_data_wf)
  ultimately show ?thesis by blast
qed


definition asking :: request where
  "asking = zero_request\<lparr>Conf := zero_cmd_conf\<lparr>q_Name := ''t''\<rparr>\<rparr>"


end
