(* ===== verification/Spec2Isabelle.thy ===== *)
theory Spec2Isabelle
  imports OceanProps AuthProps Fleet EndToEnd EnvProps Control Registry Database Typed CommandLine Dashboard
begin

text \<open>
  Tsunami: a distributed load generator.

  The program. Tsunami is two Go programs. An ocean (master/) takes test requests over HTTP,
  splits the requested concurrency over the workers attached to it, and pushes START and
  STOP commands down their gRPC streams. A worker (worker/) dials an ocean, announces its
  capacity, runs the tests it is told to run and sends its figures up. Oceans register in
  etcd so that workers find them. Users log in with a password; their sessions, saved tests
  and environments are in a SQLite file (master/auth/).

  How to read it. A Go struct is a record with the fields of the struct, a map an
  association list with distinct keys whose order stands for one iteration order (Prelude),
  a critical section under a mutex one function on the state, a goroutine a relation of
  steps, an error or an early return a constructor of a sum or an option, a handler a
  function of the request, the response so far and the state of the server. Strings are
  lists of bytes. Machine integers are int with the conversion to int32 or int64 written
  where the code converts; doubles are exact reals. Code that is not under src/ is an
  argument: SHA-256 and bcrypt, random bytes, the clock, the database driver (the field
  db_refuses says which statements fail), the file system, etcd, pflag and viper, the HTTP
  client of the load engine and its parsing of URLs. What is assumed of etcd over time is the
  predicate etcd_ok (Etcd), one law for each call, which demo_server (Registry) satisfies.

  Shared material.
    Prelude: maps, sums over maps, reachable states; the locales machine (an invariant kept
      by every step) and key_value (the laws of a map).
    GoStrings, NetAddr, Json: what is used of strings, strconv, sort, net and encoding/json.
    Proto: the messages of proto/services.proto and their getters.
    Libs: libs/: configurations, envelopes, WriteSuccess, Decoder, http.ResponseWriter.
    JsonText: the text that encoding/json writes of a value, and a reader of JSON texts with a
      fuel of twice the length of the text, which is enough (read_value_fuel).
    Answer: the bytes that WriteSuccess writes - the JSON text of the envelope, taken by
      Fprintf for a format - and what a client reads of them.
    RequestText: what Decoder makes of the bytes of a request, struct by struct.
    Texts: the locales codec and text_codec (what is printed is parsed), interpreted by every
      struct that the program sends as a text; registrations as the texts that etcd holds.

  The ocean.
    Allocate: Ocean.allocate (services.go). Its loop recurses on the remaining request,
      which a round with an active worker makes smaller: the measure of the termination
      proof. The plan exists iff the fleet can cover the request, is exact, capped, and
      balanced to within one, in whatever order the map is visited.
    Store: auth/store.go, bookmarks.go, env.go: rows, one operation per SQL statement;
      the interpretation db: unique keys and referential integrity in every run.
    EnvSubst, EnvProps: environments; the active environment is what the workers get, and
      what the order of the map decides.
    Ocean: the structs job and Ocean, the critical sections of Start, Stop, Pause and
      Resume, and of client.go's addWorker, removeWorker, onReport and onSample. A
      channel holds send_capacity = 32 commands.
    OceanInv, OceanRun, OceanProps: wf_ocean (holds always) and ledger (a reservation is
      what the jobs hold; holds while no attached id registers again), the locale planner
      interpreted by allocate, the machines anyrun and tidy, and every branch of the
      operations.
    Auth, AuthProps: auth.go, provider.go, middleware.go: tokens, sessions, login, the
      gate; the locale session_table interpreted on the store.
    Discovery: master/discovery.go and worker/discovery.go: what is published, read back
      and chosen; the score of an ocean is an instance of linorder.
    Api, ApiView: every handler of services.go.
    Routes: libs/web.go and the route table of main behind the gate; serve is one request.
    Boot: readConf's defaults, New, initDiscovery and main of ocean.go.
    Server: the running ocean as a machine of requests, stream events and driver moods,
      started by main.
    Attach: the ocean's end of the streams (client.go: Attach), several at a time.
    Database: auth/store.go's Open, migrate and Close: the file as the tables that exist in
      it, an Open that stops anywhere, and what a process that starts again finds.
    Typed: every message in a worker's channel is a command that the worker acts on, with a
      number of loops within what it announced.

  The worker.
    Tmpl: tmpl.go: compilation and rendering of request templates. The text that is left
      gets shorter with every segment.
    WorkerStat: worker.go's counters and server.go's serviceMetric.
    Engine: tsunami.go and worker.go: the service, one request, and the goroutines that
      feed and drain its queue as run_step.
    EngineRun: the same goroutines with the service they run on, as engine_step: a job taken
      off the queue is a request of one loop and ends in its counters. run_of is the
      abstraction to run_step; each step is one of its steps or none (engine_simulates).
    WorkerClient: server.go: commands, reports and the loop that stays attached, as
      client_step.
    WorkerBoot: readConf's defaults, New and main of tsunami.go; the address that is dialled.
    Console, Control: shell.go, its commands, the control handlers of services.go and
      json.go, which no route of main reaches.
    CommandLine: the version switch of both mains, what readConf asks of pflag and viper,
      and help.go's ReadConf on package flag with the integers of strconv.ParseInt.
    Etcd: etcd/client.go: the connection, writes, leases, reads, the mutex and WatchPrefix.
      The rounds of its endless loop are counted: a theorem about n rounds for every n.

  Compositions.
    Registry: the fleet's registrations over time: oceans that come up, take snapshots and
      put them later, die, and leases that run out, as registry_step. A node also records
      what it has put (nd_past, nd_shown), for the invariant registry_ok only.
    Telemetry: the way up: the report loop of a worker (report_step), the rounds of reports
      that reach the ocean, and what GetMetrics makes of them. A worker may have made any
      requests since its commands arrived (worked); engine_works shows that the goroutines of
      EngineRun do no more than that.
    Dashboard: the bytes of a metrics request and of its answer, which show that load.
    Fleet: the figures an ocean shows are those of all attempts its workers made.
    Cluster: ocean, wires and workers as cluster_step; the workers run what the jobs say.
    Delivery: left to themselves, senders and receivers empty every channel and stream in a
      bounded number of steps; the backlog is the measure.
    EndToEnd: from an HTTP request through gate, scheduler and streams to the number of
      request loops that run.

  Where the hypotheses of the main theorems come from. A second registration of an attached
  id breaks the ledger (reattach_overcommits); a full channel drops a command
  (full_channel_drops_command); Resume of a running test leaves loops behind
  (resume_running_strands_worker). Each theorem that assumes such a case away has the
  counterexample beside it.

  Not modelled. The text of floats and of error and log messages; the bytes of HTTP headers,
  gRPC and TLS; timeouts and sleeps; the file formats of SQLite and YAML; the search
  of viper for the configuration file (its name, type and paths are in viper_setup);
  printing; the generated descriptors and stubs under proto/; registry/config.go and
  worker/job.go (a struct that nothing uses, and one without fields); the web control
  (JavaScript). The real arithmetic of doubles is exact here, so rounding is
  not covered, and counters are unbounded, which 64 bits do not exceed in a process's life.
\<close>

end
